(* ===== verification/Go_Prelude.thy ===== *)
theory Go_Prelude
  imports Main "HOL-Library.Sublist"
begin

section \<open>Go strings, numbers and errors as the library uses them\<close>

text \<open>
  The parts of Go's standard library that sequel's code calls, on Go's own data: a Go
  \<^verbatim>\<open>string\<close> is a sequence of bytes, which is what HOL's \<open>string\<close> (a list of 8-bit
  \<open>char\<close>s) is, and a position in it is a \<open>nat\<close>. A function that answers -1 for
  ``not found'' answers \<open>None\<close> here. Slices \<^verbatim>\<open>s[i:j]\<close> are written \<open>slice s i j\<close>; every
  use in the development is guarded as the code guards it.

  Case mapping is exact on ASCII strings, where \<^verbatim>\<open>strings.ToUpper\<close> has its own branch. On
  other strings it maps runes through Unicode's tables; that mapping is the argument
  \<open>uni\<close> of \<open>ToUpper\<close> and of \<open>ToLower\<close>.

  White space for \<^verbatim>\<open>strings.TrimSpace\<close> and \<^verbatim>\<open>strings.Fields\<close> is Unicode's, given by the
  UTF-8 encodings of its 25 code points.

  The theory also holds the error values shared by the components and the collections of
  simplification rules the component theories add to.
\<close>

named_theorems lex_bounds \<open>how far a scanner moves\<close>
named_theorems go_strings \<open>definitions of the string functions\<close>

subsection \<open>Bytes\<close>

abbreviation byte_of :: "char \<Rightarrow> nat" where
  "byte_of c \<equiv> of_char c"

definition byte_in :: "nat \<Rightarrow> nat \<Rightarrow> char \<Rightarrow> bool" where
  "byte_in lo hi c \<longleftrightarrow> lo \<le> byte_of c \<and> byte_of c \<le> hi"

definition is_lower :: "char \<Rightarrow> bool" where
  "is_lower c \<longleftrightarrow> byte_in 97 122 c"

definition is_upper :: "char \<Rightarrow> bool" where
  "is_upper c \<longleftrightarrow> byte_in 65 90 c"

definition is_digit :: "char \<Rightarrow> bool" where
  "is_digit c \<longleftrightarrow> byte_in 48 57 c"

abbreviation nl :: char where "nl \<equiv> CHR 0x0A"
abbreviation quote1 :: char where "quote1 \<equiv> CHR 0x27"
abbreviation quote2 :: char where "quote2 \<equiv> CHR 0x22"
abbreviation backtick :: char where "backtick \<equiv> CHR 0x60"
abbreviation backslash :: char where "backslash \<equiv> CHR 0x5C"

subsection \<open>Searching and slicing\<close>

definition slice :: "'a list \<Rightarrow> nat \<Rightarrow> nat \<Rightarrow> 'a list" where
  "slice s i j = take (j - i) (drop i s)"

definition HasPrefix :: "string \<Rightarrow> string \<Rightarrow> bool" where
  "HasPrefix s p \<longleftrightarrow> take (length p) s = p"

definition HasSuffix :: "string \<Rightarrow> string \<Rightarrow> bool" where
  "HasSuffix s p \<longleftrightarrow> length p \<le> length s \<and> drop (length s - length p) s = p"

primrec Index :: "string \<Rightarrow> string \<Rightarrow> nat option" where
  "Index [] sub = (if sub = [] then Some 0 else None)"
| "Index (c # s) sub = (if HasPrefix (c # s) sub then Some 0 else map_option Suc (Index s sub))"

definition IndexByte :: "string \<Rightarrow> char \<Rightarrow> nat option" where
  "IndexByte s c = Index s [c]"

primrec IndexAny :: "string \<Rightarrow> string \<Rightarrow> nat option" where
  "IndexAny [] cs = None"
| "IndexAny (c # s) cs = (if c \<in> set cs then Some 0 else map_option Suc (IndexAny s cs))"

definition Contains :: "string \<Rightarrow> string \<Rightarrow> bool" where
  "Contains s sub \<longleftrightarrow> Index s sub \<noteq> None"

definition ContainsAny :: "string \<Rightarrow> string \<Rightarrow> bool" where
  "ContainsAny s cs \<longleftrightarrow> list_ex (\<lambda>c. c \<in> set cs) s"

definition CountByte :: "string \<Rightarrow> char \<Rightarrow> nat" where
  "CountByte s c = length (filter (\<lambda>x. x = c) s)"

definition CutPrefix :: "string \<Rightarrow> string \<Rightarrow> string \<times> bool" where
  "CutPrefix s p = (if HasPrefix s p then (drop (length p) s, True) else (s, False))"

definition TrimPrefix :: "string \<Rightarrow> string \<Rightarrow> string" where
  "TrimPrefix s p = (if HasPrefix s p then drop (length p) s else s)"

definition Cut :: "string \<Rightarrow> string \<Rightarrow> string \<times> string \<times> bool" where
  "Cut s sep = (case Index s sep of
     None \<Rightarrow> (s, [], False)
   | Some i \<Rightarrow> (take i s, drop (i + length sep) s, True))"

fun Split :: "string \<Rightarrow> string \<Rightarrow> string list" where
  "Split s sep =
     (if sep = [] then map (\<lambda>c. [c]) s
      else case Index s sep of
        None \<Rightarrow> [s]
      | Some i \<Rightarrow> if s = [] then [s] else take i s # Split (drop (i + length sep) s) sep)"

declare Split.simps [simp del]

fun Join :: "string list \<Rightarrow> string \<Rightarrow> string" where
  "Join [] sep = []"
| "Join [x] sep = x"
| "Join (x # y # ys) sep = x @ sep @ Join (y # ys) sep"

definition Repeat :: "string \<Rightarrow> nat \<Rightarrow> string" where
  "Repeat s n = concat (replicate n s)"

definition TrimLeftSet :: "string \<Rightarrow> string \<Rightarrow> string" where
  "TrimLeftSet s cutset = dropWhile (\<lambda>c. c \<in> set cutset) s"

definition TrimRightSet :: "string \<Rightarrow> string \<Rightarrow> string" where
  "TrimRightSet s cutset = rev (dropWhile (\<lambda>c. c \<in> set cutset) (rev s))"

definition TrimSet :: "string \<Rightarrow> string \<Rightarrow> string" where
  "TrimSet s cutset = TrimRightSet (TrimLeftSet s cutset) cutset"

subsection \<open>Case mapping\<close>

definition isASCII :: "string \<Rightarrow> bool" where
  "isASCII s \<longleftrightarrow> list_all (\<lambda>c. byte_of c < (128::nat)) s"

definition upper_byte :: "char \<Rightarrow> char" where
  "upper_byte c = (if is_lower c then char_of (byte_of c - 32) else c)"

definition lower_byte :: "char \<Rightarrow> char" where
  "lower_byte c = (if is_upper c then char_of (byte_of c + 32) else c)"

definition ToUpper :: "(string \<Rightarrow> string) \<Rightarrow> string \<Rightarrow> string" where
  "ToUpper uni s = (if isASCII s then map upper_byte s else uni s)"

definition ToLower :: "(string \<Rightarrow> string) \<Rightarrow> string \<Rightarrow> string" where
  "ToLower uni s = (if isASCII s then map lower_byte s else uni s)"

text \<open>
  \<^verbatim>\<open>strings.EqualFold\<close> against an ASCII text of the same number of bytes. A multi-byte rune
  would leave fewer runes than the ASCII text has, so only ASCII letters can differ.
\<close>

definition EqualFoldASCII :: "string \<Rightarrow> string \<Rightarrow> bool" where
  "EqualFoldASCII s t \<longleftrightarrow> map lower_byte s = map lower_byte t"

subsection \<open>White space\<close>

definition spaceEncodings :: "string list" where
  "spaceEncodings =
     [[CHR 0x09], [CHR 0x0A], [CHR 0x0B], [CHR 0x0C], [CHR 0x0D], [CHR 0x20],
      [CHR 0xC2, CHR 0x85], [CHR 0xC2, CHR 0xA0], [CHR 0xE1, CHR 0x9A, CHR 0x80],
      [CHR 0xE2, CHR 0x80, CHR 0x80], [CHR 0xE2, CHR 0x80, CHR 0x81],
      [CHR 0xE2, CHR 0x80, CHR 0x82], [CHR 0xE2, CHR 0x80, CHR 0x83],
      [CHR 0xE2, CHR 0x80, CHR 0x84], [CHR 0xE2, CHR 0x80, CHR 0x85],
      [CHR 0xE2, CHR 0x80, CHR 0x86], [CHR 0xE2, CHR 0x80, CHR 0x87],
      [CHR 0xE2, CHR 0x80, CHR 0x88], [CHR 0xE2, CHR 0x80, CHR 0x89],
      [CHR 0xE2, CHR 0x80, CHR 0x8A], [CHR 0xE2, CHR 0x80, CHR 0xA8],
      [CHR 0xE2, CHR 0x80, CHR 0xA9], [CHR 0xE2, CHR 0x80, CHR 0xAF],
      [CHR 0xE2, CHR 0x81, CHR 0x9F], [CHR 0xE3, CHR 0x80, CHR 0x80]]"

definition space_at :: "string list \<Rightarrow> string \<Rightarrow> nat" where
  "space_at encs s = (case find (\<lambda>w. HasPrefix s w) encs of None \<Rightarrow> 0 | Some w \<Rightarrow> length w)"

text \<open>Every white-space code point takes at least one byte, so stripping one makes progress.\<close>

function trim_front :: "string list \<Rightarrow> string \<Rightarrow> string" where
  "trim_front encs s =
     (let n = space_at encs s in if 0 < n \<and> n \<le> length s then trim_front encs (drop n s) else s)"
  by pat_completeness auto
termination
  by (relation "measure (\<lambda>(encs, s). length s)") auto

declare trim_front.simps [simp del]

definition TrimLeftSpace :: "string \<Rightarrow> string" where
  "TrimLeftSpace s = trim_front spaceEncodings s"

definition TrimRightSpace :: "string \<Rightarrow> string" where
  "TrimRightSpace s = rev (trim_front (map rev spaceEncodings) (rev s))"

definition TrimSpace :: "string \<Rightarrow> string" where
  "TrimSpace s = TrimRightSpace (TrimLeftSpace s)"

function fields_loop :: "string \<Rightarrow> string \<Rightarrow> string list" where
  "fields_loop s cur =
     (let n = space_at spaceEncodings s
      in if s = [] then (if cur = [] then [] else [rev cur])
         else if 0 < n then (if cur = [] then [] else [rev cur]) @ fields_loop (drop n s) []
         else fields_loop (tl s) (hd s # cur))"
  by pat_completeness auto
termination
  by (relation "measure (\<lambda>(s, cur). length s)") auto

declare fields_loop.simps [simp del]

definition Fields :: "string \<Rightarrow> string list" where
  "Fields s = fields_loop s []"

subsection \<open>Decimal numbers\<close>

definition digit_char :: "nat \<Rightarrow> char" where
  "digit_char d = char_of (48 + d)"

fun nat_digits :: "nat \<Rightarrow> string" where
  "nat_digits n = (if n < 10 then [digit_char n] else nat_digits (n div 10) @ [digit_char (n mod 10)])"

declare nat_digits.simps [simp del]

definition Itoa :: "int \<Rightarrow> string" where
  "Itoa n = (if n < 0 then CHR ''-'' # nat_digits (nat (- n)) else nat_digits (nat n))"

primrec digits_val :: "string \<Rightarrow> nat \<Rightarrow> nat" where
  "digits_val [] acc = acc"
| "digits_val (c # cs) acc = digits_val cs (10 * acc + (byte_of c - 48))"

definition int64_min :: int where "int64_min = - 9223372036854775808"
definition int64_max :: int where "int64_max = 9223372036854775807"

text \<open>
  \<^verbatim>\<open>strconv.Atoi\<close> and \<^verbatim>\<open>strconv.ParseInt(s, 10, 64)\<close>: an optional sign, then digits only, in
  the range of a 64-bit integer; \<open>None\<close> is their error.
\<close>

definition parse_sign :: "string \<Rightarrow> bool \<times> string" where
  "parse_sign s = (case s of
     [] \<Rightarrow> (False, [])
   | c # cs \<Rightarrow> if c = CHR ''-'' then (True, cs) else if c = CHR ''+'' then (False, cs) else (False, s))"

definition Atoi :: "string \<Rightarrow> int option" where
  "Atoi s =
     (let (neg, ds) = parse_sign s
      in if ds = [] \<or> \<not> list_all is_digit ds then None
         else let v = int (digits_val ds 0); n = (if neg then - v else v)
              in if int64_min \<le> n \<and> n \<le> int64_max then Some n else None)"

subsection \<open>Facts about slices and searches\<close>

lemma slice_length [simp]: "i \<le> j \<Longrightarrow> j \<le> length s \<Longrightarrow> length (slice s i j) = j - i"
  by (simp add: slice_def)

lemma slice_drop: "i \<le> j \<Longrightarrow> slice s i j @ drop j s = drop i s"
  unfolding slice_def by (metis append_take_drop_id drop_drop le_add_diff_inverse2)

lemma slice_Suc: "i < length s \<Longrightarrow> slice s i (Suc i) = [s ! i]"
  by (simp add: slice_def take_Suc_conv_app_nth hd_drop_conv_nth take_Suc)

lemma slice_join:
  assumes "i \<le> j" "j \<le> k"
  shows "slice s i j @ slice s j k = slice s i k"
proof -
  have "k - i = (j - i) + (k - j)" and "drop j s = drop (j - i) (drop i s)"
    using assms by simp_all
  then show ?thesis by (simp add: slice_def take_add)
qed

lemma slice_nth: "i + k < j \<Longrightarrow> j \<le> length s \<Longrightarrow> slice s i j ! k = s ! (i + k)"
  by (simp add: slice_def)

lemma slice_full [simp]: "slice s 0 (length s) = s"
  by (simp add: slice_def)

lemma slice_to_end: "slice s i (length s) = drop i s"
  by (simp add: slice_def)

lemma HasPrefix_iff_prefix: "HasPrefix s p \<longleftrightarrow> prefix p s"
  by (auto simp: HasPrefix_def prefix_def) (metis append_take_drop_id)

lemma HasPrefix_length: "HasPrefix s p \<Longrightarrow> length p \<le> length s"
  by (simp add: HasPrefix_iff_prefix prefix_length_le)

lemma Index_bound [lex_bounds]: "Index s sub = Some i \<Longrightarrow> i + length sub \<le> length s"
  by (induction s arbitrary: i) (auto split: if_splits dest: HasPrefix_length)

lemma Index_match: "Index s sub = Some i \<Longrightarrow> HasPrefix (drop i s) sub"
  by (induction s arbitrary: i) (auto simp: HasPrefix_def split: if_splits)

lemma Index_first: "Index s sub = Some i \<Longrightarrow> k < i \<Longrightarrow> \<not> HasPrefix (drop k s) sub"
proof (induction s arbitrary: i k)
  case Nil
  then show ?case by (auto split: if_splits)
next
  case (Cons c s)
  then show ?case by (cases k) (auto split: if_splits)
qed

lemma Index_None: "Index s sub = None \<Longrightarrow> \<not> HasPrefix (drop k s) sub"
proof (induction s arbitrary: k)
  case Nil
  then show ?case by (auto simp: HasPrefix_def split: if_splits)
next
  case (Cons c s)
  then show ?case by (cases k) (auto simp: HasPrefix_def split: if_splits)
qed

lemma Index_byte_simps [simp]:
  "Index [] [b] = None"
  "Index (c # s) [b] = (if c = b then Some 0 else map_option Suc (Index s [b]))"
  by (simp_all add: HasPrefix_def)

declare Index.simps(2) [simp del]

lemma Index_byte_Some:
  "Index s [b] = Some i \<Longrightarrow> i < length s \<and> s ! i = b \<and> b \<notin> set (take i s)"
  by (induction s arbitrary: i) (auto split: if_splits)

lemma Index_byte_None: "Index s [b] = None \<longleftrightarrow> b \<notin> set s"
  by (induction s) auto

lemma Contains_byte: "Contains s [b] \<longleftrightarrow> b \<in> set s"
  by (simp add: Contains_def Index_byte_None)

lemma not_Contains_no_match: "\<not> Contains s sub \<Longrightarrow> \<not> HasPrefix (drop k s) sub"
  by (auto simp: Contains_def dest: Index_None)

lemma nth_notin: "c \<notin> set s \<Longrightarrow> i < length s \<Longrightarrow> s ! i \<noteq> c"
  using nth_mem by metis

lemma drop_nth_Cons: "i < length s \<Longrightarrow> drop i s = s ! i # drop (Suc i) s"
  by (simp add: Cons_nth_drop_Suc)

lemma take_agree:
  assumes "take n s' = take n s" "n \<le> length s" "k < n"
  shows "s' ! k = s ! k" and "k < length s'"
proof -
  have "length (take n s') = n" using assms by simp
  then show "k < length s'" using assms(3) by simp
  show "s' ! k = s ! k" using assms by (metis nth_take)
qed

lemma ContainsAny_iff: "ContainsAny s cs \<longleftrightarrow> set s \<inter> set cs \<noteq> {}"
  by (auto simp: ContainsAny_def list_ex_iff)

subsection \<open>Printing a number and reading it back\<close>

lemma digit_char_digit: "d < 10 \<Longrightarrow> is_digit (digit_char d)"
  by (simp add: is_digit_def byte_in_def digit_char_def)

lemma nat_digits_digits: "list_all is_digit (nat_digits n)"
  by (induction n rule: nat_digits.induct) (subst nat_digits.simps, auto simp: digit_char_digit)

lemma nat_digits_not_Nil [simp]: "nat_digits n \<noteq> []"
  by (subst nat_digits.simps) simp

lemma digits_val_append: "digits_val (xs @ ys) a = digits_val ys (digits_val xs a)"
  by (induction xs arbitrary: a) auto

lemma digits_val_nat_digits: "digits_val (nat_digits n) 0 = n"
proof (induction n rule: nat_digits.induct)
  case (1 n)
  then show ?case
    by (subst nat_digits.simps) (auto simp: digits_val_append digit_char_def)
qed

lemma is_digit_not_sign: "is_digit c \<Longrightarrow> c \<noteq> CHR ''-'' \<and> c \<noteq> CHR ''+''"
  by (auto simp: is_digit_def byte_in_def)

lemma parse_sign_digits: "list_all is_digit s \<Longrightarrow> parse_sign s = (False, s)"
  by (cases s) (auto simp: parse_sign_def dest: is_digit_not_sign)

lemma Itoa_nat: "0 \<le> n \<Longrightarrow> Itoa n = nat_digits (nat n)"
  by (simp add: Itoa_def)

lemma Atoi_Itoa:
  assumes "int64_min \<le> n" "n \<le> int64_max"
  shows "Atoi (Itoa n) = Some n"
proof (cases "n < 0")
  case True
  then have "parse_sign (Itoa n) = (True, nat_digits (nat (- n)))"
    by (simp add: Itoa_def parse_sign_def)
  with True assms show ?thesis
    by (simp add: Atoi_def nat_digits_digits digits_val_nat_digits Let_def)
next
  case False
  with assms show ?thesis
    by (simp add: Atoi_def Itoa_nat nat_digits_digits digits_val_nat_digits parse_sign_digits Let_def)
qed

lemma Atoi_range: "Atoi s = Some n \<Longrightarrow> int64_min \<le> n \<and> n \<le> int64_max"
  by (auto simp: Atoi_def Let_def split: prod.splits if_splits)

end
