(* ===== verification/Sql_Lex.thy ===== *)
theory Sql_Lex
  imports Go_Prelude
begin

section \<open>The SQL lexer (sqllex.go)\<close>

text \<open>
  \<open>skipNonCode\<close> finds the end of the string literal, quoted identifier, comment or
  dollar-quoted body that starts at a position, following each dialect's quoting. Everything
  sequel rewrites in a statement (placeholders, virtual functions) is rewritten only where
  \<open>skipNonCode\<close> does not move.

  The loops run over positions, as the code's do. The lemmas give their bounds: from a
  position inside the statement the scanner never moves back and never past the end, and it
  moves forward exactly at the opening of a region. The last part shows that what the scanner
  answers on SQL Server depends only on the text ahead of it.
\<close>

definition isWordByte :: "char \<Rightarrow> bool" where
  "isWordByte b \<longleftrightarrow> b = CHR ''_'' \<or> is_lower b \<or> is_upper b \<or> is_digit b"

definition isIdentByte :: "char \<Rightarrow> bool" where
  "isIdentByte b \<longleftrightarrow> b = CHR ''_'' \<or> b = CHR ''$'' \<or> is_lower b \<or> is_upper b \<or> is_digit b"

definition mysqlish :: "string \<Rightarrow> bool" where
  "mysqlish driverName \<longleftrightarrow> driverName = ''mysql'' \<or> driverName = ''mariadb''"

definition pgish :: "string \<Rightarrow> bool" where
  "pgish driverName \<longleftrightarrow> driverName = ''pgx'' \<or> driverName = ''cockroachdb''"

function skipQuoted_loop :: "string \<Rightarrow> char \<Rightarrow> bool \<Rightarrow> nat \<Rightarrow> nat" where
  "skipQuoted_loop s q bs j =
     (if j < length s then
        if bs \<and> s ! j = backslash then skipQuoted_loop s q bs (j + 2)
        else if s ! j = q then
          if j + 1 < length s \<and> s ! (j + 1) = q then skipQuoted_loop s q bs (j + 2) else j + 1
        else skipQuoted_loop s q bs (j + 1)
      else length s)"
  by pat_completeness auto
termination
  by (relation "measure (\<lambda>(s, q, bs, j). length s - j)") auto

declare skipQuoted_loop.simps [simp del]

definition skipQuoted :: "string \<Rightarrow> nat \<Rightarrow> char \<Rightarrow> bool \<Rightarrow> nat" where
  "skipQuoted s i q bs = skipQuoted_loop s q bs (i + 1)"

text \<open>The bracket loop of \<open>skipNonCode\<close>: \<^verbatim>\<open>[...]\<close>, a closing bracket escaped by doubling it.\<close>

function skipBracket :: "string \<Rightarrow> nat \<Rightarrow> nat" where
  "skipBracket s j =
     (if j < length s then
        if s ! j = CHR '']'' then
          if j + 1 < length s \<and> s ! (j + 1) = CHR '']'' then skipBracket s (j + 2) else j + 1
        else skipBracket s (j + 1)
      else length s)"
  by pat_completeness auto
termination
  by (relation "measure (\<lambda>(s, j). length s - j)") auto

declare skipBracket.simps [simp del]

text \<open>The loop that reads a run of word bytes (a dollar-quote tag here, a function name in
  \<^verbatim>\<open>expandOnce\<close>): the first position from \<open>j\<close> on that is not one.\<close>

function wordEnd :: "string \<Rightarrow> nat \<Rightarrow> nat" where
  "wordEnd s j = (if j < length s \<and> isWordByte (s ! j) then wordEnd s (j + 1) else j)"
  by pat_completeness auto
termination
  by (relation "measure (\<lambda>(s, j). length s - j)") auto

declare wordEnd.simps [simp del]

text \<open>The dollar-quote case of \<open>skipNonCode\<close>, from the \<^verbatim>\<open>$\<close> at position \<open>i\<close>.\<close>

definition skipDollar :: "string \<Rightarrow> nat \<Rightarrow> nat" where
  "skipDollar s i =
     (if i + 1 < length s \<and> is_digit (s ! (i + 1)) then i
      else let j = wordEnd s (i + 1)
           in if j \<ge> length s \<or> s ! j \<noteq> CHR ''$'' then i
              else let tag = slice s i (j + 1)
                   in case Index (drop (j + 1) s) tag of
                        Some k \<Rightarrow> j + 1 + k + length tag
                      | None \<Rightarrow> length s)"

definition skipNonCode :: "string \<Rightarrow> string \<Rightarrow> nat \<Rightarrow> bool \<Rightarrow> nat" where
  "skipNonCode driverName s i dollarQuotes =
     (let ch = s ! i in
      if ch = quote1 then
        skipQuoted s i quote1
          (mysqlish driverName \<or>
           (pgish driverName \<and> i > 0 \<and> (s ! (i - 1) = CHR ''E'' \<or> s ! (i - 1) = CHR ''e'') \<and>
            (i = 1 \<or> \<not> isIdentByte (s ! (i - 2)))))
      else if ch = quote2 then skipQuoted s i quote2 (mysqlish driverName)
      else if ch = backtick \<and> (mysqlish driverName \<or> driverName = ''sqlite'') then
        skipQuoted s i backtick False
      else if ch = CHR ''['' \<and> (driverName = ''mssql'' \<or> driverName = ''sqlite'') then
        skipBracket s (i + 1)
      else if ch = CHR ''-'' \<and> HasPrefix (drop i s) ''--'' then
        (case IndexByte (drop i s) nl of Some j \<Rightarrow> i + j + 1 | None \<Rightarrow> length s)
      else if ch = CHR ''/'' \<and> HasPrefix (drop i s) ''/*'' then
        (case Index (drop (i + 2) s) ''*/'' of Some j \<Rightarrow> i + 2 + j + 2 | None \<Rightarrow> length s)
      else if ch = CHR ''$'' \<and> dollarQuotes \<and> pgish driverName \<and>
              (i = 0 \<or> \<not> isIdentByte (s ! (i - 1))) then
        skipDollar s i
      else i)"

subsection \<open>Bounds\<close>

lemma skipQuoted_loop_le: "skipQuoted_loop s q bs j \<le> length s"
  by (induction s q bs j rule: skipQuoted_loop.induct) (subst skipQuoted_loop.simps, simp)

lemma skipQuoted_loop_ge: "min j (length s) \<le> skipQuoted_loop s q bs j"
  by (induction s q bs j rule: skipQuoted_loop.induct) (subst skipQuoted_loop.simps, force)

lemma skipBracket_eq: "skipBracket s j = skipQuoted_loop s (CHR '']'') False j"
proof (induction s j rule: skipBracket.induct)
  case (1 s j)
  then show ?case
    by (simp add: skipBracket.simps [of s j] skipQuoted_loop.simps [of s _ _ j])
qed

lemma wordEnd_ge [simp]: "j \<le> wordEnd s j"
  by (induction s j rule: wordEnd.induct) (subst wordEnd.simps, auto)

lemma wordEnd_le [simp]: "j \<le> length s \<Longrightarrow> wordEnd s j \<le> length s"
  by (induction s j rule: wordEnd.induct) (subst wordEnd.simps, auto)

lemma wordEnd_word: "j \<le> k \<Longrightarrow> k < wordEnd s j \<Longrightarrow> isWordByte (s ! k)"
proof (induction s j rule: wordEnd.induct)
  case (1 s j)
  then show ?case
    by (cases "k = j") (auto simp: wordEnd.simps [of s j] split: if_splits)
qed

lemma wordEnd_stop: "wordEnd s j < length s \<Longrightarrow> \<not> isWordByte (s ! wordEnd s j)"
proof (induction s j rule: wordEnd.induct)
  case (1 s j)
  then show ?case
    by (cases "j < length s \<and> isWordByte (s ! j)") (auto simp: wordEnd.simps [of s j])
qed

lemma skipQuoted_bounds [lex_bounds]:
  "i < length s \<Longrightarrow> i < skipQuoted s i q bs \<and> skipQuoted s i q bs \<le> length s"
  using skipQuoted_loop_ge [of "i + 1" s q bs] by (simp add: skipQuoted_def skipQuoted_loop_le min_def)

lemma skipBracket_bounds [lex_bounds]:
  "i < length s \<Longrightarrow> i < skipBracket s (i + 1) \<and> skipBracket s (i + 1) \<le> length s"
  using skipQuoted_bounds [of i s "CHR '']''" False] by (simp add: skipBracket_eq skipQuoted_def)

lemma skipDollar_bounds [lex_bounds]:
  assumes "i < length s"
  shows "i \<le> skipDollar s i \<and> skipDollar s i \<le> length s"
proof -
  have "i < wordEnd s (i + 1)"
    using wordEnd_ge [of "i + 1" s] by linarith
  with assms show ?thesis
    by (auto simp: skipDollar_def Let_def slice_def dest!: Index_bound split: option.splits)
qed

lemma skipNonCode_bounds [lex_bounds]:
  assumes "i < length s"
  shows "i \<le> skipNonCode d s i dq \<and> skipNonCode d s i dq \<le> length s"
  using assms skipQuoted_bounds [OF assms] skipBracket_bounds [OF assms] skipDollar_bounds [OF assms]
  by (auto simp: skipNonCode_def IndexByte_def Let_def less_imp_le dest!: Index_bound
      split: option.split)

lemmas skipNonCode_ge = skipNonCode_bounds [THEN conjunct1]
lemmas skipNonCode_le = skipNonCode_bounds [THEN conjunct2]

subsection \<open>SQL Server: the scanner looks ahead only\<close>

text \<open>
  On SQL Server no case of \<open>skipNonCode\<close> looks behind the position, so its answer is a function
  of the text ahead. A region that ends before the end of the text ends at the same place when
  what follows it is replaced, provided the byte after it does not re-open it.
\<close>

lemma skipQuoted_loop_drop:
  "skipQuoted_loop s q bs (i + j) - i = skipQuoted_loop (drop i s) q bs j" if "i \<le> length s"
  using that
proof (induction "drop i s" q bs j rule: skipQuoted_loop.induct)
  case (1 q bs j)
  then show ?case
    by (subst (1 2) skipQuoted_loop.simps) (auto simp: less_diff_conv2 add.assoc add.commute [of _ i])
qed

lemma skipQuoted_loop_stop:
  "skipQuoted_loop s q bs j < length s \<Longrightarrow> s ! skipQuoted_loop s q bs j \<noteq> q"
proof (induction s q bs j rule: skipQuoted_loop.induct)
  case (1 s q bs j)
  from 1(4) show ?case
    using 1(1,2,3) by (auto simp: skipQuoted_loop.simps [of s q bs j] split: if_splits)
qed

lemma skipQuoted_loop_local:
  "skipQuoted_loop s q bs j = n \<Longrightarrow> n < length s \<Longrightarrow> take n s' = take n s \<Longrightarrow>
   (n < length s' \<longrightarrow> s' ! n \<noteq> q) \<Longrightarrow> skipQuoted_loop s' q bs j = n"
proof (induction s q bs j rule: skipQuoted_loop.induct)
  case (1 s q bs j)
  have j: "j < length s"
    using 1(4,5) by (auto simp: skipQuoted_loop.simps [of s q bs j] split: if_splits)
  have ge: "min k (length s) \<le> skipQuoted_loop s q bs k" for k by (rule skipQuoted_loop_ge)
  have "j < n"
    using 1(4,5) j ge [of "j + 1"] ge [of "j + 2"]
    by (auto simp: skipQuoted_loop.simps [of s q bs j] min_def split: if_splits)
  then have j': "j < length s'" "s' ! j = s ! j"
    using take_agree [OF 1(6)] 1(5) by auto
  have j1: "s' ! (j + 1) = s ! (j + 1) \<and> j + 1 < length s'" if "j + 1 < n"
    using take_agree [OF 1(6) _ that] 1(5) by auto
  show ?case
  proof (cases "bs \<and> s ! j = backslash")
    case True
    with 1 j j' show ?thesis by (simp add: skipQuoted_loop.simps [of _ _ _ j])
  next
    case False
    show ?thesis
    proof (cases "s ! j = q")
      case True
      show ?thesis
      proof (cases "j + 1 < length s \<and> s ! (j + 1) = q")
        case True
        then have "j + 1 < n"
          using 1(4,5) j False \<open>s ! j = q\<close> ge [of "j + 2"]
          by (auto simp: skipQuoted_loop.simps [of s q bs j])
        with 1 j j' j1 False True \<open>s ! j = q\<close> show ?thesis
          by (auto simp: skipQuoted_loop.simps [of _ _ _ j] split: if_splits)
      next
        case False
        with 1 j j' \<open>\<not> (bs \<and> s ! j = backslash)\<close> True show ?thesis
          by (auto simp: skipQuoted_loop.simps [of _ _ _ j])
      qed
    next
      case False
      with 1 j j' \<open>\<not> (bs \<and> s ! j = backslash)\<close> show ?thesis
        by (auto simp: skipQuoted_loop.simps [of _ _ _ j])
    qed
  qed
qed

lemma HasPrefix_2: "HasPrefix s [a, b] \<longleftrightarrow> (\<exists>r. s = a # b # r)"
  by (auto simp: HasPrefix_def) (metis append_Cons append_Nil append_take_drop_id)

lemma skipQuoted_drop: "i < length s \<Longrightarrow> skipQuoted s i q bs = i + skipQuoted (drop i s) 0 q bs"
  using skipQuoted_loop_drop [of i s q bs 1] skipQuoted_bounds [of i s q bs]
  by (simp add: skipQuoted_def) linarith

lemma skipBracket_drop: "i < length s \<Longrightarrow> skipBracket s (i + 1) = i + skipBracket (drop i s) 1"
  using skipQuoted_drop [of i s "CHR '']''" False] by (simp add: skipBracket_eq skipQuoted_def)

text \<open>The scanner on SQL Server at the start of a text.\<close>

definition scan_ms :: "string \<Rightarrow> nat" where
  "scan_ms s = (if s = [] then 0 else skipNonCode ''mssql'' s 0 True)"

lemma mssql_not_others [simp]: "\<not> mysqlish ''mssql''" "\<not> pgish ''mssql''"
  by (simp_all add: mysqlish_def pgish_def)

lemma skipNonCode_mssql: "i < length s \<Longrightarrow> skipNonCode ''mssql'' s i True = i + scan_ms (drop i s)"
  using skipBracket_drop [of i s]
  by (simp add: scan_ms_def skipNonCode_def Let_def skipQuoted_drop [of i s] add.commute [of _ i]
      split: option.split)

text \<open>A statement changed after its first region only: what may follow it, byte for byte.\<close>

definition follows_like :: "string \<Rightarrow> string \<Rightarrow> bool" where
  "follows_like u v \<longleftrightarrow> (u = [] \<longleftrightarrow> v = []) \<and>
     (u \<noteq> [] \<longrightarrow> hd v = hd u \<or> (hd u = CHR ''?'' \<and> hd v = CHR ''$''))"

lemma scan_ms_quoted:
  assumes "0 < length s" "n = skipQuoted s 0 q bs" "follows_like (drop n s) v" "q \<noteq> CHR ''$''"
  shows "skipQuoted (take n s @ v) 0 q bs = n"
proof (cases "n < length s")
  case True
  then have "v \<noteq> []" "hd v = s ! n \<or> hd v = CHR ''$''"
    using assms(3) by (auto simp: follows_like_def hd_drop_conv_nth)
  moreover have "s ! n \<noteq> q"
    using skipQuoted_loop_stop [of s q bs 1] True assms(2) by (simp add: skipQuoted_def)
  ultimately show ?thesis
    using skipQuoted_loop_local [of s q bs 1 n "take n s @ v"] True assms
    by (auto simp: skipQuoted_def nth_append hd_conv_nth)
next
  case False
  then have "n = length s" using skipQuoted_bounds [OF assms(1)] assms(2) by (simp add: le_antisym)
  with assms show ?thesis by (simp add: follows_like_def)
qed

lemma scan_ms_bracket:
  assumes "0 < length s" "n = skipBracket s 1" "follows_like (drop n s) v"
  shows "skipBracket (take n s @ v) 1 = n"
  using scan_ms_quoted [of s n "CHR '']''" False v] assms by (simp add: skipBracket_eq skipQuoted_def)

lemma Index_append_found:
  "Index s sub = Some k \<Longrightarrow> k + length sub \<le> length u \<Longrightarrow> prefix u s \<Longrightarrow> Index (u @ v) sub = Some k"
proof (induction s arbitrary: k u)
  case Nil
  then show ?case by (cases "sub = []"; cases v) (auto simp: HasPrefix_def Index.simps(2))
next
  case (Cons c s)
  show ?case
  proof (cases "HasPrefix (c # s) sub")
    case True
    then have "HasPrefix (u @ v) sub"
      using Cons.prems(2,3) by (auto simp: HasPrefix_iff_prefix)
         (meson prefix_length_prefix prefix_prefix le_trans le_add2)
    with True Cons.prems(1) show ?thesis by (cases "u @ v") (auto simp: Index.simps(2) HasPrefix_def)
  next
    case False
    then obtain k' where k': "Index s sub = Some k'" "k = Suc k'"
      using Cons.prems(1) by (auto simp: Index.simps(2))
    then obtain u' where u': "u = c # u'" "prefix u' s"
      using Cons.prems(2,3) by (cases u) auto
    have "length sub \<le> length u" using Cons.prems(2) by simp
    then have "\<not> HasPrefix (u @ v) sub"
      using False Cons.prems(3) prefix_length_prefix [of sub "u @ v" u] prefix_order.trans
      by (auto simp: HasPrefix_iff_prefix)
    then show ?thesis using Cons.IH [of k' u'] Cons.prems(2) k' u' by (simp add: Index.simps(2))
  qed
qed

lemma scan_ms_local:
  assumes "s \<noteq> []" "n = scan_ms s" "0 < n" "follows_like (drop n s) v"
  shows "scan_ms (take n s @ v) = n"
proof (cases "n < length s")
  case False
  with assms show ?thesis by (simp add: follows_like_def)
next
  case True
  let ?t = "take n s @ v"
  have l: "0 < length s" and h: "?t ! 0 = s ! 0" "?t \<noteq> []"
    using assms(1,3) True by (auto simp: nth_append)
  consider (q1) "s ! 0 = quote1" | (q2) "s ! 0 = quote2" | (br) "s ! 0 = CHR ''[''"
    | (line) "s ! 0 = CHR ''-''" "HasPrefix s ''--''" | (blk) "s ! 0 = CHR ''/''" "HasPrefix s ''/*''"
    | (none) "n = 0"
    using assms(1,2) by (auto simp: scan_ms_def skipNonCode_def Let_def split: if_splits)
  then show ?thesis
  proof cases
    case q1
    then show ?thesis
      using assms h scan_ms_quoted [OF l _ assms(4), of quote1 False]
      by (simp add: scan_ms_def skipNonCode_def Let_def)
  next
    case q2
    then show ?thesis
      using assms h scan_ms_quoted [OF l _ assms(4), of quote2 False]
      by (simp add: scan_ms_def skipNonCode_def Let_def)
  next
    case br
    then show ?thesis
      using assms h scan_ms_bracket [OF l _ assms(4)]
      by (simp add: scan_ms_def skipNonCode_def Let_def)
  next
    case line
    then obtain j where j: "Index s [nl] = Some j" "n = j + 1"
      using assms(1,2) True by (auto simp: scan_ms_def skipNonCode_def Let_def IndexByte_def split: option.splits)
    from line obtain r where r: "s = CHR ''-'' # CHR ''-'' # r" by (auto simp: HasPrefix_2)
    then have "Index ?t [nl] = Some j" and "n \<ge> 2"
      using Index_append_found [OF j(1), of "take n s" v] True j by (auto simp: take_is_prefix split: if_splits)
    then have "HasPrefix ?t ''--''" by (auto simp: r HasPrefix_def take_Cons' )
    then show ?thesis
      using \<open>Index ?t [nl] = Some j\<close> h line(1) j
      by (simp add: scan_ms_def skipNonCode_def Let_def IndexByte_def)
  next
    case blk
    then obtain j where j: "Index (drop 2 s) ''*/'' = Some j" "n = j + 4"
      using assms(1,2) True
      by (auto simp: scan_ms_def skipNonCode_def Let_def numeral_2_eq_2 split: option.splits)
    from blk obtain r where r: "s = CHR ''/'' # CHR ''*'' # r" by (auto simp: HasPrefix_2)
    have "drop 2 ?t = take (n - 2) (drop 2 s) @ v"
      using j True by (simp add: drop_take)
    then have "Index (drop 2 ?t) ''*/'' = Some j"
      using Index_append_found [OF j(1), of "take (n - 2) (drop 2 s)" v] True j by (simp add: take_is_prefix)
    moreover have "HasPrefix ?t ''/*''" using j by (auto simp: r HasPrefix_def take_Cons')
    ultimately show ?thesis
      using h blk(1) j
      by (simp add: scan_ms_def skipNonCode_def Let_def del: add_2_eq_Suc add_2_eq_Suc')
  next
    case none
    with assms show ?thesis by simp
  qed
qed

lemma region_nonempty [simp]: "skipQuoted (c # s) 0 q bs \<noteq> 0" "skipBracket (c # s) (Suc 0) \<noteq> 0"
  using skipQuoted_bounds [of 0 "c # s" q bs] skipBracket_bounds [of 0 "c # s"] by auto

lemma scan_ms_code_local:
  assumes "scan_ms (c # s) = 0" "follows_like s v"
  shows "scan_ms (c # v) = 0"
  using assms
  by (cases s; cases v)
     (auto simp: scan_ms_def skipNonCode_def Let_def HasPrefix_def follows_like_def
        split: if_splits option.splits)

end
