(* ===== verification/Placeholders.thy ===== *)
theory Placeholders
  imports Sql_Lex
begin

section \<open>Argument placeholders (db.go, conformPlaceholders)\<close>

text \<open>
  \<open>conformPlaceholders\<close> turns the \<^verbatim>\<open>?\<close> placeholders of a statement into \<^verbatim>\<open>$1\<close>, \<^verbatim>\<open>$2\<close>, \<dots> for
  PostgreSQL, CockroachDB and SQL Server. The code has a fast path for statements in which
  nothing can hide a \<^verbatim>\<open>?\<close>, and a slow path that asks the lexer at every position.

  The specification is a decomposition of the statement into pieces: verbatim text and
  marks, the marks being the question marks outside every region the lexer skips. Numbering
  the marks from 1 gives the output; writing each mark back as \<^verbatim>\<open>?\<close> gives the input. The
  theorems are that both paths meet this specification, and that on SQL Server, where sequel
  numbers before it expands virtual functions and re-checks afterwards, numbering a numbered
  statement changes nothing.
\<close>

definition numbers_placeholders :: "string \<Rightarrow> bool" where
  "numbers_placeholders driverName \<longleftrightarrow>
     driverName = ''pgx'' \<or> driverName = ''cockroachdb'' \<or> driverName = ''mssql''"

text \<open>The loop of the fast path over the rest of the statement.\<close>

function conform_fast :: "string \<Rightarrow> nat \<Rightarrow> string" where
  "conform_fast stmt argIndex =
     (case Index stmt ''?'' of
        None \<Rightarrow> stmt
      | Some i \<Rightarrow> take i stmt @ ''$'' @ Itoa (int argIndex) @ conform_fast (drop (i + 1) stmt) (argIndex + 1))"
  by pat_completeness auto
termination
  by (relation "measure (\<lambda>(stmt, n). length stmt)") (auto dest: Index_byte_Some)

declare conform_fast.simps [simp del]

text \<open>The loop of the slow path from position \<open>i\<close>. The region case moves to \<open>min j (length stmt)\<close>
  only to be total off the statement; within it \<open>j\<close> is at most its length.\<close>

function conform_slow :: "string \<Rightarrow> string \<Rightarrow> nat \<Rightarrow> nat \<Rightarrow> string" where
  "conform_slow d stmt i argIndex =
     (if i < length stmt then
        let j = skipNonCode d stmt i True in
        if j > i then slice stmt i j @ conform_slow d stmt j argIndex
        else if stmt ! i = CHR ''?'' then
          ''$'' @ Itoa (int argIndex) @ conform_slow d stmt (i + 1) (argIndex + 1)
        else stmt ! i # conform_slow d stmt (i + 1) argIndex
      else [])"
  by pat_completeness auto
termination
  by (relation "measure (\<lambda>(d, stmt, i, n). length stmt - i)") (auto dest: diff_less_mono2)

declare conform_slow.simps [simp del]

definition conformPlaceholders :: "string \<Rightarrow> string \<Rightarrow> string" where
  "conformPlaceholders driverName stmt =
     (if driverName \<noteq> ''pgx'' \<and> driverName \<noteq> ''cockroachdb'' \<and> driverName \<noteq> ''mssql'' then stmt
      else if CountByte stmt (CHR ''?'') = 0 then stmt
      else if \<not> ContainsAny stmt [quote1, quote2, CHR ''['', CHR ''$''] \<and>
              \<not> Contains stmt ''--'' \<and> \<not> Contains stmt ''/*'' then conform_fast stmt 1
      else conform_slow driverName stmt 0 1)"

subsection \<open>Specification: pieces\<close>

datatype piece = Verbatim string | Mark

function pieces :: "string \<Rightarrow> string \<Rightarrow> nat \<Rightarrow> piece list" where
  "pieces d s i =
     (if i < length s then
        let j = skipNonCode d s i True in
        if j > i then Verbatim (slice s i j) # pieces d s j
        else (if s ! i = CHR ''?'' then Mark else Verbatim [s ! i]) # pieces d s (i + 1)
      else [])"
  by pat_completeness auto
termination
  by (relation "measure (\<lambda>(d, s, i). length s - i)") (auto dest: diff_less_mono2)

declare pieces.simps [simp del]

primrec number_pieces :: "piece list \<Rightarrow> nat \<Rightarrow> string" where
  "number_pieces [] n = []"
| "number_pieces (p # ps) n = (case p of
     Verbatim w \<Rightarrow> w @ number_pieces ps n
   | Mark \<Rightarrow> ''$'' @ Itoa (int n) @ number_pieces ps (n + 1))"

primrec source_of :: "piece list \<Rightarrow> string" where
  "source_of [] = []"
| "source_of (p # ps) = (case p of Verbatim w \<Rightarrow> w | Mark \<Rightarrow> ''?'') @ source_of ps"

lemma conform_slow_pieces: "conform_slow d s i n = number_pieces (pieces d s i) n"
proof (induction d s i n rule: conform_slow.induct)
  case (1 d s i n)
  then show ?case
    by (simp add: conform_slow.simps [of d s i] pieces.simps [of d s i] Let_def)
qed

lemma source_of_pieces: "i \<le> length s \<Longrightarrow> source_of (pieces d s i) = drop i s"
proof (induction d s i rule: pieces.induct)
  case (1 d s i)
  show ?case
  proof (cases "i < length s")
    case True
    note b = skipNonCode_bounds [OF True, of d True]
    show ?thesis
      using True b 1
      by (cases "i < skipNonCode d s i True")
         (simp_all add: pieces.simps [of d s i] Let_def slice_drop drop_nth_Cons)
  next
    case False
    then show ?thesis using 1 by (simp add: pieces.simps)
  qed
qed

subsection \<open>The fast path\<close>

lemma conform_fast_append:
  assumes "CHR ''?'' \<notin> set u"
  shows "conform_fast (u @ v) n = u @ conform_fast v n"
proof -
  have "Index (u @ v) ''?'' = (case Index v ''?'' of None \<Rightarrow> None | Some k \<Rightarrow> Some (length u + k))"
    using assms by (induction u) (auto split: option.split)
  then show ?thesis
    by (subst (1 2) conform_fast.simps) (auto split: option.split)
qed

lemma conform_fast_simps [simp]:
  "conform_fast [] n = []"
  "conform_fast (CHR ''?'' # v) n = ''$'' @ Itoa (int n) @ conform_fast v (n + 1)"
  "c \<noteq> CHR ''?'' \<Longrightarrow> conform_fast (c # v) n = c # conform_fast v n"
  using conform_fast_append [of "[c]" v n] by (simp_all add: conform_fast.simps)

text \<open>Where nothing a \<^verbatim>\<open>?\<close> could hide in occurs, the lexer never moves on these drivers.\<close>

definition nothing_hides :: "string \<Rightarrow> bool" where
  "nothing_hides s \<longleftrightarrow> \<not> ContainsAny s [quote1, quote2, CHR ''['', CHR ''$''] \<and>
     \<not> Contains s ''--'' \<and> \<not> Contains s ''/*''"

lemma skipNonCode_nothing_hides:
  assumes "nothing_hides s" "numbers_placeholders d" "i < length s"
  shows "skipNonCode d s i True = i"
proof -
  have "s ! i \<notin> {quote1, quote2, CHR ''['', CHR ''$''}"
    using assms(1,3) by (auto simp: nothing_hides_def ContainsAny_iff nth_notin)
  moreover have "\<not> HasPrefix (drop i s) ''--''" "\<not> HasPrefix (drop i s) ''/*''"
    using assms(1) by (auto simp: nothing_hides_def not_Contains_no_match)
  ultimately show ?thesis
    using assms(2) by (auto simp: skipNonCode_def Let_def numbers_placeholders_def mysqlish_def)
qed

lemma conform_slow_fast:
  assumes "nothing_hides s" "numbers_placeholders d"
  shows "i \<le> length s \<Longrightarrow> conform_slow d s i n = conform_fast (drop i s) n"
proof (induction "length s - i" arbitrary: i n)
  case 0
  then show ?case by (simp add: conform_slow.simps)
next
  case (Suc k)
  then have i: "i < length s" by simp
  then have d: "drop i s = s ! i # drop (i + 1) s" by (simp add: drop_nth_Cons)
  have IH: "conform_slow d s (i + 1) m = conform_fast (drop (i + 1) s) m" for m
    using Suc.hyps(2) i by (intro Suc.hyps(1)) auto
  show ?case
    using i IH skipNonCode_nothing_hides [OF assms i]
    by (subst conform_slow.simps, subst d) (simp add: Let_def)
qed

lemma conform_slow_no_marks:
  "CHR ''?'' \<notin> set s \<Longrightarrow> i \<le> length s \<Longrightarrow> conform_slow d s i n = drop i s"
proof (induction d s i n rule: conform_slow.induct)
  case (1 d s i n)
  show ?case
  proof (cases "i < length s")
    case True
    note b = skipNonCode_bounds [OF True, of d True]
    show ?thesis
      using True b 1
      by (cases "i < skipNonCode d s i True")
         (simp_all add: conform_slow.simps [of d s i] Let_def slice_drop drop_nth_Cons nth_notin)
  next
    case False
    then show ?thesis using 1 by (simp add: conform_slow.simps)
  qed
qed

lemma CountByte_0: "CountByte s b = 0 \<longleftrightarrow> b \<notin> set s"
  by (induction s) (auto simp: CountByte_def)

lemma conformPlaceholders_slow:
  "conformPlaceholders d s = (if numbers_placeholders d then conform_slow d s 0 1 else s)"
proof (cases "numbers_placeholders d")
  case True
  consider "CountByte s (CHR ''?'') = 0" | "CountByte s (CHR ''?'') \<noteq> 0" "nothing_hides s"
    | "CountByte s (CHR ''?'') \<noteq> 0" "\<not> nothing_hides s" by blast
  then show ?thesis
  proof cases
    case 1
    then have "conform_slow d s 0 1 = s"
      using conform_slow_no_marks [of s 0 d 1] by (simp add: CountByte_0)
    with 1 True show ?thesis by (simp add: conformPlaceholders_def)
  next
    case 2
    then have "conform_slow d s 0 1 = conform_fast s 1"
      using conform_slow_fast [OF _ True, of s 0 1] by simp
    with 2 True show ?thesis
      by (auto simp: conformPlaceholders_def numbers_placeholders_def nothing_hides_def)
  next
    case 3
    with True show ?thesis
      by (auto simp: conformPlaceholders_def numbers_placeholders_def nothing_hides_def)
  qed
qed (simp add: conformPlaceholders_def numbers_placeholders_def)

subsection \<open>SQL Server: numbering twice\<close>

text \<open>
  The scanner looks ahead only on SQL Server, so there the slow path is a recursion on the
  text. Numbering replaces a \<^verbatim>\<open>?\<close> by \<^verbatim>\<open>$\<close> and digits, none of which opens, closes or re-opens
  a region, so the regions of the numbered text are those of the original.
\<close>

lemma scan_ms_le: "scan_ms s \<le> length s"
  using skipNonCode_bounds [of 0 s "''mssql''" True] by (cases s) (auto simp: scan_ms_def)

function conform_ms :: "string \<Rightarrow> nat \<Rightarrow> string" where
  "conform_ms s n =
     (if s = [] then []
      else let k = scan_ms s in
        if k > 0 then take k s @ conform_ms (drop k s) n
        else if hd s = CHR ''?'' then ''$'' @ Itoa (int n) @ conform_ms (tl s) (n + 1)
        else hd s # conform_ms (tl s) n)"
  by pat_completeness auto
termination
  by (relation "measure (\<lambda>(s, n). length s)") auto

declare conform_ms.simps [simp del]

lemma conform_slow_ms: "i \<le> length s \<Longrightarrow> conform_slow ''mssql'' s i n = conform_ms (drop i s) n"
proof (induction "''mssql''" s i n rule: conform_slow.induct)
  case (1 s i n)
  show ?case
  proof (cases "i < length s")
    case True
    have k: "skipNonCode ''mssql'' s i True = i + scan_ms (drop i s)"
      by (rule skipNonCode_mssql [OF True])
    have "i + scan_ms (drop i s) \<le> length s"
      using scan_ms_le [of "drop i s"] True by simp
    then show ?thesis
      using 1 True k
      by (cases "scan_ms (drop i s) > 0")
         (simp_all add: conform_slow.simps [of _ s i] conform_ms.simps [of "drop i s"] slice_def
            hd_drop_conv_nth drop_Suc [symmetric] tl_drop Let_def add.commute)
  qed (simp add: conform_slow.simps conform_ms.simps)
qed

lemma conform_ms_follows: "follows_like s (conform_ms s n)"
proof (cases s)
  case Nil
  then show ?thesis by (simp add: follows_like_def conform_ms.simps)
next
  case (Cons c r)
  then show ?thesis
    by (auto simp: follows_like_def conform_ms.simps [of "c # r"] Let_def take_Cons')
qed

lemma conform_ms_code_byte:
  assumes "is_digit c \<or> c = CHR ''$''"
  shows "conform_ms (c # s) n = c # conform_ms s n"
proof -
  have "c \<noteq> CHR ''?''" "c \<noteq> quote1" "c \<noteq> quote2" "c \<noteq> CHR ''[''" "c \<noteq> CHR ''-''" "c \<noteq> CHR ''/''"
    using assms by (auto simp: is_digit_def byte_in_def)
  then have "scan_ms (c # s) = 0" by (simp add: scan_ms_def skipNonCode_def)
  with \<open>c \<noteq> CHR ''?''\<close> show ?thesis by (simp add: conform_ms.simps [of "c # s"])
qed

lemma conform_ms_digits: "list_all is_digit ds \<Longrightarrow> conform_ms (ds @ s) n = ds @ conform_ms s n"
  by (induction ds) (auto simp: conform_ms_code_byte)

lemma conform_ms_number: "conform_ms (''$'' @ Itoa (int k) @ s) n = ''$'' @ Itoa (int k) @ conform_ms s n"
  by (simp add: conform_ms_code_byte Itoa_def conform_ms_digits nat_digits_digits)

lemma conform_ms_idem: "conform_ms (conform_ms s n) m = conform_ms s n"
proof (induction s n arbitrary: m rule: conform_ms.induct)
  case (1 s n)
  show ?case
  proof (cases "s = []")
    case True
    then show ?thesis by (simp add: conform_ms.simps)
  next
    case ne: False
    show ?thesis
    proof (cases "scan_ms s > 0")
      case True
      let ?k = "scan_ms s" and ?v = "conform_ms (drop (scan_ms s) s) n"
      have eq: "conform_ms s n = take ?k s @ ?v"
        using ne True by (simp add: conform_ms.simps [of s] Let_def)
      have "scan_ms (take ?k s @ ?v) = ?k"
        using ne True by (intro scan_ms_local) (auto simp: conform_ms_follows)
      then have "conform_ms (take ?k s @ ?v) m = take ?k s @ conform_ms ?v m"
        using True ne scan_ms_le [of s] by (subst conform_ms.simps) (simp add: Let_def)
      with eq 1(1) [OF ne refl True] show ?thesis by simp
    next
      case zero: False
      obtain c r where s: "s = c # r" using ne by (cases s) auto
      show ?thesis
      proof (cases "c = CHR ''?''")
        case True
        then have "conform_ms s n = ''$'' @ Itoa (int n) @ conform_ms r (n + 1)"
          using zero s by (subst conform_ms.simps) (simp add: Let_def)
        with 1(2) [OF ne refl zero] True s conform_ms_number [of n] show ?thesis by simp
      next
        case False
        then have eq: "conform_ms s n = c # conform_ms r n"
          using zero s by (subst conform_ms.simps) (simp add: Let_def)
        have "scan_ms (c # conform_ms r n) = 0"
          using zero s by (intro scan_ms_code_local [OF _ conform_ms_follows]) auto
        with eq 1(3) [OF ne refl zero] False s show ?thesis
          by (simp add: conform_ms.simps [of "c # conform_ms r n"])
      qed
    qed
  qed
qed

lemma conformPlaceholders_mssql: "conformPlaceholders ''mssql'' s = conform_ms s 1"
  using conform_slow_ms [of 0 s 1] by (simp add: conformPlaceholders_slow numbers_placeholders_def)

subsection \<open>Properties\<close>

text \<open>
  (C4) On the drivers that number placeholders, \<open>conformPlaceholders\<close> numbers the
  marks of the statement from 1, in order, and copies everything else, whichever of its three
  paths it takes: the early return when there is no \<^verbatim>\<open>?\<close>, the fast path, and the slow path.
  The pieces it is computed from spell the statement out: writing each mark as \<^verbatim>\<open>?\<close> gives it
  back, so no byte is lost, moved or changed but the marks. On every other driver the
  statement is returned as it is.
\<close>

theorem conformPlaceholders_spec:
  "conformPlaceholders d s =
     (if numbers_placeholders d then number_pieces (pieces d s 0) 1 else s)
   \<and> source_of (pieces d s 0) = s"
  using source_of_pieces [of 0 s d] by (simp add: conformPlaceholders_slow conform_slow_pieces)

text \<open>
  On SQL Server a statement whose placeholders are numbered is left alone when
  it is numbered again. This is what the check in \<^verbatim>\<open>newPreparedQuery\<close> rests on: after expanding
  the virtual functions of a numbered statement it numbers the result once more, and takes any
  change as a placeholder a virtual function introduced.
\<close>

theorem conformPlaceholders_mssql_idem:
  "conformPlaceholders ''mssql'' (conformPlaceholders ''mssql'' s) = conformPlaceholders ''mssql'' s"
  by (simp add: conformPlaceholders_mssql conform_ms_idem)

end
