(* ===== verification/Errors.thy ===== *)
theory Errors
  imports Go_Prelude
begin

section \<open>Errors and their classification (db.go)\<close>

text \<open>
  A Go error is a chain: each wrapper unwraps to the error inside it. The constructors are the
  errors the code makes or tells apart: the \<^verbatim>\<open>database/sql\<close> sentinels, the two context errors,
  the native error types of the four drivers with the fields the code reads, and an error made
  from a message. \<open>Traced\<close> stands for \<^verbatim>\<open>errors.Trace\<close> of the errors package, whose wrapper keeps
  \<^verbatim>\<open>Unwrap\<close>; \<open>Wrapped\<close> for any other wrapper with a message. Wrapping is a free constructor:
  nothing is assumed of a wrapper but that \<^verbatim>\<open>errors.Is\<close> and \<^verbatim>\<open>errors.As\<close> see through it.

  What \<^verbatim>\<open>err.Error()\<close> prints is the drivers' business; it is the argument \<open>msg\<close> of the
  classifiers that fall back to it.
\<close>

datatype error =
    ErrNoRows | ErrTxDone | ErrConnDone
  | Canceled | DeadlineExceeded
  | PgError string string string \<comment> \<open>code, routine, message\<close>
  | MySQLError nat
  | MssqlError int
  | SqliteError int
  | NewError string
  | Traced error
  | Wrapped string error

primrec chain :: "error \<Rightarrow> error list" where
  "chain ErrNoRows = [ErrNoRows]"
| "chain ErrTxDone = [ErrTxDone]"
| "chain ErrConnDone = [ErrConnDone]"
| "chain Canceled = [Canceled]"
| "chain DeadlineExceeded = [DeadlineExceeded]"
| "chain (PgError c r m) = [PgError c r m]"
| "chain (MySQLError n) = [MySQLError n]"
| "chain (MssqlError n) = [MssqlError n]"
| "chain (SqliteError n) = [SqliteError n]"
| "chain (NewError m) = [NewError m]"
| "chain (Traced e) = Traced e # chain e"
| "chain (Wrapped m e) = Wrapped m e # chain e"

text \<open>\<^verbatim>\<open>errors.Is(err, target)\<close> and \<^verbatim>\<open>errors.As\<close> for each driver type.\<close>

definition errors_Is :: "error \<Rightarrow> error \<Rightarrow> bool" where
  "errors_Is e target \<longleftrightarrow> target \<in> set (chain e)"

definition first_of :: "(error \<Rightarrow> 'a option) \<Rightarrow> error \<Rightarrow> 'a option" where
  "first_of f e = (case List.map_filter f (chain e) of [] \<Rightarrow> None | x # _ \<Rightarrow> Some x)"

definition As_PgError :: "error \<Rightarrow> (string \<times> string \<times> string) option" where
  "As_PgError = first_of (\<lambda>e. case e of PgError c r m \<Rightarrow> Some (c, r, m) | _ \<Rightarrow> None)"

definition As_MySQLError :: "error \<Rightarrow> nat option" where
  "As_MySQLError = first_of (\<lambda>e. case e of MySQLError n \<Rightarrow> Some n | _ \<Rightarrow> None)"

definition As_MssqlError :: "error \<Rightarrow> int option" where
  "As_MssqlError = first_of (\<lambda>e. case e of MssqlError n \<Rightarrow> Some n | _ \<Rightarrow> None)"

definition As_SqliteError :: "error \<Rightarrow> int option" where
  "As_SqliteError = first_of (\<lambda>e. case e of SqliteError n \<Rightarrow> Some n | _ \<Rightarrow> None)"

definition isLockContentionMessage :: "string \<Rightarrow> bool" where
  "isLockContentionMessage m \<longleftrightarrow>
     Contains m ''SQLITE_BUSY'' \<or> Contains m ''database is locked'' \<or>
     Contains m ''SQLITE_LOCKED'' \<or> Contains m ''database table is locked'' \<or>
     Contains m ''database is deadlocked'' \<or>
     Contains m ''Deadlock found'' \<or> Contains m ''Lock wait timeout'' \<or>
     Contains m ''deadlock detected'' \<or>
     Contains m ''deadlock victim'' \<or> Contains m ''was deadlocked'' \<or>
     Contains m ''Lock request time out'' \<or>
     Contains m ''restart transaction'' \<or> Contains m ''RETRY_SERIALIZABLE'' \<or>
     Contains m ''RETRY_WRITE_TOO_OLD''"

text \<open>\<^verbatim>\<open>nil\<close> is \<open>None\<close>. The low byte of SQLite's result code is \<open>take_bit 8\<close>.\<close>

definition IsLockContentionError :: "(error \<Rightarrow> string) \<Rightarrow> error option \<Rightarrow> bool" where
  "IsLockContentionError msg err =
     (case err of None \<Rightarrow> False
      | Some e \<Rightarrow>
        (case As_PgError e of Some (code, _, _) \<Rightarrow> code = ''40P01'' \<or> code = ''40001''
         | None \<Rightarrow>
        (case As_MySQLError e of Some n \<Rightarrow> n = 1213 \<or> n = 1205
         | None \<Rightarrow>
        (case As_MssqlError e of Some n \<Rightarrow> n = 1205 \<or> n = 1222
         | None \<Rightarrow>
        (case As_SqliteError e of Some n \<Rightarrow> take_bit 8 n = 5 \<or> take_bit 8 n = 6
         | None \<Rightarrow> isLockContentionMessage (msg e))))))"

definition isFromClauseEntryMessage :: "string \<Rightarrow> bool" where
  "isFromClauseEntryMessage m \<longleftrightarrow> Contains m ''FROM-clause entry'' \<or> Contains m ''no data source matches''"

definition columnResolutionRoutines :: "string list" where
  "columnResolutionRoutines = [''errorMissingRTE'', ''ResolveColumnItem'', ''ResolveAllColumnsSelector'']"

definition isUndefinedTableMessage :: "string \<Rightarrow> bool" where
  "isUndefinedTableMessage m =
     (if isFromClauseEntryMessage m then False
      else if Contains m ''no such table'' then True
      else if Contains m ''Error 1146'' then True
      else if Contains m ''SQLSTATE 42P01'' then True
      else if Contains m ''Invalid object name'' then True
      else False)"

definition IsUndefinedTableError :: "(error \<Rightarrow> string) \<Rightarrow> error option \<Rightarrow> bool" where
  "IsUndefinedTableError msg err =
     (case err of None \<Rightarrow> False
      | Some e \<Rightarrow>
        (case As_PgError e of
           Some (code, routine, m) \<Rightarrow>
             code = ''42P01'' \<and> routine \<notin> set columnResolutionRoutines \<and> \<not> isFromClauseEntryMessage m
         | None \<Rightarrow>
        (case As_MySQLError e of Some n \<Rightarrow> n = 1146
         | None \<Rightarrow>
        (case As_MssqlError e of Some n \<Rightarrow> n = 208
         | None \<Rightarrow> isUndefinedTableMessage (msg e)))))"

definition isDuplicateKeyError :: "string \<Rightarrow> error \<Rightarrow> bool" where
  "isDuplicateKeyError driverName e \<longleftrightarrow>
     driverName = ''mssql'' \<and>
     (case As_MssqlError e of Some n \<Rightarrow> n = 2627 \<or> n = 2601 | None \<Rightarrow> False)"

definition traceErr :: "error option \<Rightarrow> error option" where
  "traceErr err =
     (case err of None \<Rightarrow> None
      | Some e \<Rightarrow> if e = ErrNoRows \<or> e = ErrTxDone then Some e else Some (Traced e))"

text \<open>\<^verbatim>\<open>errors.Trace(err)\<close>, which answers \<^verbatim>\<open>nil\<close> for \<^verbatim>\<open>nil\<close>.\<close>

definition Trace :: "error option \<Rightarrow> error option" where
  "Trace err = map_option Traced err"

subsection \<open>Wrapping does not change what an error is\<close>

lemmas as_defs = As_PgError_def As_MySQLError_def As_MssqlError_def As_SqliteError_def

lemma first_of_Traced: "f (Traced e) = None \<Longrightarrow> first_of f (Traced e) = first_of f e"
  by (simp add: first_of_def)

lemma first_of_Wrapped: "f (Wrapped m e) = None \<Longrightarrow> first_of f (Wrapped m e) = first_of f e"
  by (simp add: first_of_def)

lemma As_wrapped [simp]:
  "As_PgError (Traced e) = As_PgError e" "As_PgError (Wrapped m e) = As_PgError e"
  "As_MySQLError (Traced e) = As_MySQLError e" "As_MySQLError (Wrapped m e) = As_MySQLError e"
  "As_MssqlError (Traced e) = As_MssqlError e" "As_MssqlError (Wrapped m e) = As_MssqlError e"
  "As_SqliteError (Traced e) = As_SqliteError e" "As_SqliteError (Wrapped m e) = As_SqliteError e"
  by (simp_all add: as_defs first_of_Traced first_of_Wrapped)

lemma lock_contention_Traced:
  "msg (Traced e) = msg e \<Longrightarrow> IsLockContentionError msg (Some (Traced e)) = IsLockContentionError msg (Some e)"
  by (simp add: IsLockContentionError_def split: option.split)

lemma traceErr_lock_contention:
  "(\<And>e. msg (Traced e) = msg e) \<Longrightarrow>
   IsLockContentionError msg (traceErr err) = IsLockContentionError msg err"
  by (auto simp: traceErr_def lock_contention_Traced split: option.split)

lemma traceErr_nil [simp]: "traceErr None = None"
  by (simp add: traceErr_def)

lemma traceErr_None_iff [simp]: "traceErr err = None \<longleftrightarrow> err = None"
  by (auto simp: traceErr_def split: option.splits)

lemma Trace_None_iff [simp]: "Trace err = None \<longleftrightarrow> err = None"
  by (simp add: Trace_def)

subsection \<open>Properties\<close>

text \<open>What is under the wrappers of an error.\<close>

primrec root_error :: "error \<Rightarrow> error" where
  "root_error ErrNoRows = ErrNoRows"
| "root_error ErrTxDone = ErrTxDone"
| "root_error ErrConnDone = ErrConnDone"
| "root_error Canceled = Canceled"
| "root_error DeadlineExceeded = DeadlineExceeded"
| "root_error (PgError c r m) = PgError c r m"
| "root_error (MySQLError n) = MySQLError n"
| "root_error (MssqlError n) = MssqlError n"
| "root_error (SqliteError n) = SqliteError n"
| "root_error (NewError m) = NewError m"
| "root_error (Traced e) = root_error e"
| "root_error (Wrapped m e) = root_error e"

lemma As_root:
  "As_PgError e = (case root_error e of PgError c r m \<Rightarrow> Some (c, r, m) | _ \<Rightarrow> None)"
  "As_MySQLError e = (case root_error e of MySQLError n \<Rightarrow> Some n | _ \<Rightarrow> None)"
  "As_MssqlError e = (case root_error e of MssqlError n \<Rightarrow> Some n | _ \<Rightarrow> None)"
  "As_SqliteError e = (case root_error e of SqliteError n \<Rightarrow> Some n | _ \<Rightarrow> None)"
  by (induction e) (simp_all, simp_all add: as_defs first_of_def)

lemma low_byte: "take_bit 8 n = n mod 256" for n :: int
  by (simp add: take_bit_eq_mod)

text \<open>
  (C20) An error that carries a driver's native type, under any number of wrappers, is classified by its code
  alone. It is lock contention exactly for 40P01 and 40001 on PostgreSQL and CockroachDB, 1213 and 1205 on MySQL
  and MariaDB, 1205 and 1222 on SQL Server, and the primary codes 5 and 6 (the result code modulo 256) on
  SQLite. No message has a say in it, neither what the error prints nor the one the server sent: a duplicate
  key whose value reads ``restart transaction'' is not lock contention. Only an error of no native type is told
  by what it prints.
\<close>

theorem typed_error_classified_by_code:
  "IsLockContentionError msg (Some e) =
     (case root_error e of
        PgError code routine m \<Rightarrow> code \<in> {''40P01'', ''40001''}
      | MySQLError n \<Rightarrow> n \<in> {1213, 1205}
      | MssqlError n \<Rightarrow> n \<in> {1205, 1222}
      | SqliteError n \<Rightarrow> n mod 256 \<in> {5, 6}
      | _ \<Rightarrow> isLockContentionMessage (msg e))"
  by (cases "root_error e") (simp_all add: IsLockContentionError_def As_root low_byte)

theorem typed_error_classified_by_code_witness:
  "\<not> IsLockContentionError (\<lambda>_. ''restart transaction'')
       (Some (Traced (PgError ''23505'' ''check_unique'' ''restart transaction''))) \<and>
   IsLockContentionError (\<lambda>_. []) (Some (Wrapped ''insert'' (Traced (SqliteError 517))))"
  unfolding typed_error_classified_by_code by simp

text \<open>
  (C40) \<open>traceErr\<close> returns nil and the two \<^verbatim>\<open>database/sql\<close> sentinels as they are, so
  that \<^verbatim>\<open>==\<close> keeps working on them, and wraps everything else without changing what it is:
  \<^verbatim>\<open>errors.Is\<close> answers the same for every target that is not itself a traced error, and so
  do \<open>IsLockContentionError\<close> and \<open>IsUndefinedTableError\<close>, when a trace keeps the message, and
  \<open>isDuplicateKeyError\<close>.
\<close>

theorem traceErr_transparent:
  assumes "\<And>x. target \<noteq> Traced x" "\<And>x. msg (Traced x) = msg x"
  shows "(traceErr err = err \<longleftrightarrow> err \<in> {None, Some ErrNoRows, Some ErrTxDone}) \<and>
    (\<exists>e. err = Some e \<and> errors_Is e target) = (\<exists>e. traceErr err = Some e \<and> errors_Is e target) \<and>
    IsLockContentionError msg (traceErr err) = IsLockContentionError msg err \<and>
    IsUndefinedTableError msg (traceErr err) = IsUndefinedTableError msg err \<and>
    (\<exists>e. err = Some e \<and> isDuplicateKeyError driverName e) = (\<exists>e. traceErr err = Some e \<and> isDuplicateKeyError driverName e)"
proof (intro conjI)
  have ne: "Traced e \<noteq> e" for e :: error by (induction e) auto
  show "traceErr err = err \<longleftrightarrow> err \<in> {None, Some ErrNoRows, Some ErrTxDone}"
    by (cases err) (auto simp: traceErr_def ne)
  show "(\<exists>e. err = Some e \<and> errors_Is e target) = (\<exists>e. traceErr err = Some e \<and> errors_Is e target)"
    using assms(1) by (cases err) (auto simp: traceErr_def errors_Is_def)
  show "IsLockContentionError msg (traceErr err) = IsLockContentionError msg err"
    using assms(2) by (rule traceErr_lock_contention)
  show "IsUndefinedTableError msg (traceErr err) = IsUndefinedTableError msg err"
    using assms(2) by (cases err) (simp_all add: traceErr_def IsUndefinedTableError_def split: option.split)
  show "(\<exists>e. err = Some e \<and> isDuplicateKeyError driverName e) = (\<exists>e. traceErr err = Some e \<and> isDuplicateKeyError driverName e)"
    by (cases err) (simp_all add: traceErr_def isDuplicateKeyError_def)
qed

theorem traceErr_transparent_witness:
  "traceErr (Some Canceled) \<noteq> Some Canceled \<and>
   (\<exists>e. traceErr (Some Canceled) = Some e \<and> errors_Is e Canceled)"
  using traceErr_transparent [of Canceled "\<lambda>_. []" "Some Canceled"] by (simp add: errors_Is_def)

end
