(* ===== verification/Virtual_Funcs.thy ===== *)
theory Virtual_Funcs
  imports Sql_Lex Errors
begin

section \<open>Virtual functions (vf.go)\<close>

text \<open>
  Virtual functions are calls in the statement text that sequel replaces by the driver's own
  expression. The registry maps an upper-cased name to a handler; a handler gets the driver
  name and the text between the parentheses and answers the replacement or an error.

  \<open>expandOnce\<close> is one left-to-right scan with the code's own state: the builder \<open>b\<close>, the copy
  position \<open>lst\<close> (the code's \<^verbatim>\<open>last\<close>), the scan position \<open>i\<close> and the flag \<open>changed\<close>. \<open>expandVirtualFuncs\<close> repeats it
  until nothing changes. A handler may answer a call to itself, so the loop may not end; the
  function is partial and not returning is \<open>None\<close>.

  Besides a value and an error, Go code can panic. The outcome type has all three, because one
  built-in handler slices its argument at a position found in another string.
\<close>

datatype 'a outcome = Ok 'a | Err error | Panic

type_synonym handler = "string \<Rightarrow> string \<Rightarrow> string outcome"
type_synonym registry = "string \<Rightarrow> handler option"

subsection \<open>Scanning arguments\<close>

text \<open>The loop that skips to a closing quote: the first \<open>ch\<close> from \<open>i\<close> on, or the end.\<close>

function scanTo :: "string \<Rightarrow> char \<Rightarrow> nat \<Rightarrow> nat" where
  "scanTo s ch i = (if i < length s \<and> s ! i \<noteq> ch then scanTo s ch (i + 1) else i)"
  by pat_completeness auto
termination
  by (relation "measure (\<lambda>(s, ch, i). length s - i)") auto

declare scanTo.simps [simp del]

lemma scanTo_ge [simp]: "i \<le> scanTo s ch i"
  by (induction s ch i rule: scanTo.induct) (subst scanTo.simps, auto)

lemma scanTo_ge' [termination_simp]: "i < length s \<Longrightarrow> length s - Suc (scanTo s ch (Suc i)) < length s - i"
  using scanTo_ge [of "Suc i" s ch] by linarith

function findBalancedClose_loop :: "string \<Rightarrow> nat \<Rightarrow> nat \<Rightarrow> nat option" where
  "findBalancedClose_loop s i depth =
     (if i < length s then
        let ch = s ! i in
        if ch = quote1 \<or> ch = quote2 then findBalancedClose_loop s (scanTo s ch (i + 1) + 1) depth
        else if ch = CHR ''('' then findBalancedClose_loop s (i + 1) (depth + 1)
        else if ch = CHR '')'' then
          if depth - 1 = 0 then Some i else findBalancedClose_loop s (i + 1) (depth - 1)
        else findBalancedClose_loop s (i + 1) depth
      else None)"
  by pat_completeness auto
termination
  by (relation "measure (\<lambda>(s, i, depth). length s - i)") (auto simp: scanTo_ge')

declare findBalancedClose_loop.simps [simp del]

definition findBalancedClose :: "string \<Rightarrow> nat \<Rightarrow> nat option" where
  "findBalancedClose s start = findBalancedClose_loop s start 1"

function lastTopLevelComma_loop :: "string \<Rightarrow> nat \<Rightarrow> int \<Rightarrow> nat option \<Rightarrow> nat option" where
  "lastTopLevelComma_loop s i depth lastComma =
     (if i < length s then
        let ch = s ! i in
        if ch = quote1 \<or> ch = quote2 then
          lastTopLevelComma_loop s (scanTo s ch (i + 1) + 1) depth lastComma
        else if ch = CHR ''('' then lastTopLevelComma_loop s (i + 1) (depth + 1) lastComma
        else if ch = CHR '')'' then lastTopLevelComma_loop s (i + 1) (depth - 1) lastComma
        else if ch = CHR '','' \<and> depth = 0 then lastTopLevelComma_loop s (i + 1) depth (Some i)
        else lastTopLevelComma_loop s (i + 1) depth lastComma
      else lastComma)"
  by pat_completeness auto
termination
  by (relation "measure (\<lambda>(s, i, depth, l). length s - i)") (auto simp: scanTo_ge')

declare lastTopLevelComma_loop.simps [simp del]

definition lastTopLevelComma :: "string \<Rightarrow> nat option" where
  "lastTopLevelComma s = lastTopLevelComma_loop s 0 0 None"

text \<open>Splitting at the last top-level comma, as four of the handlers do first.\<close>

definition splitArgs :: "string \<Rightarrow> (string \<times> string) option" where
  "splitArgs args = (case lastTopLevelComma args of
     None \<Rightarrow> None
   | Some k \<Rightarrow> Some (TrimSpace (take k args), TrimSpace (drop (k + 1) args)))"

definition sq :: "string \<Rightarrow> string" where
  "sq w = [quote1] @ w @ [quote1]"

definition unsupported :: "string \<Rightarrow> 'a outcome" where
  "unsupported driverName = Err (NewError (''unsupported driver name: '' @ driverName))"

subsection \<open>NOW_UTC\<close>

definition nowUTCPrecision :: "string \<Rightarrow> int outcome" where
  "nowUTCPrecision args =
     (let a = TrimSpace args in
      if a = [] then Ok 3
      else case Atoi a of
        None \<Rightarrow> Err (NewError ''NOW_UTC requires syntax: NOW_UTC() or NOW_UTC(p), p a literal from 0 to 6'')
      | Some p \<Rightarrow>
          if p < 0 \<or> p > 6
          then Err (NewError ''NOW_UTC requires syntax: NOW_UTC() or NOW_UTC(p), p a literal from 0 to 6'')
          else Ok p)"

definition halfMicros :: "int \<Rightarrow> string" where
  "halfMicros p = ''5'' @ Repeat ''0'' (nat (5 - p))"

definition halfNanos :: "int \<Rightarrow> string" where
  "halfNanos p = ''5'' @ Repeat ''0'' (nat (8 - p))"

definition strftime_now :: string where
  "strftime_now = ''STRFTIME('' @ sq ''%Y-%m-%d %H:%M:%f'' @ '', '' @ sq ''now'' @ '')''"

definition vfNowUTC :: handler where
  "vfNowUTC driverName args =
     (case nowUTCPrecision args of
        Err e \<Rightarrow> Err (Traced e)
      | Panic \<Rightarrow> Panic
      | Ok p \<Rightarrow>
        let ps = Itoa p in
        if driverName = ''mysql'' \<or> driverName = ''mariadb'' then
          Ok (''(UTC_TIMESTAMP('' @ ps @ ''))'')
        else if driverName = ''pgx'' \<or> driverName = ''cockroachdb'' then
          if p = 6 then Ok (''(NOW() AT TIME ZONE '' @ sq ''UTC'' @ '')'')
          else Ok (''(CAST((NOW() AT TIME ZONE '' @ sq ''UTC'' @ '') - INTERVAL '' @
                   sq (halfMicros p @ '' microseconds'') @ '' AS TIMESTAMP('' @ ps @ '')))'')
        else if driverName = ''mssql'' then
          Ok (''(CONVERT(DATETIME2('' @ ps @ ''), DATEADD(NANOSECOND, -'' @ halfNanos p @ '', SYSUTCDATETIME())))'')
        else if driverName = ''sqlite'' then
          if p \<ge> 3 then Ok (''('' @ strftime_now @ '')'')
          else Ok (''(SUBSTR('' @ strftime_now @ '', 1, '' @ Itoa (20 + p) @ '') || '' @
                   sq (take (nat (3 - p)) ''000'') @ '')'')
        else unsupported driverName)"

subsection \<open>REGEXP_TEXT_SEARCH\<close>

text \<open>
  The position of \<^verbatim>\<open> IN \<close> is found in the upper-cased arguments and used to slice the arguments
  as given. On ASCII the two have the same length; the slices \<^verbatim>\<open>args[:i]\<close> and \<^verbatim>\<open>args[i+4:]\<close>
  panic where the position lies past the end.
\<close>

definition concatColumns :: "string list \<Rightarrow> string" where
  "concatColumns columns =
     (if length columns = 1 then hd columns
      else if length columns > 1 then ''CONCAT_WS('' @ sq '' '' @ '','' @ Join columns '','' @ '')''
      else [quote1, quote1])"

definition vfRegexpTextSearch :: "(string \<Rightarrow> string) \<Rightarrow> handler" where
  "vfRegexpTextSearch uni driverName args =
     (case Index (ToUpper uni args) '' IN '' of
        None \<Rightarrow> Err (NewError ''REGEXP_TEXT_SEARCH requires syntax: REGEXP_TEXT_SEARCH(expr IN col1, col2, ...)'')
      | Some i \<Rightarrow>
        if i + 4 > length args then Panic
        else
          let searchExpr = TrimSpace (take i args);
              columns = filter (\<lambda>col. col \<noteq> []) (map TrimSpace (Split (drop (i + 4) args) '',''));
              concatenated = concatColumns columns in
          if driverName = ''mysql'' \<or> driverName = ''mariadb'' then
            Ok (''('' @ concatenated @ '' REGEXP '' @ searchExpr @ '')'')
          else if driverName = ''pgx'' \<or> driverName = ''cockroachdb'' then
            Ok (''REGEXP_LIKE('' @ concatenated @ '', '' @ searchExpr @ '', '' @ sq ''i'' @ '')'')
          else if driverName = ''mssql'' then
            Ok (''REGEXP_LIKE('' @ concatenated @ '', '' @ searchExpr @ '', '' @ sq ''i'' @ '')'')
          else if driverName = ''sqlite'' then
            Ok (''('' @ concatenated @ '' LIKE ('' @ sq ''%'' @ '' || '' @ searchExpr @ '' || '' @ sq ''%'' @ ''))'')
          else unsupported driverName)"

subsection \<open>DATE_ADD_MILLIS and DATE_DIFF_MILLIS\<close>

definition isCoarseNowUTC :: "string \<Rightarrow> bool" where
  "isCoarseNowUTC expr0 =
     (let name = ''NOW_UTC(''; expr = TrimSpace expr0 in
      if length expr < length name \<or> \<not> EqualFoldASCII (take (length name) expr) name \<or>
         findBalancedClose expr (length name) \<noteq> Some (length expr - 1) then False
      else case nowUTCPrecision (slice expr (length name) (length expr - 1)) of
             Ok p \<Rightarrow> p < 3
           | _ \<Rightarrow> False)"

text \<open>Go's \<^verbatim>\<open>/\<close> and \<^verbatim>\<open>%\<close> on integers truncate towards zero.\<close>

definition go_div :: "int \<Rightarrow> int \<Rightarrow> int" where
  "go_div a b = sgn a * sgn b * (\<bar>a\<bar> div \<bar>b\<bar>)"

definition go_mod :: "int \<Rightarrow> int \<Rightarrow> int" where
  "go_mod a b = a - b * go_div a b"

definition mssqlDateAddMillis :: "string \<Rightarrow> string \<Rightarrow> string" where
  "mssqlDateAddMillis baseExpr0 millis =
     (let baseExpr = (if isCoarseNowUTC baseExpr0 then ''CAST('' @ baseExpr0 @ '' AS DATETIME2(7))'' else baseExpr0) in
      case Atoi millis of
        Some n \<Rightarrow>
          if n > -3600000 \<and> n < 3600000 then
            ''DATEADD(MILLISECOND, '' @ millis @ '', '' @ baseExpr @ '')''
          else
            ''DATEADD(MILLISECOND, '' @ Itoa (go_mod n 3600000) @
            '', DATEADD(HOUR, '' @ Itoa (go_div n 3600000) @ '', '' @ baseExpr @ ''))''
      | None \<Rightarrow>
          let ms = ''CAST('' @ millis @ '' AS BIGINT)'' in
          ''DATEADD(MILLISECOND, '' @ ms @ '' % 3600000, DATEADD(HOUR, '' @ ms @ '' / 3600000, '' @ baseExpr @ ''))'')"

definition vfDateAddMillis :: handler where
  "vfDateAddMillis driverName args =
     (let bad = Err (NewError ''DATE_ADD_MILLIS requires syntax: DATE_ADD_MILLIS(baseExpr, milliseconds)'') in
      case splitArgs args of
        None \<Rightarrow> bad
      | Some (baseExpr, millis) \<Rightarrow>
        if baseExpr = [] \<or> millis = [] then bad
        else if driverName = ''mysql'' \<or> driverName = ''mariadb'' then
          Ok (''DATE_ADD('' @ baseExpr @ '', INTERVAL ('' @ millis @ '') * 1000 MICROSECOND)'')
        else if driverName = ''pgx'' then
          Ok (''('' @ baseExpr @ '' + MAKE_INTERVAL(secs => ('' @ millis @ '') / 1000.0))'')
        else if driverName = ''cockroachdb'' then
          Ok (''('' @ baseExpr @ '' + CAST(('' @ millis @ '') AS FLOAT8) * INTERVAL '' @ sq ''1 millisecond'' @ '')'')
        else if driverName = ''mssql'' then Ok (mssqlDateAddMillis baseExpr millis)
        else if driverName = ''sqlite'' then
          Ok (''(STRFTIME('' @ sq ''%Y-%m-%d %H:%M:%f'' @ '', '' @ baseExpr @ '', (('' @ millis @
              '') / 1000.0) || '' @ sq '' seconds'' @ ''))'')
        else unsupported driverName)"

definition vfDateDiffMillis :: handler where
  "vfDateDiffMillis driverName args =
     (let bad = Err (NewError ''DATE_DIFF_MILLIS requires syntax: DATE_DIFF_MILLIS(a, b)'') in
      case splitArgs args of
        None \<Rightarrow> bad
      | Some (a, b) \<Rightarrow>
        if a = [] \<or> b = [] then bad
        else if driverName = ''mysql'' \<or> driverName = ''mariadb'' then
          Ok (''(-TIMESTAMPDIFF(MICROSECOND, '' @ a @ '', '' @ b @ '') / 1000.0)'')
        else if driverName = ''pgx'' \<or> driverName = ''cockroachdb'' then
          Ok (''(EXTRACT(EPOCH FROM ('' @ a @ '' - '' @ b @ '')) * 1000.0)'')
        else if driverName = ''mssql'' then
          Ok (''DATEDIFF_BIG(MILLISECOND, '' @ b @ '', '' @ a @ '')'')
        else if driverName = ''sqlite'' then
          Ok (''((JULIANDAY('' @ a @ '') - JULIANDAY('' @ b @ '')) * 86400000.0)'')
        else unsupported driverName)"

subsection \<open>JSON_FIELD\<close>

definition isIdentifier :: "string \<Rightarrow> bool" where
  "isIdentifier s \<longleftrightarrow> (case s of [] \<Rightarrow> False
     | c # cs \<Rightarrow> (is_upper c \<or> is_lower c \<or> c = CHR ''_'') \<and> list_all isWordByte cs)"

text \<open>\<^verbatim>\<open>jsonPathElem\<close>: a member name (index -1) or an array index.\<close>

record jsonPathElem =
  elem_name :: string
  elem_index :: int

abbreviation jmember :: "string \<Rightarrow> jsonPathElem" where
  "jmember n \<equiv> \<lparr>elem_name = n, elem_index = -1\<rparr>"

abbreviation jindex :: "int \<Rightarrow> jsonPathElem" where
  "jindex n \<equiv> \<lparr>elem_name = [], elem_index = n\<rparr>"

function parseJSONPath_loop :: "string \<Rightarrow> string \<Rightarrow> jsonPathElem list \<Rightarrow> jsonPathElem list outcome" where
  "parseJSONPath_loop path rest0 elems =
     (case rest0 of
        [] \<Rightarrow> Ok elems
      | c # rest \<Rightarrow>
        if c = CHR ''.'' then
          let end = (case IndexAny rest ''.['' of None \<Rightarrow> length rest | Some k \<Rightarrow> k);
              name = take end rest in
          if \<not> isIdentifier name
          then Err (NewError (''JSON_FIELD path member must match [A-Za-z_][A-Za-z0-9_]*: '' @ path))
          else parseJSONPath_loop path (drop end rest) (elems @ [jmember name])
        else if c = CHR ''['' then
          (case IndexByte rest0 (CHR '']'') of
             None \<Rightarrow> Err (NewError (''JSON_FIELD path has an unclosed '' @ sq ''['' @ '': '' @ path))
           | Some end \<Rightarrow>
             (case Atoi (slice rest0 1 end) of
                None \<Rightarrow> Err (NewError (''JSON_FIELD path index must be a non-negative integer: '' @ path))
              | Some n \<Rightarrow>
                if n < 0 then Err (NewError (''JSON_FIELD path index must be a non-negative integer: '' @ path))
                else parseJSONPath_loop path (drop (end + 1) rest0) (elems @ [jindex n])))
        else Err (NewError (''JSON_FIELD path is malformed: '' @ path)))"
  by pat_completeness auto
termination
  by (relation "measure (\<lambda>(path, rest, elems). length rest)") auto

declare parseJSONPath_loop.simps [simp del]

definition parseJSONPath :: "string \<Rightarrow> jsonPathElem list outcome" where
  "parseJSONPath path =
     (let r = TrimPrefix path ''$'';
          rest = (if r \<noteq> [] \<and> hd r \<noteq> CHR ''.'' \<and> hd r \<noteq> CHR ''['' then ''.'' @ r else r) in
      case parseJSONPath_loop path rest [] of
        Ok elems \<Rightarrow>
          if elems = []
          then Err (NewError (''JSON_FIELD path must name at least one field, e.g. '' @ sq ''$.name'' @ '' or '' @
                              sq ''name'' @ '': '' @ path))
          else Ok elems
      | Err e \<Rightarrow> Err e
      | Panic \<Rightarrow> Panic)"

definition renderElem :: "jsonPathElem \<Rightarrow> string" where
  "renderElem e = (if elem_index e \<ge> 0 then ''['' @ Itoa (elem_index e) @ '']'' else ''.'' @ elem_name e)"

definition renderJSONPath :: "jsonPathElem list \<Rightarrow> string" where
  "renderJSONPath elems = ''$'' @ concat (map renderElem elems)"

definition jsonKey :: "jsonPathElem \<Rightarrow> string" where
  "jsonKey e = [quote2] @ (if elem_index e \<ge> 0 then Itoa (elem_index e) else elem_name e) @ [quote2]"

definition vfJSONField :: handler where
  "vfJSONField driverName args =
     (case lastTopLevelComma args of
        None \<Rightarrow> Err (NewError (''JSON_FIELD requires syntax: JSON_FIELD(column, '' @ sq ''$.path'' @ '')''))
      | Some comma \<Rightarrow>
        let col = TrimSpace (take comma args); pathLit = TrimSpace (drop (comma + 1) args) in
        if col = [] \<or> length pathLit < 2 \<or> hd pathLit \<noteq> quote1 \<or> last pathLit \<noteq> quote1
        then Err (NewError (''JSON_FIELD requires a literal path: JSON_FIELD(column, '' @ sq ''$.path'' @ '')''))
        else
          case parseJSONPath (slice pathLit 1 (length pathLit - 1)) of
            Err e \<Rightarrow> Err (Traced e)
          | Panic \<Rightarrow> Panic
          | Ok elems \<Rightarrow>
            let p = sq (renderJSONPath elems) in
            if driverName = ''mysql'' \<or> driverName = ''mariadb'' then
              let extract = ''JSON_EXTRACT('' @ col @ '', '' @ p @ '')'' in
              Ok (''(CASE WHEN JSON_TYPE('' @ extract @ '') = '' @ sq ''NULL'' @
                  '' THEN NULL ELSE JSON_UNQUOTE('' @ extract @ '') END)'')
            else if driverName = ''pgx'' \<or> driverName = ''cockroachdb'' then
              Ok (''(('' @ col @ '')::jsonb #>> '' @ sq (''{'' @ Join (map jsonKey elems) '','' @ ''}'') @ '')'')
            else if driverName = ''mssql'' then
              Ok (''(COALESCE(JSON_QUERY('' @ col @ '', '' @ p @ ''), JSON_VALUE('' @ col @ '', '' @ p @ '')))'')
            else if driverName = ''sqlite'' then
              Ok (''(JSON_EXTRACT('' @ col @ '', '' @ p @ ''))'')
            else unsupported driverName)"

subsection \<open>LIMIT_OFFSET\<close>

definition vfLimitOffset :: handler where
  "vfLimitOffset driverName args =
     (let bad = Err (NewError ''LIMIT_OFFSET requires syntax: LIMIT_OFFSET(limit, offset)'') in
      case splitArgs args of
        None \<Rightarrow> bad
      | Some (limit, offset) \<Rightarrow>
        if limit = [] \<or> offset = [] then bad
        else if driverName = ''mysql'' \<or> driverName = ''mariadb'' \<or> driverName = ''pgx'' \<or>
                driverName = ''cockroachdb'' \<or> driverName = ''sqlite'' then
          Ok (''LIMIT '' @ limit @ '' OFFSET '' @ offset)
        else if driverName = ''mssql'' then
          Ok (''OFFSET '' @ offset @ '' ROWS FETCH NEXT '' @ limit @ '' ROWS ONLY'')
        else unsupported driverName)"

subsection \<open>The registry\<close>

definition builtin_funcs :: "(string \<Rightarrow> string) \<Rightarrow> registry" where
  "builtin_funcs uni = map_of
     [(''NOW_UTC'', vfNowUTC), (''REGEXP_TEXT_SEARCH'', vfRegexpTextSearch uni),
      (''DATE_ADD_MILLIS'', vfDateAddMillis), (''DATE_DIFF_MILLIS'', vfDateDiffMillis),
      (''LIMIT_OFFSET'', vfLimitOffset), (''JSON_FIELD'', vfJSONField)]"

definition registerVirtualFunc :: "(string \<Rightarrow> string) \<Rightarrow> string \<Rightarrow> handler \<Rightarrow> registry \<Rightarrow> registry" where
  "registerVirtualFunc uni name h old = old(ToUpper uni name \<mapsto> h)"

definition unregisterVirtualFunc :: "(string \<Rightarrow> string) \<Rightarrow> string \<Rightarrow> registry \<Rightarrow> registry" where
  "unregisterVirtualFunc uni name old = old(ToUpper uni name := None)"

subsection \<open>Expansion\<close>

text \<open>The body of the scan at an identifier \<open>query[i:j]\<close>: the next position when it is not an
  expandable call, or the handler and the position of the closing parenthesis. The name is a run
  of ASCII word bytes, so upper-casing it is bytewise.\<close>

definition call_at :: "registry \<Rightarrow> string \<Rightarrow> nat \<Rightarrow> nat \<Rightarrow> nat + handler \<times> nat" where
  "call_at vfs query i j =
     (if j \<ge> length query \<or> query ! j \<noteq> CHR ''('' then Inl j
      else case vfs (map upper_byte (slice query i j)) of
        None \<Rightarrow> Inl (j + 1)
      | Some h \<Rightarrow>
        (case findBalancedClose query (j + 1) of
           None \<Rightarrow> Inl (j + 1)
         | Some closePos \<Rightarrow> Inr (h, closePos)))"

definition starts_word :: "string \<Rightarrow> nat \<Rightarrow> bool" where
  "starts_word query i \<longleftrightarrow>
     isWordByte (query ! i) \<and> \<not> is_digit (query ! i) \<and> \<not> (i > 0 \<and> isIdentByte (query ! (i - 1)))"

lemma findBalancedClose_loop_bounds:
  "findBalancedClose_loop s i depth = Some p \<Longrightarrow> i \<le> p \<and> p < length s \<and> s ! p = CHR '')''"
proof (induction s i depth rule: findBalancedClose_loop.induct)
  case (1 s i depth)
  have ge: "i < Suc (scanTo s (s ! i) (Suc i))" using scanTo_ge [of "Suc i" s "s ! i"] by linarith
  from 1(5) show ?case
    using 1(1) [OF _ refl] 1(2,3,4) ge
    by (fastforce simp: findBalancedClose_loop.simps [of s i depth] Let_def split: if_splits)
qed

lemma findBalancedClose_bounds [lex_bounds]:
  "findBalancedClose s i = Some p \<Longrightarrow> i \<le> p \<and> p < length s \<and> s ! p = CHR '')''"
  by (auto simp: findBalancedClose_def dest: findBalancedClose_loop_bounds)

lemma wordEnd_starts: "i < length s \<Longrightarrow> starts_word s i \<Longrightarrow> i < wordEnd s i"
  by (simp add: starts_word_def wordEnd.simps [of s i] Suc_le_lessD [OF wordEnd_ge])

lemma call_at_Inl: "i < length s \<Longrightarrow> starts_word s i \<Longrightarrow> call_at vfs s i (wordEnd s i) = Inl k \<Longrightarrow> i < k"
  using wordEnd_starts [of i s] by (auto simp: call_at_def split: if_splits option.splits)

lemma call_at_Inr:
  "i < length s \<Longrightarrow> starts_word s i \<Longrightarrow> call_at vfs s i (wordEnd s i) = Inr (h, p) \<Longrightarrow>
   wordEnd s i < p \<and> p < length s \<and> s ! p = CHR '')'' \<and> s ! wordEnd s i = CHR ''('' \<and>
   vfs (map upper_byte (slice s i (wordEnd s i))) = Some h"
  by (auto simp: call_at_def split: if_splits option.splits dest!: findBalancedClose_bounds)

lemma call_at_progress:
  "i < length s \<Longrightarrow> starts_word s i \<Longrightarrow> call_at vfs s i (wordEnd s i) = Inr (h, p) \<Longrightarrow>
   length s - Suc p < length s - i"
  using wordEnd_starts [of i s] call_at_Inr [of i s vfs h p] by linarith

function expandOnce_loop ::
  "string \<Rightarrow> string \<Rightarrow> registry \<Rightarrow> string \<Rightarrow> nat \<Rightarrow> nat \<Rightarrow> bool \<Rightarrow> (string \<times> bool) outcome" where
  "expandOnce_loop driverName query vfs b lst i changed =
     (if i < length query then
        let j = skipNonCode driverName query i False in
        if j > i then expandOnce_loop driverName query vfs b lst j changed
        else if \<not> starts_word query i then expandOnce_loop driverName query vfs b lst (i + 1) changed
        else let j = wordEnd query i in
          case call_at vfs query i j of
            Inl k \<Rightarrow> expandOnce_loop driverName query vfs b lst k changed
          | Inr (h, closePos) \<Rightarrow>
            (case h driverName (slice query (j + 1) closePos) of
               Err e \<Rightarrow> Err e
             | Panic \<Rightarrow> Panic
             | Ok result \<Rightarrow>
               expandOnce_loop driverName query vfs (b @ slice query lst i @ result) (closePos + 1) (closePos + 1) True)
      else if \<not> changed then Ok (query, False)
      else Ok (b @ drop lst query, True))"
  by pat_completeness auto
termination
  by (relation "measure (\<lambda>(d, q, vfs, b, lst, i, c). length q - i)")
     (auto dest: call_at_Inl call_at_progress intro: diff_less_mono2)

declare expandOnce_loop.simps [simp del]

definition expandOnce :: "string \<Rightarrow> string \<Rightarrow> registry \<Rightarrow> (string \<times> bool) outcome" where
  "expandOnce driverName query vfs = expandOnce_loop driverName query vfs [] 0 0 False"

partial_function (option) expandVirtualFuncs :: "string \<Rightarrow> registry \<Rightarrow> string \<Rightarrow> string outcome option" where
  "expandVirtualFuncs driverName vfs query =
     (case expandOnce driverName query vfs of
        Err e \<Rightarrow> Some (Err (Traced e))
      | Panic \<Rightarrow> Some Panic
      | Ok (next, changed) \<Rightarrow>
        if \<not> changed then Some (Ok next) else expandVirtualFuncs driverName vfs next)"

subsection \<open>Specification of one pass: pieces\<close>

text \<open>
  What one pass sees: text it copies, and calls it expands, each with its handler, its
  arguments and its source text.
\<close>

datatype vpiece = Plain string | Call handler string string

function vpieces :: "string \<Rightarrow> string \<Rightarrow> registry \<Rightarrow> nat \<Rightarrow> vpiece list" where
  "vpieces d query vfs i =
     (if i < length query then
        let j = skipNonCode d query i False in
        if j > i then Plain (slice query i j) # vpieces d query vfs j
        else if \<not> starts_word query i then Plain [query ! i] # vpieces d query vfs (i + 1)
        else let j = wordEnd query i in
          case call_at vfs query i j of
            Inl k \<Rightarrow> Plain (slice query i k) # vpieces d query vfs k
          | Inr (h, p) \<Rightarrow>
              Call h (slice query (j + 1) p) (slice query i (p + 1)) # vpieces d query vfs (p + 1)
      else [])"
  by pat_completeness auto
termination
  by (relation "measure (\<lambda>(d, q, vfs, i). length q - i)")
     (auto dest: call_at_Inl call_at_progress intro: diff_less_mono2)

declare vpieces.simps [simp del]

primrec vsource :: "vpiece list \<Rightarrow> string" where
  "vsource [] = []"
| "vsource (p # ps) = (case p of Plain w \<Rightarrow> w | Call h args src \<Rightarrow> src) @ vsource ps"

primrec vexpand :: "string \<Rightarrow> vpiece list \<Rightarrow> string outcome" where
  "vexpand d [] = Ok []"
| "vexpand d (p # ps) =
     (case p of
        Plain w \<Rightarrow> (case vexpand d ps of Ok r \<Rightarrow> Ok (w @ r) | e \<Rightarrow> e)
      | Call h args src \<Rightarrow>
          (case h d args of
             Ok w \<Rightarrow> (case vexpand d ps of Ok r \<Rightarrow> Ok (w @ r) | e \<Rightarrow> e)
           | e \<Rightarrow> e))"

definition has_call :: "vpiece list \<Rightarrow> bool" where
  "has_call ps \<longleftrightarrow> list_ex (\<lambda>p. case p of Plain w \<Rightarrow> False | Call h args src \<Rightarrow> True) ps"

lemma call_at_Inl_le:
  "i < length s \<Longrightarrow> call_at vfs s i (wordEnd s i) = Inl k \<Longrightarrow> k \<le> length s"
  using wordEnd_le [of i s] by (auto simp: call_at_def split: if_splits option.splits)

text \<open>The four things the scan can find at a position, each with how far it moves.\<close>

lemma scan_cases [consumes 1, case_names skip byte word call]:
  assumes i: "i < length q"
  obtains
    (skip) j where "j = skipNonCode d q i False" "i < j" "j \<le> length q"
  | (byte) "\<not> i < skipNonCode d q i False" "\<not> starts_word q i"
  | (word) k where "\<not> i < skipNonCode d q i False" "starts_word q i"
      "call_at vfs q i (wordEnd q i) = Inl k" "i < k" "k \<le> length q"
  | (call) h p where "\<not> i < skipNonCode d q i False" "starts_word q i"
      "call_at vfs q i (wordEnd q i) = Inr (h, p)" "i < p" "p < length q"
proof -
  consider "i < skipNonCode d q i False"
    | "\<not> i < skipNonCode d q i False" "\<not> starts_word q i"
    | k where "\<not> i < skipNonCode d q i False" "starts_word q i" "call_at vfs q i (wordEnd q i) = Inl k"
    | h p where "\<not> i < skipNonCode d q i False" "starts_word q i" "call_at vfs q i (wordEnd q i) = Inr (h, p)"
    by (metis obj_sumE surj_pair)
  then show thesis
  proof cases
    case 1
    then show ?thesis using skip skipNonCode_bounds [OF i] by blast
  next
    case 3
    then show ?thesis using word call_at_Inl [OF i] call_at_Inl_le [OF i] by blast
  next
    case 4
    then have "i < p" "p < length q"
      using wordEnd_starts [OF i] call_at_Inr [OF i] by fastforce+
    with 4 show ?thesis using call by blast
  qed (rule byte)
qed

lemma vsource_vpieces: "i \<le> length q \<Longrightarrow> vsource (vpieces d q vfs i) = drop i q"
proof (induction d q vfs i rule: vpieces.induct)
  case (1 d q vfs i)
  show ?case
  proof (cases "i < length q")
    case True
    then show ?thesis
    proof (cases rule: scan_cases [where d = d and vfs = vfs])
      case skip
      with 1 True show ?thesis by (simp add: vpieces.simps [of d q vfs i] Let_def slice_drop)
    next
      case byte
      with 1 True show ?thesis by (simp add: vpieces.simps [of d q vfs i] Let_def drop_nth_Cons)
    next
      case word
      with 1 True show ?thesis by (simp add: vpieces.simps [of d q vfs i] Let_def slice_drop)
    next
      case call
      with 1 True show ?thesis by (simp add: vpieces.simps [of d q vfs i] Let_def slice_drop)
    qed
  next
    case False
    with 1 show ?thesis by (simp add: vpieces.simps)
  qed
qed

lemma vexpand_no_call: "\<not> has_call ps \<Longrightarrow> vexpand d ps = Ok (vsource ps)"
  by (induction ps) (auto simp: has_call_def split: vpiece.splits)

lemma has_call_simps [simp]:
  "\<not> has_call []" "has_call (Plain w # ps) = has_call ps" "has_call (Call h args src # ps)"
  by (simp_all add: has_call_def)

text \<open>The result of the scan from a position with the text before it already in the builder.\<close>

definition finish_scan :: "string \<Rightarrow> string \<Rightarrow> bool \<Rightarrow> vpiece list \<Rightarrow> string \<Rightarrow> (string \<times> bool) outcome" where
  "finish_scan d out changed ps q =
     (case vexpand d ps of
        Ok r \<Rightarrow> if changed \<or> has_call ps then Ok (out @ r, True) else Ok (q, False)
      | Err e \<Rightarrow> Err e
      | Panic \<Rightarrow> Panic)"

lemma finish_scan_Plain:
  "finish_scan d out ch (Plain w # ps) q = finish_scan d (out @ w) ch ps q"
  by (auto simp: finish_scan_def split: outcome.splits)

lemma expandOnce_loop_pieces:
  "lst \<le> i \<Longrightarrow> i \<le> length q \<Longrightarrow>
   expandOnce_loop d q vfs b lst i ch = finish_scan d (b @ slice q lst i) ch (vpieces d q vfs i) q"
proof (induction d q vfs b lst i ch rule: expandOnce_loop.induct)
  case (1 d q vfs b lst i ch)
  show ?case
  proof (cases "i < length q")
    case True
    then show ?thesis
    proof (cases rule: scan_cases [where d = d and vfs = vfs])
      case skip
      with 1 True show ?thesis
        by (simp add: expandOnce_loop.simps [of d q vfs b lst i] vpieces.simps [of d q vfs i] Let_def
            finish_scan_Plain slice_join)
    next
      case byte
      with 1 True have "slice q lst i @ [q ! i] = slice q lst (Suc i)"
        by (metis slice_join slice_Suc le_SucI le_refl)
      with byte 1 True show ?thesis
        by (simp add: expandOnce_loop.simps [of d q vfs b lst i] vpieces.simps [of d q vfs i] Let_def
            finish_scan_Plain)
    next
      case word
      with 1 True show ?thesis
        by (simp add: expandOnce_loop.simps [of d q vfs b lst i] vpieces.simps [of d q vfs i] Let_def
            finish_scan_Plain slice_join)
    next
      case (call h p)
      show ?thesis
      proof (cases "h d (slice q (Suc (wordEnd q i)) p)")
        case (Ok w)
        with 1(4) call True have
          "expandOnce_loop d q vfs (b @ slice q lst i @ w) (p + 1) (p + 1) True =
           finish_scan d ((b @ slice q lst i @ w) @ slice q (p + 1) (p + 1)) True (vpieces d q vfs (p + 1)) q"
          by simp
        with Ok call True show ?thesis
          by (simp add: expandOnce_loop.simps [of d q vfs b lst i] vpieces.simps [of d q vfs i] Let_def
              finish_scan_def slice_def split: outcome.split)
      qed (use call True in \<open>simp_all add: expandOnce_loop.simps [of d q vfs b lst i]
              vpieces.simps [of d q vfs i] Let_def finish_scan_def\<close>)
    qed
  next
    case False
    with 1(5,6) show ?thesis
      by (simp add: expandOnce_loop.simps [of d q vfs b lst "length q"] vpieces.simps [of d q vfs "length q"]
          finish_scan_def slice_to_end)
  qed
qed

lemma expandOnce_pieces: "expandOnce d q vfs = finish_scan d [] False (vpieces d q vfs 0) q"
  by (simp add: expandOnce_def expandOnce_loop_pieces slice_def)

lemma expandOnce_unchanged: "expandOnce d q vfs = Ok (r, False) \<longleftrightarrow> \<not> has_call (vpieces d q vfs 0) \<and> r = q"
  using vexpand_no_call [of "vpieces d q vfs 0" d]
  by (auto simp: expandOnce_pieces finish_scan_def split: outcome.splits if_splits)

subsection \<open>Repeating the pass\<close>

lemma expandVirtualFuncs_step:
  "expandOnce d q vfs = Ok (q', True) \<Longrightarrow> expandVirtualFuncs d vfs q = expandVirtualFuncs d vfs q'"
  by (subst expandVirtualFuncs.simps) simp

lemma expandVirtualFuncs_done:
  "\<not> has_call (vpieces d q vfs 0) \<Longrightarrow> expandVirtualFuncs d vfs q = Some (Ok q)"
  using expandOnce_unchanged [of d q vfs q] by (subst expandVirtualFuncs.simps) simp

lemma expandVirtualFuncs_result:
  assumes ret: "expandVirtualFuncs d vfs q = Some (Ok r)"
  shows "\<not> has_call (vpieces d r vfs 0)"
proof -
  let ?P = "\<lambda>d vfs q x. \<forall>r. x = Ok r \<longrightarrow> \<not> has_call (vpieces d r vfs 0)"
  have "?P d vfs q (Ok r)"
  proof (rule expandVirtualFuncs.raw_induct [where P = ?P, OF _ ret])
    fix f d vfs q x
    assume IH: "\<And>d vfs q x. f d vfs q = Some x \<Longrightarrow> ?P d vfs q x"
      and eq: "(case expandOnce d q vfs of Ok (next, changed) \<Rightarrow>
          if \<not> changed then Some (Ok next) else f d vfs next
        | Err e \<Rightarrow> Some (Err (Traced e)) | Panic \<Rightarrow> Some Panic) = Some x"
    then show "?P d vfs q x"
      by (auto split: outcome.splits prod.splits if_splits simp: expandOnce_unchanged)
  qed
  then show ?thesis by blast
qed

end
