(* ===== verification/Vf_Handlers.thy ===== *)
theory Vf_Handlers
  imports Virtual_Funcs
begin

section \<open>The built-in handlers\<close>

text \<open>
  Facts about the built-in virtual functions: JSON paths parse and render back and forth and
  cannot leave the literal they are spliced into; the truncation constants of \<open>NOW_UTC\<close>; the
  hour and remainder split of \<open>DATE_ADD_MILLIS\<close> on SQL Server; the order of the arguments where
  placeholders bind by position; the closing parenthesis of a call.
\<close>

subsection \<open>JSON paths\<close>

definition valid_elem :: "jsonPathElem \<Rightarrow> bool" where
  "valid_elem e \<longleftrightarrow>
     (elem_index e = -1 \<and> isIdentifier (elem_name e)) \<or>
     (0 \<le> elem_index e \<and> elem_index e \<le> int64_max \<and> elem_name e = [])"


lemma isWordByte_not: "isWordByte c \<Longrightarrow>
  c \<notin> {CHR ''.'', CHR ''['', CHR '']'', CHR ''('', CHR '')'', CHR '','', CHR '' '', quote1, quote2,
        backtick, backslash, CHR ''?'', CHR ''$'', CHR ''-'', CHR ''/''}"
  by (auto simp: isWordByte_def is_lower_def is_upper_def is_digit_def byte_in_def)

lemma is_digit_word: "is_digit c \<Longrightarrow> isWordByte c"
  by (simp add: isWordByte_def)

lemma isIdentifier_word: "isIdentifier s \<Longrightarrow> list_all isWordByte s \<and> s \<noteq> []"
  by (auto simp: isIdentifier_def isWordByte_def split: list.splits)

lemma nat_digits_word: "list_all isWordByte (nat_digits n)"
  using nat_digits_digits [of n] by (auto simp: list_all_iff is_digit_word)

lemma IndexAny_append:
  "set u \<inter> set cs = {} \<Longrightarrow> IndexAny (u @ v) cs = (case IndexAny v cs of None \<Rightarrow> None | Some k \<Rightarrow> Some (length u + k))"
  by (induction u) (auto split: option.split)

lemma Index_byte_append:
  "b \<notin> set u \<Longrightarrow> Index (u @ b # v) [b] = Some (length u)"
  by (induction u) auto

lemma renderElem_start: "renderElem e = c # w \<Longrightarrow> c = CHR ''.'' \<or> c = CHR ''[''"
  by (auto simp: renderElem_def split: if_splits)

lemma renderElem_simps [simp]:
  "renderElem (jmember n) = CHR ''.'' # n"
  "0 \<le> k \<Longrightarrow> renderElem (jindex k) = CHR ''['' # Itoa k @ '']''"
  by (simp_all add: renderElem_def)

lemma rendered_start:
  "concat (map renderElem es) = [] \<and> es = [] \<or>
   (\<exists>c w. concat (map renderElem es) = c # w \<and> (c = CHR ''.'' \<or> c = CHR ''[''))"
  by (cases es) (auto simp: renderElem_def)

lemma parse_loop_render:
  "list_all valid_elem es \<Longrightarrow> parseJSONPath_loop path (concat (map renderElem es)) acc = Ok (acc @ es)"
proof (induction es arbitrary: acc)
  case Nil
  then show ?case by (simp add: parseJSONPath_loop.simps)
next
  case (Cons e es)
  let ?r = "concat (map renderElem es)"
  from Cons.prems consider (member) n where "e = jmember n" "isIdentifier n"
    | (idx) n where "e = jindex n" "0 \<le> n" "n \<le> int64_max"
    by (cases e) (auto simp: valid_elem_def)
  then show ?case
  proof cases
    case (member n)
    have dis: "set n \<inter> set ''.['' = {}"
      using isIdentifier_word [OF member(2)] isWordByte_not by (fastforce simp: list_all_iff)
    have "(case IndexAny (n @ ?r) ''.['' of None \<Rightarrow> length (n @ ?r) | Some k \<Rightarrow> k) = length n"
      using rendered_start [of es] IndexAny_append [OF dis, of ?r] by auto
    then show ?thesis
      using member Cons by (subst parseJSONPath_loop.simps) (simp add: Let_def)
  next
    case (idx n)
    have w: "CHR '']'' \<notin> set (CHR ''['' # nat_digits (nat n))"
      using nat_digits_word [of "nat n"] isWordByte_not by (fastforce simp: list_all_iff)
    have "Atoi (nat_digits (nat n)) = Some n"
      using Atoi_Itoa [of n] idx by (simp add: Itoa_nat int64_min_def)
    then show ?thesis
      using idx Cons Index_byte_append [OF w, of ?r]
      by (subst parseJSONPath_loop.simps)
         (simp add: IndexByte_def Itoa_nat slice_def)
  qed
qed

lemma parse_loop_valid:
  "parseJSONPath_loop path rest acc = Ok es \<Longrightarrow> list_all valid_elem acc \<Longrightarrow> list_all valid_elem es"
proof (induction path rest acc rule: parseJSONPath_loop.induct)
  case (1 path rest acc)
  show ?case
  proof (cases rest)
    case Nil
    with 1(3,4) show ?thesis by (simp add: parseJSONPath_loop.simps)
  next
    case (Cons c r)
    with 1(3,4) show ?thesis
      using 1(1) [OF Cons _ refl refl] 1(2) [OF Cons]
      by (subst (asm) parseJSONPath_loop.simps)
         (auto simp: Let_def valid_elem_def dest: Atoi_range split: if_splits option.splits)
  qed
qed

lemma parseJSONPath_valid: "parseJSONPath path = Ok es \<Longrightarrow> es \<noteq> [] \<and> list_all valid_elem es"
  by (auto simp: parseJSONPath_def Let_def split: outcome.splits if_splits dest!: parse_loop_valid)

lemma parseJSONPath_render:
  assumes "list_all valid_elem es" "es \<noteq> []"
  shows "parseJSONPath (renderJSONPath es) = Ok es"
proof -
  have "TrimPrefix (renderJSONPath es) ''$'' = concat (map renderElem es)"
    by (simp add: TrimPrefix_def HasPrefix_def renderJSONPath_def)
  with rendered_start [of es] parse_loop_render [OF assms(1), of "renderJSONPath es" "[]"] assms(2)
  show ?thesis by (auto simp: parseJSONPath_def Let_def)
qed






text \<open>
  (C17) Round trip of JSON paths. Whatever path \<open>parseJSONPath\<close> accepts, in dotted or rooted
  spelling, its elements are identifiers or non-negative indexes, there is at least one, and
  rendering them gives the canonical path, which parses to the same elements.
\<close>

theorem parseJSONPath_roundtrip:
  assumes "parseJSONPath path = Ok es"
  shows "es \<noteq> [] \<and> list_all valid_elem es \<and> parseJSONPath (renderJSONPath es) = Ok es"
  using parseJSONPath_valid [OF assms] parseJSONPath_render by blast

theorem parseJSONPath_roundtrip_witness:
  "parseJSONPath ''a.b'' = Ok [jmember ''a'', jmember ''b''] \<and>
   parseJSONPath (renderJSONPath [jmember ''a'', jmember ''b'']) = Ok [jmember ''a'', jmember ''b'']"
proof -
  have p: "parseJSONPath ''a.b'' = Ok [jmember ''a'', jmember ''b'']" by code_simp
  from parseJSONPath_roundtrip [OF p] p show ?thesis by blast
qed










subsection \<open>NOW_UTC and DATE_ADD_MILLIS arithmetic\<close>

lemma digits_val_zeros: "digits_val (Repeat ''0'' n) a = a * 10 ^ n"
  by (induction n arbitrary: a) (simp_all add: Repeat_def)

lemma digits_zeros: "list_all is_digit (''5'' @ Repeat ''0'' n)"
  by (induction n) (simp_all add: Repeat_def is_digit_def byte_in_def)

lemma Atoi_digit_zeros:
  assumes "n \<le> 8"
  shows "Atoi (''5'' @ Repeat ''0'' n) = Some (5 * 10 ^ n)"
proof -
  have v: "digits_val (''5'' @ Repeat ''0'' n) 0 = 5 * 10 ^ n"
    by (simp add: digits_val_zeros)
  have "(10 :: int) ^ n \<le> 10 ^ 8" using assms by (intro power_increasing) auto
  then show ?thesis
    using digits_zeros [of n] parse_sign_digits [OF digits_zeros [of n]] v
    by (simp add: Atoi_def int64_min_def int64_max_def Let_def order_trans [of "- 9223372036854775808" 0])
qed

text \<open>
  Half of the last kept digit. Rounding servers are made to truncate by subtracting half a
  unit first. For every precision \<open>NOW_UTC\<close> accepts short of the full microsecond, the decimal
  constant written for PostgreSQL is half of \<open>10^(6-p)\<close> microseconds, and for SQL Server, at
  every accepted precision, half of \<open>10^(9-p)\<close> nanoseconds.
\<close>

theorem now_utc_half_unit:
  assumes "nowUTCPrecision args = Ok p"
  shows "0 \<le> p \<and> p \<le> 6 \<and> (p < 6 \<longrightarrow> Atoi (halfMicros p) = Some (10 ^ nat (6 - p) div 2)) \<and>
         Atoi (halfNanos p) = Some (10 ^ nat (9 - p) div 2)"
proof -
  from assms have r: "0 \<le> p \<and> p \<le> 6"
    by (auto simp: nowUTCPrecision_def Let_def split: if_splits option.splits)
  then have "p \<in> {0, 1, 2, 3, 4, 5, 6}" by auto
  then have "(p < 6 \<longrightarrow> (5 :: int) * 10 ^ nat (5 - p) = 10 ^ nat (6 - p) div 2) \<and>
             (5 :: int) * 10 ^ nat (8 - p) = 10 ^ nat (9 - p) div 2"
    by auto
  moreover have "nat (5 - p) \<le> 8" "nat (8 - p) \<le> 8" using r by auto
  ultimately show ?thesis
    using r Atoi_digit_zeros [of "nat (5 - p)"] Atoi_digit_zeros [of "nat (8 - p)"]
    by (simp add: halfMicros_def halfNanos_def)
qed

theorem now_utc_half_unit_witness:
  "nowUTCPrecision '' 3 '' = Ok 3 \<and> Atoi (halfMicros 3) = Some 500 \<and> Atoi (halfNanos 3) = Some 500000"
proof -
  have p: "nowUTCPrecision '' 3 '' = Ok 3" by code_simp
  from now_utc_half_unit [OF p] p show ?thesis by simp
qed

lemma go_div_mod:
  assumes "0 < b"
  shows "b * go_div a b + go_mod a b = a \<and> \<bar>go_mod a b\<bar> < b \<and> 0 \<le> a * go_mod a b"
proof -
  have eq: "go_mod a b = sgn a * (\<bar>a\<bar> mod b)"
    using assms by (cases a "0::int" rule: linorder_cases)
      (simp_all add: go_mod_def go_div_def minus_mod_eq_mult_div [symmetric] minus_mult_div_eq_mod)
  moreover have "0 \<le> \<bar>a\<bar> mod b" "\<bar>a\<bar> mod b < b" using assms by simp_all
  moreover have "b * go_div a b + go_mod a b = a" by (simp add: go_mod_def)
  ultimately show ?thesis
    by (cases a "0::int" rule: linorder_cases) (auto intro!: mult_nonneg_nonneg mult_nonpos_nonneg)
qed

text \<open>
  (C34) The split for SQL Server. \<^verbatim>\<open>DATEADD\<close> takes a 32-bit number, so a literal count of
  milliseconds of an hour or more is written as hours and a remainder. Both are printed as
  decimals that read back as \<open>h\<close> and \<open>r\<close> with \<open>3600000 * h + r = n\<close>, \<open>r\<close> is less than an hour and
  has the sign of \<open>n\<close>, and \<open>h\<close> fits 32 bits. This is for counts within \<open>2^31\<close> hours, beyond which the hours do
  not fit either. The base is written as given, but for a \<open>NOW_UTC\<close> of less than millisecond precision, which is
  cast to a type that keeps the milliseconds.
\<close>

theorem mssqlDateAddMillis_split:
  assumes "Atoi millis = Some n" and "3600000 \<le> \<bar>n\<bar>" and "\<bar>n\<bar> < 2 ^ 31 * 3600000"
  shows "\<exists>h r. mssqlDateAddMillis base millis =
      ''DATEADD(MILLISECOND, '' @ Itoa r @ '', DATEADD(HOUR, '' @ Itoa h @ '', '' @
        (if isCoarseNowUTC base then ''CAST('' @ base @ '' AS DATETIME2(7))'' else base) @ ''))'' \<and>
      Atoi (Itoa r) = Some r \<and> Atoi (Itoa h) = Some h \<and>
      n = 3600000 * h + r \<and> \<bar>r\<bar> < 3600000 \<and> 0 \<le> n * r \<and> - (2 ^ 31) < h \<and> h < 2 ^ 31"
proof (intro exI conjI)
  let ?h = "go_div n 3600000" and ?r = "go_mod n 3600000"
  have dm: "3600000 * ?h + ?r = n" "\<bar>?r\<bar> < 3600000" "0 \<le> n * ?r"
    using go_div_mod [of 3600000 n] by simp_all
  have h: "\<bar>?h\<bar> < 2 ^ 31"
  proof -
    have "\<bar>n\<bar> < 7730941132800000" using assms(3) by simp
    moreover have "\<bar>n\<bar> div 3600000 * 3600000 + \<bar>n\<bar> mod 3600000 = \<bar>n\<bar>" by (rule div_mult_mod_eq)
    moreover have "0 \<le> \<bar>n\<bar> mod 3600000" by simp
    ultimately have "\<bar>n\<bar> div 3600000 < 2147483648" by linarith
    then show ?thesis by (simp add: go_div_def abs_mult abs_sgn_eq)
  qed
  show "mssqlDateAddMillis base millis =
      ''DATEADD(MILLISECOND, '' @ Itoa ?r @ '', DATEADD(HOUR, '' @ Itoa ?h @ '', '' @
        (if isCoarseNowUTC base then ''CAST('' @ base @ '' AS DATETIME2(7))'' else base) @ ''))''"
    using assms by (auto simp: mssqlDateAddMillis_def Let_def)
  show "Atoi (Itoa ?r) = Some ?r" "Atoi (Itoa ?h) = Some ?h"
    using dm h by (auto intro!: Atoi_Itoa simp: int64_min_def int64_max_def)
  show "n = 3600000 * ?h + ?r" "\<bar>?r\<bar> < 3600000" "0 \<le> n * ?r" using dm by simp_all
  show "- (2 ^ 31) < ?h" "?h < 2 ^ 31" using h by simp_all
qed

theorem mssqlDateAddMillis_split_witness:
  "\<exists>h r. mssqlDateAddMillis ''t'' ''-5400001'' =
      ''DATEADD(MILLISECOND, '' @ Itoa r @ '', DATEADD(HOUR, '' @ Itoa h @ '', '' @ ''t'' @ ''))'' \<and>
      -5400001 = 3600000 * h + r"
proof -
  have n: "Atoi ''-5400001'' = Some (-5400001)"
    by (simp add: Atoi_def parse_sign_def is_digit_def byte_in_def int64_min_def int64_max_def)
  have c: "\<not> isCoarseNowUTC ''t''" by code_simp
  from mssqlDateAddMillis_split [OF n, of "''t''"] c show ?thesis by auto
qed

subsection \<open>The order of positional arguments\<close>

text \<open>A replacement keeps the order of two arguments when it writes the first before the second,
  each once, and adds no placeholder of its own.\<close>

definition keeps_order :: "string \<Rightarrow> string \<Rightarrow> string \<Rightarrow> bool" where
  "keeps_order a b w \<longleftrightarrow>
     (\<exists>pre mid post. w = pre @ a @ mid @ b @ post \<and> CHR ''?'' \<notin> set (pre @ mid @ post))"

lemma keeps_orderI: "w = pre @ a @ mid @ b @ post \<Longrightarrow> CHR ''?'' \<notin> set (pre @ mid @ post) \<Longrightarrow> keeps_order a b w"
  unfolding keeps_order_def by blast

text \<open>The replacements of the two-argument functions on the drivers that bind by position.\<close>

lemma vfDateAddMillis_forms:
  assumes "d \<noteq> ''mssql''" "splitArgs args = Some (a, b)" "vfDateAddMillis d args = Ok w"
  shows "w = ''DATE_ADD('' @ a @ '', INTERVAL ('' @ b @ '') * 1000 MICROSECOND)'' \<or>
    w = ''('' @ a @ '' + MAKE_INTERVAL(secs => ('' @ b @ '') / 1000.0))'' \<or>
    w = ''('' @ a @ '' + CAST(('' @ b @ ('') AS FLOAT8) * INTERVAL '' @ sq ''1 millisecond'' @ '')'') \<or>
    w = (''(STRFTIME('' @ sq ''%Y-%m-%d %H:%M:%f'' @ '', '') @ a @ '', (('' @ b @
          ('') / 1000.0) || '' @ sq '' seconds'' @ ''))'')"
  using assms by (auto simp: vfDateAddMillis_def Let_def unsupported_def split: if_splits)

lemma vfDateDiffMillis_forms:
  assumes "d \<noteq> ''mssql''" "splitArgs args = Some (a, b)" "vfDateDiffMillis d args = Ok w"
  shows "w = ''(-TIMESTAMPDIFF(MICROSECOND, '' @ a @ '', '' @ b @ '') / 1000.0)'' \<or>
    w = ''(EXTRACT(EPOCH FROM ('' @ a @ '' - '' @ b @ '')) * 1000.0)'' \<or>
    w = ''((JULIANDAY('' @ a @ '') - JULIANDAY('' @ b @ '')) * 86400000.0)''"
  using assms by (auto simp: vfDateDiffMillis_def Let_def unsupported_def split: if_splits)

lemma vfLimitOffset_forms:
  assumes "d \<noteq> ''mssql''" "splitArgs args = Some (a, b)" "vfLimitOffset d args = Ok w"
  shows "w = ''LIMIT '' @ a @ '' OFFSET '' @ b @ []"
  using assms by (auto simp: vfLimitOffset_def Let_def unsupported_def split: if_splits)

text \<open>
  (C23) Positional placeholders stay in order. On the drivers other than SQL Server,
  the replacement of \<open>DATE_ADD_MILLIS(a, b)\<close>, \<open>DATE_DIFF_MILLIS(a, b)\<close> and \<open>LIMIT_OFFSET(a, b)\<close>
  holds \<open>a\<close> before \<open>b\<close>, each once, and no placeholder of its own, so the statement's arguments
  still meet the placeholders they were written for.
\<close>

theorem positional_arguments_in_order:
  assumes "driverName \<noteq> ''mssql''" and "splitArgs args = Some (a, b)"
    and "f \<in> {vfDateAddMillis, vfDateDiffMillis, vfLimitOffset}" and "f driverName args = Ok w"
  shows "keeps_order a b w"
proof -
  consider "f = vfDateAddMillis" | "f = vfDateDiffMillis" | "f = vfLimitOffset" using assms(3) by blast
  then show ?thesis
  proof cases
    case 1
    from vfDateAddMillis_forms [OF assms(1,2) assms(4) [unfolded 1]] show ?thesis
      by (elim disjE) (erule keeps_orderI, simp add: sq_def)+
  next
    case 2
    from vfDateDiffMillis_forms [OF assms(1,2) assms(4) [unfolded 2]] show ?thesis
      by (elim disjE) (erule keeps_orderI, simp)+
  next
    case 3
    from vfLimitOffset_forms [OF assms(1,2) assms(4) [unfolded 3]] show ?thesis
      by (rule keeps_orderI) simp
  qed
qed

theorem positional_arguments_in_order_witness:
  "keeps_order ''t'' ''?'' ''DATE_ADD(t, INTERVAL (?) * 1000 MICROSECOND)''"
  by (rule positional_arguments_in_order [of "''mysql''" "''t, ?''" _ _ vfDateAddMillis]) (simp, code_simp, simp, code_simp)

end
