(* ===== verification/Vf_Expansion.thy ===== *)
theory Vf_Expansion
  imports Vf_Handlers
begin

section \<open>Expansion of virtual functions\<close>

text \<open>
  The properties of \<open>expandOnce\<close> and \<open>expandVirtualFuncs\<close>. One pass is characterised by the pieces
  of the statement. The repeated pass ends, for any registry whose handlers make a weight of the
  text smaller (locale \<open>shrinking_registry\<close>); the built-in handlers do so, interpreted here, on every
  driver on which no handler repeats an argument.
\<close>

subsection \<open>One pass\<close>

text \<open>
  (C6) What one pass does. The pieces are the statement cut up: text and expandable calls in
  order. The pass answers the pieces with each call replaced by its handler's answer and tells
  whether there was one; at the first handler that fails it stops with that handler's error.
\<close>

theorem expandOnce_spec:
  "vsource (vpieces d q vfs 0) = q \<and>
   expandOnce d q vfs =
     (case vexpand d (vpieces d q vfs 0) of
        Ok r \<Rightarrow> Ok (r, has_call (vpieces d q vfs 0))
      | Err e \<Rightarrow> Err e
      | Panic \<Rightarrow> Panic)"
  using vsource_vpieces [of 0 q d vfs] vexpand_no_call [of "vpieces d q vfs 0" d]
  by (auto simp: expandOnce_pieces finish_scan_def split: outcome.splits)

text \<open>
  (C37) The answer is a fixed point. Whatever statement \<open>expandVirtualFuncs\<close> returns has no
  expandable call left in its code, another pass leaves it as it is, and so does another
  expansion: expanding is idempotent.
\<close>

theorem expandVirtualFuncs_fixpoint:
  assumes "expandVirtualFuncs d vfs q = Some (Ok r)"
  shows "\<not> has_call (vpieces d r vfs 0) \<and> expandOnce d r vfs = Ok (r, False) \<and>
         expandVirtualFuncs d vfs r = Some (Ok r)"
  using expandVirtualFuncs_result [OF assms] expandVirtualFuncs_done expandOnce_unchanged by blast

theorem expandVirtualFuncs_fixpoint_witness:
  "expandVirtualFuncs ''sqlite'' (builtin_funcs (\<lambda>s. s)) ''SELECT x LIMIT_OFFSET(5, 10)'' =
     Some (Ok ''SELECT x LIMIT 5 OFFSET 10'') \<and>
   expandOnce ''sqlite'' ''SELECT x LIMIT 5 OFFSET 10'' (builtin_funcs (\<lambda>s. s)) =
     Ok (''SELECT x LIMIT 5 OFFSET 10'', False)"
proof -
  have "expandOnce ''sqlite'' ''SELECT x LIMIT_OFFSET(5, 10)'' (builtin_funcs (\<lambda>s. s)) =
      Ok (''SELECT x LIMIT 5 OFFSET 10'', True)" by code_simp
  moreover have "expandOnce ''sqlite'' ''SELECT x LIMIT 5 OFFSET 10'' (builtin_funcs (\<lambda>s. s)) =
      Ok (''SELECT x LIMIT 5 OFFSET 10'', False)" by code_simp
  ultimately have r: "expandVirtualFuncs ''sqlite'' (builtin_funcs (\<lambda>s. s)) ''SELECT x LIMIT_OFFSET(5, 10)'' =
     Some (Ok ''SELECT x LIMIT 5 OFFSET 10'')"
    by (simp add: expandVirtualFuncs.simps)
  from expandVirtualFuncs_fixpoint [OF r] r show ?thesis by blast
qed

subsection \<open>Termination\<close>

locale shrinking_registry =
  fixes vfs :: registry
    and driver :: "string \<Rightarrow> bool"
    and weight :: "string \<Rightarrow> nat"
  assumes weight_append: "weight (u @ v) = weight u + weight v"
    and weight_upper: "weight (map upper_byte u) = weight u"
    and handler_shrinks:
      "driver d \<Longrightarrow> vfs name = Some h \<Longrightarrow> h d args = Ok w \<Longrightarrow> weight w < weight name + weight args"
begin

lemma weight_call:
  assumes "i < length q" "starts_word q i" "call_at vfs q i (wordEnd q i) = Inr (h, p)"
    and "driver d" "h d (slice q (wordEnd q i + 1) p) = Ok w"
  shows "weight w < weight (slice q i (p + 1))"
proof -
  let ?j = "wordEnd q i"
  note c = call_at_Inr [OF assms(1-3)]
  have "slice q i (p + 1) = slice q i ?j @ slice q ?j (?j + 1) @ slice q (?j + 1) p @ slice q p (p + 1)"
    using c wordEnd_starts [OF assms(1,2)] by (simp add: slice_join)
  then have "weight (slice q i ?j) + weight (slice q (?j + 1) p) \<le> weight (slice q i (p + 1))"
    by (simp add: weight_append)
  moreover have "weight w < weight (map upper_byte (slice q i ?j)) + weight (slice q (?j + 1) p)"
    by (rule handler_shrinks [where h = h and d = d]) (use assms(4,5) c in auto)
  ultimately show ?thesis by (simp add: weight_upper)
qed

definition shrinks :: "string \<Rightarrow> vpiece \<Rightarrow> bool" where
  "shrinks d x = (case x of Plain w \<Rightarrow> True
     | Call h args src \<Rightarrow> \<forall>w. h d args = Ok w \<longrightarrow> weight w < weight src)"

lemma shrinks_vpieces: "driver d \<Longrightarrow> vfs' = vfs \<Longrightarrow> list_all (shrinks d) (vpieces d q vfs' i)"
proof (induction d q vfs' i rule: vpieces.induct)
  case (1 d q vfs' i)
  show ?case
  proof (cases "i < length q")
    case True
    then show ?thesis
    proof (cases rule: scan_cases [where d = d and vfs = vfs])
      case (call h p)
      with 1 True weight_call [OF True call(2,3) 1(5)] show ?thesis
        by (simp add: vpieces.simps [of d q vfs i] Let_def shrinks_def)
    qed (use 1 True in \<open>simp_all add: vpieces.simps [of d q vfs i] Let_def shrinks_def\<close>)
  qed (simp add: vpieces.simps)
qed

lemma weight_vexpand:
  "list_all (shrinks d) ps \<Longrightarrow> vexpand d ps = Ok r \<Longrightarrow>
   weight r + (if has_call ps then 1 else 0) \<le> weight (vsource ps)"
proof (induction ps arbitrary: r)
  case Nil
  then show ?case by simp
next
  case (Cons x ps)
  from Cons.prems obtain v r' where r: "r = v @ r'" "vexpand d ps = Ok r'"
    and v: "x = Plain v \<or> (\<exists>h args src. x = Call h args src \<and> h d args = Ok v)"
    by (auto split: vpiece.splits outcome.splits)
  with Cons show ?case
    by (auto simp: shrinks_def weight_append intro: order_trans dest!: Cons.IH [OF _ r(2)] split: if_splits)
qed

lemma expandOnce_shrinks:
  assumes "driver d" "expandOnce d q vfs = Ok (r, True)"
  shows "weight r < weight q"
  using assms weight_vexpand [OF shrinks_vpieces [OF assms(1) refl, of q 0]] vsource_vpieces [of 0 q d vfs]
  by (auto simp: expandOnce_pieces finish_scan_def split: outcome.splits if_splits)

lemma expansion_returns: "driver d \<Longrightarrow> \<exists>out. expandVirtualFuncs d vfs q = Some out"
proof (induction "weight q" arbitrary: q rule: less_induct)
  case less
  then show ?case
    using expandOnce_shrinks [OF less(2), of q]
    by (subst expandVirtualFuncs.simps) (auto split: outcome.splits)
qed

end

subsection \<open>The built-in handlers shrink\<close>

text \<open>
  The weight of a byte: every built-in name has an underscore, and a replacement has fewer of
  them or, when as many, loses a letter \<open>H\<close> or \<open>D\<close> of the name.
\<close>

definition byte_weight :: "char \<Rightarrow> nat" where
  "byte_weight c = (if c = CHR ''_'' then 100
     else if c \<in> {CHR ''D'', CHR ''d'', CHR ''H'', CHR ''h''} then 1 else 0)"

definition text_weight :: "string \<Rightarrow> nat" where
  "text_weight s = sum_list (map byte_weight s)"

lemma text_weight_append [simp]: "text_weight (u @ v) = text_weight u + text_weight v"
  by (simp add: text_weight_def)

lemma text_weight_Nil [simp]: "text_weight [] = 0"
  by (simp add: text_weight_def)

lemma text_weight_Cons: "text_weight (c # s) = byte_weight c + text_weight s"
  by (simp add: text_weight_def)

lemma text_weight_rev [simp]: "text_weight (rev s) = text_weight s"
  by (induction s) (simp_all add: text_weight_Cons)

lemma text_weight_split: "text_weight (take n s) + text_weight (drop n s) = text_weight s"
  by (simp flip: text_weight_append)

lemma text_weight_take: "text_weight (take n s) \<le> text_weight s"
  using text_weight_split [of n s] by linarith

lemma text_weight_drop: "text_weight (drop n s) \<le> text_weight s"
  using text_weight_split [of n s] by linarith

lemma text_weight_drop_mono: "n \<le> m \<Longrightarrow> text_weight (drop m s) \<le> text_weight (drop n s)"
  using text_weight_drop [of "m - n" "drop n s"] by simp

lemma text_weight_trim_front: "text_weight (trim_front encs s) \<le> text_weight s"
proof (induction encs s rule: trim_front.induct)
  case (1 encs s)
  then show ?case
    using text_weight_drop [of "space_at encs s" s]
    by (subst trim_front.simps) (auto simp: Let_def intro: order_trans)
qed

lemma text_weight_TrimSpace: "text_weight (TrimSpace s) \<le> text_weight s"
  using text_weight_trim_front [of "map rev spaceEncodings" "rev (TrimLeftSpace s)"]
    text_weight_trim_front [of spaceEncodings s]
  by (simp add: TrimSpace_def TrimRightSpace_def TrimLeftSpace_def)

lemma text_weight_split_at:
  "i + n \<le> length s \<Longrightarrow> text_weight (TrimSpace (take i s)) + text_weight (TrimSpace (drop (i + n) s)) \<le> text_weight s"
  using text_weight_TrimSpace [of "take i s"] text_weight_TrimSpace [of "drop (i + n) s"]
    text_weight_split [of i s] text_weight_drop_mono [of i "i + n" s] by linarith

lemma text_weight_Join: "text_weight (Join xs '','') = sum_list (map text_weight xs)"
  by (induction xs "'',''" rule: Join.induct) (simp_all add: text_weight_Cons byte_weight_def)

lemma text_weight_Split: "sep \<noteq> [] \<Longrightarrow> sum_list (map text_weight (Split s sep)) \<le> text_weight s"
proof (induction s sep rule: Split.induct)
  case (1 s sep)
  show ?case
  proof (cases "Index s sep = None \<or> s = []")
    case True
    with 1(2) show ?thesis by (subst Split.simps) (auto split: option.split)
  next
    case False
    then obtain i where i: "Index s sep = Some i" "s \<noteq> []" by auto
    have "sum_list (map text_weight (Split (drop (i + length sep) s) sep)) \<le> text_weight (drop i s)"
      using 1(1) [OF 1(2) i] 1(2) text_weight_drop_mono [of i "i + length sep" s]
      by (auto intro: order_trans)
    with i 1(2) text_weight_split [of i s] show ?thesis by (subst Split.simps) simp
  qed
qed

lemma text_weight_columns:
  "sum_list (map text_weight (filter (\<lambda>c. c \<noteq> []) (map TrimSpace xs))) \<le> sum_list (map text_weight xs)"
proof (induction xs)
  case (Cons x xs)
  with text_weight_TrimSpace [of x] show ?case by simp
qed simp

lemmas weigh = text_weight_Cons byte_weight_def sq_def strftime_now_def

lemma byte_weight_digit: "is_digit c \<Longrightarrow> byte_weight c = 0"
  by (rule ccontr) (auto simp: byte_weight_def is_digit_def byte_in_def split: if_splits)

lemma text_weight_digits: "list_all is_digit s \<Longrightarrow> text_weight s = 0"
  by (induction s) (simp_all add: text_weight_Cons byte_weight_digit)

lemma text_weight_Itoa [simp]: "text_weight (Itoa n) = 0"
  using nat_digits_digits by (simp add: Itoa_def text_weight_Cons byte_weight_def text_weight_digits)

lemma text_weight_zeros [simp]: "text_weight (Repeat ''0'' n) = 0"
  by (induction n) (simp_all add: Repeat_def text_weight_Cons byte_weight_def)

definition single_use :: "string \<Rightarrow> bool" where
  "single_use d \<longleftrightarrow> d \<notin> {''mysql'', ''mariadb'', ''mssql''}"

lemma splitArgs_weight:
  assumes "splitArgs args = Some (a, b)"
  shows "text_weight a + text_weight b \<le> text_weight args"
proof -
  from assms obtain k where k: "lastTopLevelComma args = Some k"
    and ab: "a = TrimSpace (take k args)" "b = TrimSpace (drop (k + 1) args)"
    by (auto simp: splitArgs_def split: option.splits)
  show ?thesis
    using text_weight_TrimSpace [of "take k args"] text_weight_TrimSpace [of "drop (k + 1) args"]
      text_weight_split [of k args] text_weight_drop_mono [of k "k + 1" args] ab by simp
qed

lemma vfNowUTC_weight:
  assumes "single_use d" "vfNowUTC d args = Ok w"
  shows "text_weight w < 100"
proof -
  from assms(2) obtain p where p: "nowUTCPrecision args = Ok p"
    by (auto simp: vfNowUTC_def split: outcome.splits)
  from assms have "w = ''(NOW() AT TIME ZONE '' @ sq ''UTC'' @ '')'' \<or>
      w = ''(CAST((NOW() AT TIME ZONE '' @ sq ''UTC'' @ '') - INTERVAL '' @
        sq (halfMicros p @ '' microseconds'') @ '' AS TIMESTAMP('' @ Itoa p @ '')))'' \<or>
      w = ''('' @ strftime_now @ '')'' \<or>
      w = ''(SUBSTR('' @ strftime_now @ '', 1, '' @ Itoa (20 + p) @ '') || '' @
                   sq (take (nat (3 - p)) ''000'') @ '')''"
    unfolding vfNowUTC_def p by (simp add: single_use_def unsupported_def Let_def split: if_splits)
  moreover have "text_weight (take (nat (3 - p)) ''000'') = 0"
    using text_weight_take [of "nat (3 - p)" "''000''"] by (simp add: weigh)
  ultimately show ?thesis by (elim disjE) (simp_all add: weigh halfMicros_def)
qed

lemma two_argument_weight:
  assumes "d \<noteq> ''mssql''"
  shows "vfDateAddMillis d args = Ok w \<Longrightarrow> text_weight w < 200 + text_weight args"
    and "vfDateDiffMillis d args = Ok w \<Longrightarrow> text_weight w < 200 + text_weight args"
    and "vfLimitOffset d args = Ok w \<Longrightarrow> text_weight w < 100 + text_weight args"
proof -
  assume h: "vfDateAddMillis d args = Ok w"
  then obtain a b where ab: "splitArgs args = Some (a, b)"
    by (auto simp: vfDateAddMillis_def Let_def split: option.splits)
  from vfDateAddMillis_forms [OF assms ab h] splitArgs_weight [OF ab] show "text_weight w < 200 + text_weight args"
    by (elim disjE) (simp_all add: weigh)
next
  assume h: "vfDateDiffMillis d args = Ok w"
  then obtain a b where ab: "splitArgs args = Some (a, b)"
    by (auto simp: vfDateDiffMillis_def Let_def split: option.splits)
  from vfDateDiffMillis_forms [OF assms ab h] splitArgs_weight [OF ab] show "text_weight w < 200 + text_weight args"
    by (elim disjE) (simp_all add: weigh)
next
  assume h: "vfLimitOffset d args = Ok w"
  then obtain a b where ab: "splitArgs args = Some (a, b)"
    by (auto simp: vfLimitOffset_def Let_def split: option.splits)
  from vfLimitOffset_forms [OF assms ab h] splitArgs_weight [OF ab] show "text_weight w < 100 + text_weight args"
    by (simp add: weigh)
qed

lemma concatColumns_weight: "text_weight (concatColumns cols) \<le> 100 + sum_list (map text_weight cols)"
  by (cases cols) (auto simp: concatColumns_def text_weight_Join weigh)

lemma vfRegexpTextSearch_weight:
  assumes "vfRegexpTextSearch uni d args = Ok w"
  shows "text_weight w < 201 + text_weight args"
proof -
  from assms obtain i where i: "Index (ToUpper uni args) '' IN '' = Some i" "i + 4 \<le> length args"
    by (auto simp: vfRegexpTextSearch_def Let_def split: option.splits if_splits)
  define cols where "cols = filter (\<lambda>col. col \<noteq> []) (map TrimSpace (Split (drop (i + 4) args) '',''))"
  have "text_weight (concatColumns cols) \<le> 100 + text_weight (drop (i + 4) args)"
    using concatColumns_weight [of cols] text_weight_columns [of "Split (drop (i + 4) args) '',''"]
      text_weight_Split [of "'',''" "drop (i + 4) args"] unfolding cols_def by simp
  moreover have "text_weight (TrimSpace (take i args)) + text_weight (drop (i + 4) args) \<le> text_weight args"
    using text_weight_TrimSpace [of "take i args"] text_weight_split [of i args]
      text_weight_drop_mono [of i "i + 4" args] by linarith
  moreover have "w = ''('' @ concatColumns cols @ '' REGEXP '' @ TrimSpace (take i args) @ '')'' \<or>
      w = ''REGEXP_LIKE('' @ concatColumns cols @ '', '' @ TrimSpace (take i args) @ '', '' @ sq ''i'' @ '')'' \<or>
      w = ''('' @ concatColumns cols @ '' LIKE ('' @ sq ''%'' @ '' || '' @ TrimSpace (take i args) @
            '' || '' @ sq ''%'' @ ''))''"
    using assms i
    by (simp add: vfRegexpTextSearch_def unsupported_def cols_def [symmetric] Let_def split: if_splits)
  ultimately show ?thesis by (elim disjE) (simp_all add: weigh)
qed

lemma renderElem_weight: "text_weight (renderElem e) = (if elem_index e \<ge> 0 then 0 else text_weight (elem_name e))"
  by (simp add: renderElem_def text_weight_Cons byte_weight_def)

lemma jsonKey_weight: "text_weight (jsonKey e) = text_weight (renderElem e)"
  by (simp add: jsonKey_def renderElem_weight text_weight_Cons byte_weight_def)

lemma parse_loop_weight:
  "parseJSONPath_loop path rest acc = Ok es \<Longrightarrow>
   sum_list (map (text_weight \<circ> renderElem) es) \<le>
   sum_list (map (text_weight \<circ> renderElem) acc) + text_weight rest"
proof (induction path rest acc rule: parseJSONPath_loop.induct)
  case (1 path rest acc)
  show ?case
  proof (cases rest)
    case Nil
    with 1(3) show ?thesis by (simp add: parseJSONPath_loop.simps)
  next
    case (Cons c r)
    define e where "e = (case IndexAny r ''.['' of None \<Rightarrow> length r | Some k \<Rightarrow> k)"
    have r: "text_weight r \<le> text_weight rest" using Cons by (simp add: text_weight_Cons)
    consider (member) "parseJSONPath_loop path (drop e r) (acc @ [jmember (take e r)]) = Ok es"
        "c = CHR ''.''" "isIdentifier (take e r)"
      | (idx) k n where "parseJSONPath_loop path (drop (k + 1) rest) (acc @ [jindex n]) = Ok es"
        "c = CHR ''[''" "IndexByte rest (CHR '']'') = Some k" "Atoi (slice rest 1 k) = Some n" "0 \<le> n"
      using 1(3) Cons
      by (subst (asm) parseJSONPath_loop.simps)
         (auto simp: Let_def e_def [symmetric] split: if_splits option.splits)
    then show ?thesis
    proof cases
      case member
      from 1(1) [OF Cons member(2) e_def refl _ member(1)] member(3) text_weight_split [of e r] r
      show ?thesis by (simp add: renderElem_weight)
    next
      case idx
      from 1(2) [OF Cons _ idx(2) idx(3) idx(4) _ idx(1)] idx text_weight_drop [of "k + 1" rest]
      show ?thesis by (simp add: renderElem_weight)
    qed
  qed
qed

lemma parseJSONPath_weight:
  assumes "parseJSONPath path = Ok es"
  shows "sum_list (map (text_weight \<circ> renderElem) es) \<le> text_weight path"
proof -
  define r where "r = TrimPrefix path ''$''"
  from assms obtain rest where "parseJSONPath_loop path rest [] = Ok es" "rest = r \<or> rest = ''.'' @ r"
    by (auto simp: parseJSONPath_def r_def Let_def split: outcome.splits if_splits)
  moreover have "text_weight r \<le> text_weight path"
    by (simp add: r_def TrimPrefix_def text_weight_drop)
  ultimately show ?thesis
    using parse_loop_weight [of path rest "[]" es] by (auto simp: text_weight_Cons byte_weight_def)
qed

lemma text_weight_concat: "text_weight (concat xs) = sum_list (map text_weight xs)"
  by (induction xs) simp_all

lemma vfJSONField_weight:
  assumes "single_use d" "vfJSONField d args = Ok w"
  shows "text_weight w < 101 + text_weight args"
proof -
  from assms(2) obtain k where k: "lastTopLevelComma args = Some k"
    by (auto simp: vfJSONField_def split: option.splits)
  define col lit where "col = TrimSpace (take k args)" and "lit = TrimSpace (drop (k + 1) args)"
  from assms(2) k obtain es where es: "parseJSONPath (slice lit 1 (length lit - 1)) = Ok es"
    by (auto simp: vfJSONField_def col_def [symmetric] lit_def [simplified, symmetric] Let_def
        split: outcome.splits if_splits)
  have "text_weight col + text_weight lit \<le> text_weight args"
    using splitArgs_weight [of args col lit] k by (simp add: splitArgs_def col_def lit_def)
  moreover have "text_weight (slice lit 1 (length lit - 1)) \<le> text_weight lit"
    using text_weight_take text_weight_drop unfolding slice_def by (rule order_trans)
  ultimately have "text_weight col + sum_list (map (text_weight \<circ> renderElem) es) \<le> text_weight args"
    using parseJSONPath_weight [OF es] by linarith
  moreover have "w = ''(('' @ col @ '')::jsonb #>> '' @ sq (''{'' @ Join (map jsonKey es) '','' @ ''}'') @ '')'' \<or>
      w = ''(JSON_EXTRACT('' @ col @ '', '' @ sq (renderJSONPath es) @ ''))''"
    using assms k es
    by (simp add: vfJSONField_def single_use_def unsupported_def col_def [symmetric]
        lit_def [simplified, symmetric] Let_def split: if_splits)
  ultimately show ?thesis
    by (elim disjE)
       (simp_all add: weigh text_weight_Join renderJSONPath_def text_weight_concat jsonKey_weight comp_def)
qed

lemma byte_eq_iff: "c = c' \<longleftrightarrow> byte_of c = (byte_of c' :: nat)"
  by simp

lemma byte_weight_code:
  "byte_weight c = (if byte_of c = (95::nat) then 100 else if byte_of c \<in> {68, 100, 72, 104::nat} then 1 else 0)"
  by (simp add: byte_weight_def byte_eq_iff [of c])

lemma byte_weight_upper: "byte_weight (upper_byte c) = byte_weight c"
proof (cases "is_lower c")
  case True
  then have r: "97 \<le> (byte_of c :: nat)" "(byte_of c :: nat) \<le> 122"
    by (simp_all add: is_lower_def byte_in_def)
  then have "byte_of (upper_byte c) = (byte_of c - 32 :: nat)"
    using True by (simp add: upper_byte_def)
  with r show ?thesis by (auto simp: byte_weight_code)
qed (simp add: upper_byte_def)

lemma builtin_shrinks:
  assumes "single_use d" "builtin_funcs uni name = Some h" "h d args = Ok w"
  shows "text_weight w < text_weight name + text_weight args"
proof -
  have m: "d \<noteq> ''mssql''" using assms(1) by (simp add: single_use_def)
  consider "name = ''NOW_UTC''" "h = vfNowUTC" | "name = ''REGEXP_TEXT_SEARCH''" "h = vfRegexpTextSearch uni"
    | "name = ''DATE_ADD_MILLIS''" "h = vfDateAddMillis" | "name = ''DATE_DIFF_MILLIS''" "h = vfDateDiffMillis"
    | "name = ''LIMIT_OFFSET''" "h = vfLimitOffset" | "name = ''JSON_FIELD''" "h = vfJSONField"
    using assms(2) by (simp add: builtin_funcs_def split: if_splits)
  then show ?thesis
  proof cases
    case 1
    with vfNowUTC_weight [OF assms(1)] assms(3) show ?thesis by (fastforce simp: weigh)
  next
    case 2
    with vfRegexpTextSearch_weight assms(3) show ?thesis by (fastforce simp: weigh)
  next
    case 3
    with two_argument_weight(1) [OF m] assms(3) show ?thesis by (fastforce simp: weigh)
  next
    case 4
    with two_argument_weight(2) [OF m] assms(3) show ?thesis by (fastforce simp: weigh)
  next
    case 5
    with two_argument_weight(3) [OF m] assms(3) show ?thesis by (fastforce simp: weigh)
  next
    case 6
    with vfJSONField_weight [OF assms(1)] assms(3) show ?thesis by (fastforce simp: weigh)
  qed
qed

interpretation builtin: shrinking_registry "builtin_funcs uni" single_use text_weight for uni
  by unfold_locales (auto simp: text_weight_def byte_weight_upper comp_def builtin_shrinks [unfolded text_weight_def])

text \<open>
  (C5) Expansion ends. With the built-in functions, on PostgreSQL, CockroachDB and SQLite (and
  any driver but MySQL, MariaDB and SQL Server, where a handler writes an argument twice), the
  repeated passes come to an end on every statement, however the calls are nested and whatever
  the replaced text joins up with; so an expansion always returns a statement or an error.
\<close>

theorem expandVirtualFuncs_returns:
  assumes "d \<notin> {''mysql'', ''mariadb'', ''mssql''}"
  shows "\<exists>out. expandVirtualFuncs d (builtin_funcs uni) q = Some out"
  using builtin.expansion_returns assms unfolding single_use_def .

theorem expandVirtualFuncs_returns_witness:
  "\<exists>out. expandVirtualFuncs ''pgx'' (builtin_funcs (\<lambda>s. s)) ''SELECT DATE_ADD_MILLIS(NOW_UTC(), ?)'' = Some out"
  by (rule expandVirtualFuncs_returns) simp

end
