(* ===== verification/Operation_Labels.thy ===== *)
theory Operation_Labels
  imports Go_Prelude
begin

section \<open>Operation labels (telemetry.go, parseOperation)\<close>

text \<open>
  The label under which a statement is reported: its leading verb, from a bounded set of known
  verbs, and its table when the statement has a single one. The set is process-wide and shared
  by all goroutines: a call first reads it without the lock and answers from it, and only a
  verb-shaped token it does not know goes on to a second step under the lock, which reads the
  set again. The two steps are \<open>label_read\<close> and \<open>label_locked\<close>; \<open>label\<close> is a call that runs
  undisturbed, and \<open>label_step\<close> lets the steps of many calls interleave.
\<close>

definition operationOther :: string where
  "operationOther = ''OTHER''"

definition operationLabelCap :: nat where
  "operationLabelCap = 128"

definition seedOperations :: "string list" where
  "seedOperations =
     [''SELECT'', ''INSERT'', ''UPDATE'', ''DELETE'', ''REPLACE'', ''MERGE'', ''UPSERT'', ''WITH'',
      ''CREATE'', ''DROP'', ''ALTER'', ''TRUNCATE'',
      ''BEGIN'', ''COMMIT'', ''ROLLBACK'', ''SAVEPOINT'', ''BATCH'',
      ''SET'', ''PRAGMA'', ''USE'',
      ''SHOW'', ''EXPLAIN'', ''ANALYZE'',
      ''CALL'', ''EXEC'']"

text \<open>\<^verbatim>\<open>verbPattern\<close>: \<^verbatim>\<open>^[A-Z][A-Z0-9_]{0,31}$\<close>.\<close>

definition verbPattern :: "string \<Rightarrow> bool" where
  "verbPattern s \<longleftrightarrow> (case s of [] \<Rightarrow> False
     | c # cs \<Rightarrow> is_upper c \<and> length cs \<le> 31 \<and>
                 list_all (\<lambda>x. is_upper x \<or> is_digit x \<or> x = CHR ''_'') cs)"

record operationLabels =
  known :: "string set"
  capExceeded :: bool

definition newOperationLabels :: "string list \<Rightarrow> operationLabels" where
  "newOperationLabels seed = \<lparr>known = set seed, capExceeded = False\<rparr>"

definition defaultOperationLabels :: operationLabels where
  "defaultOperationLabels = newOperationLabels seedOperations"

definition label_read :: "operationLabels \<Rightarrow> string \<Rightarrow> string option" where
  "label_read o1 token =
     (if token \<in> known o1 then Some token
      else if \<not> verbPattern token then Some operationOther
      else None)"

definition label_locked :: "operationLabels \<Rightarrow> string \<Rightarrow> operationLabels \<times> string" where
  "label_locked o1 token =
     (if token \<in> known o1 then (o1, token)
      else if card (known o1) \<ge> operationLabelCap then (o1\<lparr>capExceeded := True\<rparr>, operationOther)
      else (o1\<lparr>known := insert token (known o1)\<rparr>, token))"

definition label :: "operationLabels \<Rightarrow> string \<Rightarrow> operationLabels \<times> string" where
  "label o1 token = (case label_read o1 token of Some l \<Rightarrow> (o1, l) | None \<Rightarrow> label_locked o1 token)"

subsection \<open>The verb and the table of a statement\<close>

definition isSQLSpace :: "char \<Rightarrow> bool" where
  "isSQLSpace c \<longleftrightarrow> c = CHR '' '' \<or> c = CHR 0x09 \<or> c = CHR 0x0D \<or> c = CHR 0x0A"

definition isIdentDelim :: "char \<Rightarrow> bool" where
  "isIdentDelim c \<longleftrightarrow> isSQLSpace c \<or> c = CHR '','' \<or> c = CHR ''('' \<or> c = CHR '')'' \<or> c = CHR '';''"

definition sqlSpaces :: string where
  "sqlSpaces = [CHR '' '', CHR 0x09, CHR 0x0D, CHR 0x0A]"

text \<open>The loops over positions of \<^verbatim>\<open>identAt\<close>, on the rest of the text from each position.\<close>

definition identAt :: "string \<Rightarrow> nat \<Rightarrow> string" where
  "identAt s start =
     (let rest = dropWhile isSQLSpace (drop start s) in
      if rest = [] \<or> hd rest = CHR ''('' then []
      else
        let tok = takeWhile (\<lambda>c. \<not> isIdentDelim c) rest;
            after = dropWhile isSQLSpace (dropWhile (\<lambda>c. \<not> isIdentDelim c) rest) in
        if after \<noteq> [] \<and> hd after = CHR '','' then []
        else TrimSet tok [backtick, quote2, CHR ''['', CHR '']''])"

definition tableAfter :: "string \<Rightarrow> string \<Rightarrow> string \<Rightarrow> string" where
  "tableAfter s upper keyword =
     (case Index upper keyword of None \<Rightarrow> [] | Some i \<Rightarrow> identAt s (i + length keyword))"

text \<open>The switch on the verb: \<open>None\<close> is the default branch, which reports no table.\<close>

definition tableFor :: "string \<Rightarrow> string \<Rightarrow> string \<Rightarrow> nat \<Rightarrow> string option" where
  "tableFor op s upper end =
     (if op = ''SELECT'' \<or> op = ''DELETE'' then Some (tableAfter s upper '' FROM '')
      else if op = ''INSERT'' \<or> op = ''REPLACE'' \<or> op = ''UPSERT'' then Some (tableAfter s upper '' INTO '')
      else if op = ''UPDATE'' \<or> op = ''MERGE'' then Some (identAt s end)
      else None)"

definition parseOperation ::
  "(string \<Rightarrow> string) \<Rightarrow> operationLabels \<Rightarrow> string \<Rightarrow> operationLabels \<times> string \<times> string" where
  "parseOperation uni o1 query =
     (let s = TrimLeftSet query sqlSpaces in
      if s = [] then (o1, [], [])
      else
        let verb = takeWhile (\<lambda>c. \<not> isSQLSpace c) s;
            end = length verb;
            (o2, op) = label o1 (ToUpper uni (TrimRightSet verb '';'')) in
        if op = operationOther then (o2, op, [])
        else
          let upper = ToUpper uni s in
          case tableFor op s upper end of
            None \<Rightarrow> (o2, op, [])
          | Some t \<Rightarrow> if Contains upper '' JOIN '' then (o2, op, []) else (o2, op, t))"

subsection \<open>The invariant of the label set\<close>

definition labels_ok :: "operationLabels \<Rightarrow> bool" where
  "labels_ok o1 \<longleftrightarrow> finite (known o1) \<and> card (known o1) \<le> operationLabelCap \<and>
     set seedOperations \<subseteq> known o1 \<and> (\<forall>l \<in> known o1. verbPattern l)"

lemma defaultOperationLabels_ok: "labels_ok defaultOperationLabels"
proof -
  have "card (known defaultOperationLabels) \<le> operationLabelCap" by code_simp
  moreover have "list_all verbPattern seedOperations" by code_simp
  ultimately show ?thesis
    by (auto simp: labels_ok_def defaultOperationLabels_def newOperationLabels_def list_all_iff)
qed

lemma label_locked_ok:
  assumes "labels_ok o1" "verbPattern token" "label_locked o1 token = (o2, l)"
  shows "labels_ok o2 \<and> known o1 \<subseteq> known o2 \<and> l \<in> insert operationOther (known o2)"
  using assms by (auto simp: labels_ok_def label_locked_def split: if_splits)

lemma label_read_cases:
  assumes "labels_ok o1"
  shows "label_read o1 token = Some l \<Longrightarrow> l \<in> insert operationOther (known o1)"
    and "label_read o1 token = None \<Longrightarrow> verbPattern token"
  using assms by (auto simp: label_read_def split: if_splits)

lemma label_ok:
  assumes "labels_ok o1" "label o1 token = (o2, l)"
  shows "labels_ok o2 \<and> known o1 \<subseteq> known o2 \<and> l \<in> insert operationOther (known o2)"
proof (cases "label_read o1 token")
  case None
  with assms label_locked_ok [OF assms(1) label_read_cases(2) [OF assms(1) None]] show ?thesis
    by (simp add: label_def)
next
  case (Some l')
  with assms label_read_cases(1) [OF assms(1) Some] show ?thesis by (simp add: label_def)
qed

lemma label_seed:
  assumes "labels_ok o1" "token \<in> set seedOperations"
  shows "label o1 token = (o1, token)"
  using assms by (auto simp: label_def label_read_def labels_ok_def)

subsection \<open>Interleaved calls\<close>

text \<open>The token \<open>parseOperation\<close> asks the label of, unless the statement is empty.\<close>

definition verb_token :: "(string \<Rightarrow> string) \<Rightarrow> string \<Rightarrow> string option" where
  "verb_token uni query =
     (let s = TrimLeftSet query sqlSpaces in
      if s = [] then None
      else Some (ToUpper uni (TrimRightSet (takeWhile (\<lambda>c. \<not> isSQLSpace c) s) '';'')))"

lemma parseOperation_op:
  "parseOperation uni o1 query = (o2, op, table) \<Longrightarrow>
     (case verb_token uni query of None \<Rightarrow> o2 = o1 \<and> op = [] | Some token \<Rightarrow> label o1 token = (o2, op))"
  by (auto simp: parseOperation_def verb_token_def Let_def split: if_splits prod.splits option.splits)

text \<open>
  The shared set, the tokens of the calls of \<open>parseOperation\<close> between their unlocked read and their locked
  step, and every operation reported so far. An empty statement is reported with the empty operation.
\<close>

record label_state =
  labels :: operationLabels
  waiting :: "string list"
  reported :: "string set"

inductive label_step :: "(string \<Rightarrow> string) \<Rightarrow> label_state \<Rightarrow> label_state \<Rightarrow> bool" for uni where
  empty: "verb_token uni query = None \<Longrightarrow>
    label_step uni s (s\<lparr>reported := insert [] (reported s)\<rparr>)"
| answer: "verb_token uni query = Some token \<Longrightarrow> label_read (labels s) token = Some l \<Longrightarrow>
    label_step uni s (s\<lparr>reported := insert l (reported s)\<rparr>)"
| miss: "verb_token uni query = Some token \<Longrightarrow> label_read (labels s) token = None \<Longrightarrow>
    label_step uni s (s\<lparr>waiting := token # waiting s\<rparr>)"
| locked: "token \<in> set (waiting s) \<Longrightarrow> label_locked (labels s) token = (o2, l) \<Longrightarrow>
    label_step uni s (s\<lparr>labels := o2, waiting := remove1 token (waiting s), reported := insert l (reported s)\<rparr>)"

inductive_cases label_stepE: "label_step uni s s'"

text \<open>A call that runs undisturbed is one of these runs.\<close>

lemma parseOperation_steps:
  assumes "parseOperation uni (labels s) query = (o2, op, table)"
  shows "(label_step uni)\<^sup>*\<^sup>* s (s\<lparr>labels := o2, reported := insert op (reported s)\<rparr>)"
proof (cases "verb_token uni query")
  case None
  with parseOperation_op [OF assms] label_step.empty [OF None, of s] show ?thesis by (auto intro: r_into_rtranclp)
next
  case (Some token)
  with parseOperation_op [OF assms] have l: "label (labels s) token = (o2, op)" by simp
  show ?thesis
  proof (cases "label_read (labels s) token")
    case None
    let ?s1 = "s\<lparr>waiting := token # waiting s\<rparr>"
    have "label_step uni s ?s1" using Some None by (rule label_step.miss)
    moreover have "label_step uni ?s1 (?s1\<lparr>labels := o2, waiting := remove1 token (waiting ?s1), reported := insert op (reported ?s1)\<rparr>)"
      using l None by (intro label_step.locked) (simp_all add: label_def)
    ultimately show ?thesis by (simp add: converse_rtranclp_into_rtranclp r_into_rtranclp)
  next
    case (Some l')
    with l \<open>verb_token uni query = Some token\<close> label_step.answer [of uni query token s l'] show ?thesis
      by (auto simp: label_def intro: r_into_rtranclp)
  qed
qed

definition label_start :: label_state where
  "label_start = \<lparr>labels = defaultOperationLabels, waiting = [], reported = {}\<rparr>"

definition label_inv :: "label_state \<Rightarrow> bool" where
  "label_inv s \<longleftrightarrow> labels_ok (labels s) \<and> list_all verbPattern (waiting s) \<and>
     reported s \<subseteq> insert [] (insert operationOther (known (labels s)))"

lemma label_step_inv: "label_step uni s s' \<Longrightarrow> label_inv s \<Longrightarrow> label_inv s'"
proof (induction rule: label_step.induct)
  case (empty query s)
  then show ?case by (auto simp: label_inv_def)
next
  case (answer query token s l)
  then show ?case using label_read_cases(1) [of "labels s" token l] by (auto simp: label_inv_def)
next
  case (miss query token s)
  then show ?case using label_read_cases(2) [of "labels s" token] by (auto simp: label_inv_def)
next
  case (locked token s o2 l)
  then have "verbPattern token" by (auto simp: label_inv_def list_all_iff)
  with locked label_locked_ok [of "labels s" token o2 l] show ?case
    by (auto simp: label_inv_def list_all_iff dest: notin_set_remove1)
qed

lemma label_start_inv: "label_inv label_start"
  by (simp add: label_inv_def label_start_def defaultOperationLabels_ok)

lemma label_reachable_inv: "(label_step uni)\<^sup>*\<^sup>* label_start s \<Longrightarrow> label_inv s"
  by (induction rule: rtranclp_induct) (simp_all add: label_start_inv label_step_inv)

lemma verb_length: "verbPattern l \<Longrightarrow> l \<noteq> [] \<and> length l \<le> 32"
  by (auto simp: verbPattern_def split: list.splits)

lemma label_inv_bound:
  assumes "label_inv s"
  shows "finite (reported s) \<and> card (reported s) \<le> 130 \<and> (\<forall>l \<in> reported s. length l \<le> 32)"
proof -
  note inv = assms [unfolded label_inv_def labels_ok_def]
  then have "card (reported s) \<le> card (insert [] (insert operationOther (known (labels s))))"
    by (intro card_mono) auto
  also have "\<dots> \<le> 130"
    using inv card_insert_le_m1 [of 129 "known (labels s)" operationOther]
      card_insert_le_m1 [of 130 "insert operationOther (known (labels s))" "[]"] by (simp add: operationLabelCap_def)
  finally show ?thesis
    using inv verb_length by (auto intro: finite_subset simp: operationOther_def)
qed

text \<open>
  (C32) Bounded labels. However the calls of \<open>parseOperation\<close> by many goroutines interleave, and whatever
  statements they parse, a process reports at most 130 distinct operations, none longer than 32 bytes: at most
  128 verbs, \<^verbatim>\<open>OTHER\<close>, and the empty operation of an empty statement. One more call, undisturbed, stays within the
  bound.
\<close>

theorem reported_labels_bounded:
  assumes "(label_step uni)\<^sup>*\<^sup>* label_start s" and "parseOperation uni (labels s) query = (o2, op, table)"
  shows "finite (reported s) \<and> card (insert op (reported s)) \<le> 130 \<and> (\<forall>l \<in> insert op (reported s). length l \<le> 32)"
proof -
  have "(label_step uni)\<^sup>*\<^sup>* label_start (s\<lparr>labels := o2, reported := insert op (reported s)\<rparr>)"
    using assms(1) parseOperation_steps [OF assms(2)] by (rule rtranclp_trans)
  from label_inv_bound [OF label_reachable_inv [OF this]] show ?thesis by simp
qed

theorem reported_labels_bounded_witness:
  "parseOperation (\<lambda>s. s) (labels label_start) ''vacuum;'' =
     (defaultOperationLabels\<lparr>known := insert ''VACUUM'' (set seedOperations)\<rparr>, ''VACUUM'', []) \<and>
   card (insert ''VACUUM'' (reported (label_start\<lparr>reported := {[]}\<rparr>))) \<le> 130"
proof -
  let ?s = "label_start\<lparr>reported := insert [] (reported label_start)\<rparr>"
  have p: "parseOperation (\<lambda>s. s) (labels label_start) ''vacuum;'' =
     (defaultOperationLabels\<lparr>known := insert ''VACUUM'' (set seedOperations)\<rparr>, ''VACUUM'', [])"
    unfolding parseOperation_def by code_simp
  have "label_step (\<lambda>s. s) label_start ?s"
    by (rule label_step.empty [of _ "'' ''"]) code_simp
  then have "(label_step (\<lambda>s. s))\<^sup>*\<^sup>* label_start ?s" by (rule r_into_rtranclp)
  from reported_labels_bounded [OF this] p show ?thesis by (auto simp: label_start_def)
qed

text \<open>
  Seeded verbs are always reported verbatim, at every reachable state of the process: no
  statement and no schedule can crowd them out, and reporting one changes nothing.
\<close>

theorem seeded_verbs_verbatim:
  assumes "(label_step uni)\<^sup>*\<^sup>* label_start s" and "token \<in> set seedOperations"
  shows "label_read (labels s) token = Some token \<and> label (labels s) token = (labels s, token)"
  using label_reachable_inv [OF assms(1)] label_seed [of "labels s" token] assms(2)
  by (auto simp: label_inv_def labels_ok_def label_read_def)

theorem seeded_verbs_verbatim_witness:
  "label (labels label_start) ''SELECT'' = (labels label_start, ''SELECT'')"
  using seeded_verbs_verbatim [OF rtranclp.rtrancl_refl, of "''SELECT''"] by (simp add: seedOperations_def)

subsection \<open>Tables\<close>

lemma set_dropWhile_subset: "set (dropWhile P xs) \<subseteq> set xs"
  by (induction xs) auto

lemma TrimSet_subset: "set (TrimSet s cs) \<subseteq> set s"
  using set_dropWhile_subset [of "\<lambda>c. c \<in> set cs" s]
    set_dropWhile_subset [of "\<lambda>c. c \<in> set cs" "rev (dropWhile (\<lambda>c. c \<in> set cs) s)"]
  by (auto simp: TrimSet_def TrimLeftSet_def TrimRightSet_def)

lemma identAt_no_delim: "c \<in> set (identAt s n) \<Longrightarrow> \<not> isIdentDelim c"
  using TrimSet_subset by (fastforce simp: identAt_def Let_def split: if_splits dest: set_takeWhileD)

lemma tableAfter_no_delim: "c \<in> set (tableAfter s u k) \<Longrightarrow> \<not> isIdentDelim c"
  by (auto simp: tableAfter_def split: option.splits dest: identAt_no_delim)

text \<open>
  (C33) A reported table is a plain name. The table is only ever given for the seven verbs with a
  single target, never when the upper-cased statement holds the word \<^verbatim>\<open>JOIN\<close> between two spaces, and it has no
  white space, comma, parenthesis or semicolon in it, so a span name cannot carry a subquery or a list.
\<close>

theorem parseOperation_table:
  assumes "parseOperation uni o1 query = (o2, op, table)" and "table \<noteq> []"
  shows "op \<in> {''SELECT'', ''DELETE'', ''INSERT'', ''REPLACE'', ''UPSERT'', ''UPDATE'', ''MERGE''} \<and>
         \<not> Contains (ToUpper uni (TrimLeftSet query sqlSpaces)) '' JOIN '' \<and>
         list_all (\<lambda>c. \<not> isIdentDelim c) table"
proof -
  define u where "u = TrimLeftSet query sqlSpaces"
  from assms obtain n where t: "tableFor op u (ToUpper uni u) n = Some table"
    and j: "\<not> Contains (ToUpper uni u) '' JOIN ''"
    by (auto simp: parseOperation_def u_def [symmetric] Let_def split: if_splits prod.splits option.splits)
  have "op \<in> {''SELECT'', ''DELETE'', ''INSERT'', ''REPLACE'', ''UPSERT'', ''UPDATE'', ''MERGE''}"
    by (rule ccontr) (use t in \<open>simp add: tableFor_def\<close>)
  moreover from t have "(\<exists>u s k. table = tableAfter s u k) \<or> (\<exists>s n. table = identAt s n)"
    unfolding tableFor_def by (metis option.distinct(1) option.inject)
  then have "list_all (\<lambda>c. \<not> isIdentDelim c) table"
    by (auto simp: list_all_iff dest: identAt_no_delim tableAfter_no_delim)
  ultimately show ?thesis using j by (simp add: u_def)
qed

theorem parseOperation_table_witness:
  "parseOperation (\<lambda>s. s) defaultOperationLabels ''select * from [users] where id=?'' =
     (defaultOperationLabels, ''SELECT'', ''users'') \<and>
   list_all (\<lambda>c. \<not> isIdentDelim c) ''users''"
proof -
  have p: "parseOperation (\<lambda>s. s) defaultOperationLabels ''select * from [users] where id=?'' =
     (defaultOperationLabels, ''SELECT'', ''users'')"
    unfolding parseOperation_def by code_simp
  from parseOperation_table [OF p] p show ?thesis by blast
qed

text \<open>Other white space around the word does not count: this statement joins, and is reported with a table.\<close>

lemma join_after_newline:
  "parseOperation (\<lambda>s. s) defaultOperationLabels (''SELECT * FROM a'' @ [CHR 0x0A] @ ''JOIN b ON a.i=b.i'') =
     (defaultOperationLabels, ''SELECT'', ''a'')"
  unfolding parseOperation_def by code_simp

end
