(* ===== verification/Query_Cache.thy ===== *)
theory Query_Cache
  imports Placeholders Virtual_Funcs Operation_Labels "HOL-Library.Word"
begin

section \<open>Prepared statements and their cache (querycache.go)\<close>

text \<open>
  A statement is unpacked once: its virtual functions are expanded, its placeholders numbered and
  its telemetry labels derived. The result is kept in a cache of bounded size with CLOCK
  replacement.

  Entries are shared by pointer: the map \<open>entries\<close> and the \<open>ring\<close> hold the same objects, and the
  flag \<open>referenced\<close> of an object is set by hits without the lock. The model has a heap of prepared
  queries and addresses; the cache holds addresses only. The sweep of the CLOCK hand takes the
  interference of other goroutines as an argument \<open>env\<close>: \<open>env n a\<close> says that the flag of \<open>a\<close> has
  been set by a hit before the sweep reads it with \<open>n\<close> iterations left; a sweep that runs alone
  has \<open>env = (\<lambda>_ _. False)\<close>. The generation counter is the 64-bit word it is in the code.
\<close>

record queryKey =
  key_driver :: string
  key_query :: string

type_synonym attributes = "(string \<times> string) list"

text \<open>\<^verbatim>\<open>preparedQuery\<close>. The telemetry options are the attributes they carry.\<close>

record preparedQuery =
  pq_key :: queryKey
  pq_text :: string
  pq_err :: "error option"
  pq_op :: string
  spanName :: string
  spanOptions :: attributes
  recordOK :: attributes
  recordFailed :: attributes
  addContention :: attributes
  referenced :: bool

subsection \<open>Unpacking a statement\<close>

definition introduced_placeholder :: error where
  "introduced_placeholder =
     NewError ''a virtual function introduced a ? placeholder, which cannot be numbered on SQL Server''"

text \<open>The first half of \<^verbatim>\<open>newPreparedQuery\<close>: the unpacked text or the error. \<open>None\<close> is an expansion
  that does not end.\<close>

definition unpack :: "registry \<Rightarrow> string \<Rightarrow> string \<Rightarrow> string outcome option" where
  "unpack vfs driverName query =
     (if driverName = ''mssql'' then
        case expandVirtualFuncs driverName vfs (conformPlaceholders driverName query) of
          Some (Ok expanded) \<Rightarrow>
            if conformPlaceholders driverName expanded \<noteq> expanded then Some (Err introduced_placeholder)
            else Some (Ok expanded)
        | r \<Rightarrow> r
      else
        case expandVirtualFuncs driverName vfs query of
          Some (Ok expanded) \<Rightarrow> Some (Ok (conformPlaceholders driverName expanded))
        | r \<Rightarrow> r)"

text \<open>The second half: labels. The text is the statement as given when unpacking failed.\<close>

definition labelled :: "string \<Rightarrow> string \<Rightarrow> string \<Rightarrow> error option \<Rightarrow> string \<Rightarrow> string \<Rightarrow> preparedQuery" where
  "labelled driverName query text err op table =
     (let system = (''db.system.name'', driverName); operation = (''db.operation.name'', op) in
      \<lparr>pq_key = \<lparr>key_driver = driverName, key_query = query\<rparr>, pq_text = text, pq_err = err, pq_op = op,
       spanName = (if table \<noteq> [] then op @ '' '' @ table else op),
       spanOptions = [system, operation] @ (if table \<noteq> [] then [(''db.collection.name'', table)] else []),
       recordOK = [system, operation, (''status'', ''ok'')],
       recordFailed = [system, operation, (''status'', ''error'')],
       addContention = [system, operation],
       referenced = False\<rparr>)"

definition newPreparedQuery ::
  "(string \<Rightarrow> string) \<Rightarrow> registry \<Rightarrow> operationLabels \<Rightarrow> string \<Rightarrow> string \<Rightarrow>
   (operationLabels \<times> preparedQuery) outcome option" where
  "newPreparedQuery uni vfs o1 driverName query =
     (case unpack vfs driverName query of
        None \<Rightarrow> None
      | Some Panic \<Rightarrow> Some Panic
      | Some r \<Rightarrow>
        let (text, err) = (case r of Ok expanded \<Rightarrow> (expanded, None) | Err e \<Rightarrow> (query, Some e));
            (o2, op, table) = parseOperation uni o1 text in
        Some (Ok (o2, labelled driverName query text err op table)))"

subsection \<open>The cache\<close>

type_synonym addr = nat
type_synonym heap = "addr \<Rightarrow> preparedQuery"

record queryCache =
  capacity :: nat
  entries :: "queryKey \<rightharpoonup> addr"
  ring :: "addr list"
  hand :: nat
  generation :: "64 word"

definition queryCacheSize :: int where
  "queryCacheSize = 4096"

definition newQueryCache :: "int \<Rightarrow> queryCache" where
  "newQueryCache n = \<lparr>capacity = nat (max n 0), entries = Map.empty, ring = [], hand = 0, generation = 0\<rparr>"

abbreviation mark :: "bool \<Rightarrow> addr \<Rightarrow> heap \<Rightarrow> heap" where
  "mark b a h \<equiv> h(a := (h a)\<lparr>referenced := b\<rparr>)"

text \<open>The CLOCK sweep with \<open>n\<close> iterations left.\<close>

fun sweep :: "(nat \<Rightarrow> addr \<Rightarrow> bool) \<Rightarrow> nat \<Rightarrow> heap \<Rightarrow> queryCache \<Rightarrow> heap \<times> queryCache" where
  "sweep env 0 h c = (h, c)"
| "sweep env (Suc n) h c =
     (let a = ring c ! hand c in
      if \<not> (referenced (h a) \<or> env n a) then (h, c)
      else sweep env n (mark False a h) (c\<lparr>hand := (hand c + 1) mod capacity c\<rparr>))"

definition evict :: "(nat \<Rightarrow> addr \<Rightarrow> bool) \<Rightarrow> heap \<Rightarrow> queryCache \<Rightarrow> addr \<Rightarrow> heap \<times> queryCache" where
  "evict env h c a =
     (let (h1, c1) = sweep env (2 * capacity c) h c; victim = ring c1 ! hand c1 in
      (h1, c1\<lparr>entries := (entries c1)(pq_key (h1 victim) := None),
              ring := (ring c1)[hand c1 := a],
              hand := (hand c1 + 1) mod capacity c1\<rparr>))"

definition insert_entry ::
  "(nat \<Rightarrow> addr \<Rightarrow> bool) \<Rightarrow> heap \<Rightarrow> queryCache \<Rightarrow> addr \<Rightarrow> 64 word \<Rightarrow> (heap \<times> queryCache) \<times> addr" where
  "insert_entry env h c a gen =
     (if generation c \<noteq> gen then ((h, c), a)
      else case entries c (pq_key (h a)) of
        Some b \<Rightarrow> ((h, c), b)
      | None \<Rightarrow>
        let (h1, c1) = (if length (ring c) < capacity c then (h, c\<lparr>ring := ring c @ [a]\<rparr>) else evict env h c a) in
        ((h1, c1\<lparr>entries := (entries c1)(pq_key (h a) \<mapsto> a)\<rparr>), a))"

definition clear :: "queryCache \<Rightarrow> queryCache" where
  "clear c = c\<lparr>generation := generation c + 1, entries := Map.empty, ring := [], hand := 0\<rparr>"

definition len :: "queryCache \<Rightarrow> nat" where
  "len c = length (ring c)"

text \<open>
  A lookup that runs alone, on the heap with \<open>a\<close> its next free address: the address of the prepared
  query, with the heap, the cache and the labels after it. Without a cache, or with capacity
  zero, every lookup computes.
\<close>

definition lookup ::
  "(string \<Rightarrow> string) \<Rightarrow> registry \<Rightarrow> heap \<Rightarrow> addr \<Rightarrow> queryCache option \<Rightarrow> operationLabels \<Rightarrow>
   string \<Rightarrow> string \<Rightarrow> (heap \<times> queryCache option \<times> operationLabels \<times> addr) outcome option" where
  "lookup uni vfs h a cache o1 driverName query =
     (let compute = newPreparedQuery uni vfs o1 driverName query in
      case cache of
        Some c \<Rightarrow>
          if capacity c = 0 then
            map_option (\<lambda>r. case r of Ok (o2, pq) \<Rightarrow> Ok (h(a := pq), cache, o2, a) | Err e \<Rightarrow> Err e | Panic \<Rightarrow> Panic) compute
          else (case entries c \<lparr>key_driver = driverName, key_query = query\<rparr> of
            Some b \<Rightarrow> Some (Ok (if referenced (h b) then h else mark True b h, cache, o1, b))
          | None \<Rightarrow>
            map_option (\<lambda>r. case r of
                Ok (o2, pq) \<Rightarrow>
                  (case insert_entry (\<lambda>_ _. False) (h(a := pq)) c a (generation c) of
                     ((h', c'), b) \<Rightarrow> Ok (h', Some c', o2, b))
              | Err e \<Rightarrow> Err e
              | Panic \<Rightarrow> Panic) compute)
      | None \<Rightarrow>
          map_option (\<lambda>r. case r of Ok (o2, pq) \<Rightarrow> Ok (h(a := pq), cache, o2, a) | Err e \<Rightarrow> Err e | Panic \<Rightarrow> Panic) compute)"

end
