(* ===== verification/Cache_Clock.thy ===== *)
theory Cache_Clock
  imports Query_Cache
begin

section \<open>The statement cache: invariant and replacement\<close>

text \<open>
  The invariant of the cache (the map and the ring hold the same entries under distinct keys, the
  ring is within the capacity, the hand on it, at its start until the ring is full) with its preservation by \<open>insert\<close>, under any
  interference of hits, and by \<open>clear\<close>; and which entry the CLOCK sweep gives up.
\<close>

definition cache_inv :: "heap \<Rightarrow> queryCache \<Rightarrow> bool" where
  "cache_inv h c \<longleftrightarrow>
     length (ring c) \<le> capacity c \<and> (0 < capacity c \<longrightarrow> hand c < capacity c) \<and>
     (length (ring c) < capacity c \<longrightarrow> hand c = 0) \<and>
     distinct (map (\<lambda>a. pq_key (h a)) (ring c)) \<and>
     (\<forall>k a. entries c k = Some a \<longleftrightarrow> a \<in> set (ring c) \<and> pq_key (h a) = k)"

definition same_keys :: "heap \<Rightarrow> heap \<Rightarrow> bool" where
  "same_keys h h' \<longleftrightarrow> (\<forall>a. (h' a)\<lparr>referenced := False\<rparr> = (h a)\<lparr>referenced := False\<rparr>)"

lemma same_keys_refl [simp]: "same_keys h h"
  by (simp add: same_keys_def)

lemma same_keys_trans: "same_keys h h1 \<Longrightarrow> same_keys h1 h2 \<Longrightarrow> same_keys h h2"
  by (simp add: same_keys_def)

lemma same_keys_mark [simp]: "same_keys h (mark b a h)"
  by (simp add: same_keys_def)

lemma same_keysD:
  assumes "same_keys h h'"
  shows "pq_key (h' a) = pq_key (h a)" "pq_text (h' a) = pq_text (h a)" "pq_err (h' a) = pq_err (h a)"
proof -
  from assms have eq: "(h' a)\<lparr>referenced := False\<rparr> = (h a)\<lparr>referenced := False\<rparr>" by (simp add: same_keys_def)
  show "pq_key (h' a) = pq_key (h a)" using arg_cong [OF eq, of pq_key] by simp
  show "pq_text (h' a) = pq_text (h a)" using arg_cong [OF eq, of pq_text] by simp
  show "pq_err (h' a) = pq_err (h a)" using arg_cong [OF eq, of pq_err] by simp
qed

lemma cache_inv_same_keys: "same_keys h h' \<Longrightarrow> cache_inv h' c = cache_inv h c"
  by (simp add: cache_inv_def same_keysD)

lemma cache_inv_new: "cache_inv h (newQueryCache n)"
  by (auto simp: cache_inv_def newQueryCache_def max_def)

lemma cache_inv_clear: "cache_inv h c \<Longrightarrow> cache_inv h (clear c)"
  by (auto simp: cache_inv_def clear_def)

text \<open>The hand stands on an entry, unless there is none.\<close>

lemma cache_inv_hand: "cache_inv h c \<Longrightarrow> 0 < capacity c \<Longrightarrow> hand c < length (ring c) \<or> ring c = [] \<and> hand c = 0"
  by (cases "length (ring c) < capacity c"; cases "ring c") (auto simp: cache_inv_def)

subsection \<open>The sweep\<close>

lemma sweep_frame:
  "sweep env n h c = (h1, c1) \<Longrightarrow> hand c < capacity c \<Longrightarrow>
   same_keys h h1 \<and> hand c1 < capacity c \<and> c1 = c\<lparr>hand := hand c1\<rparr>"
proof (induction env n h c rule: sweep.induct)
  case (2 env n h c)
  show ?case
  proof (cases "referenced (h (ring c ! hand c)) \<or> env n (ring c ! hand c)")
    case True
    let ?a = "ring c ! hand c"
    have "sweep env n (mark False ?a h) (c\<lparr>hand := (hand c + 1) mod capacity c\<rparr>) = (h1, c1)"
      using True 2(2) by (auto simp: Let_def split: if_splits)
    with 2(1) [OF refl _ this] True 2(3)
    have "same_keys (mark False ?a h) h1" "hand c1 < capacity c" "c1 = c\<lparr>hand := hand c1\<rparr>"
      by (simp_all add: fun_upd_def)
    with same_keys_trans [OF same_keys_mark] show ?thesis by blast
  qed (use 2 in auto)
qed auto

lemma ring_nth_key_inj:
  assumes "distinct (map f xs)" "i < length xs" "x \<in> set xs" "f x = f (xs ! i)"
  shows "x = xs ! i"
  using assms by (metis (no_types, lifting) distinct_map inj_onD nth_mem)

lemma cache_inv_free: "cache_inv h c \<Longrightarrow> entries c k = None \<Longrightarrow> x \<in> set (ring c) \<Longrightarrow> pq_key (h x) \<noteq> k"
  unfolding cache_inv_def by (metis option.distinct(1))

lemma cache_inv_free_image:
  "cache_inv h c \<Longrightarrow> entries c k = None \<Longrightarrow> k \<notin> (\<lambda>x. pq_key (h x)) ` set (ring c)"
  using cache_inv_free by blast

text \<open>Replacing an entry under the hand and entering the new one keeps the map and the ring together.\<close>

lemma cache_inv_replace:
  assumes inv: "cache_inv h c" and i: "i < length (ring c)" and free: "entries c (pq_key (h a)) = None"
    and hd: "j < capacity c" and full: "length (ring c) = capacity c"
  shows "cache_inv h (c\<lparr>entries := ((entries c)(pq_key (h (ring c ! i)) := None))(pq_key (h a) \<mapsto> a),
                        ring := (ring c)[i := a], hand := j\<rparr>)"
proof -
  let ?v = "ring c ! i" and ?key = "\<lambda>x. pq_key (h x)"
  have d: "distinct (map ?key (ring c))" and e: "\<And>k x. entries c k = Some x \<longleftrightarrow> x \<in> set (ring c) \<and> ?key x = k"
    using inv by (auto simp: cache_inv_def)
  note fresh = cache_inv_free [OF inv free]
  have s: "set ((ring c)[i := a]) = insert a (set (ring c) - {?v})"
    using d i by (simp add: set_update_distinct distinct_map)
  have u: "x = ?v" if "x \<in> set (ring c)" "?key x = ?key ?v" for x
    using ring_nth_key_inj [OF d i] that by simp
  have "distinct (map ?key ((ring c)[i := a]))"
    unfolding map_update by (rule distinct_list_update [OF d]) (use cache_inv_free_image [OF inv free] in simp)
  moreover have "(((entries c)(?key ?v := None))(?key a \<mapsto> a)) k = Some x \<longleftrightarrow>
      x \<in> set ((ring c)[i := a]) \<and> ?key x = k" for k x
  proof (cases "k = ?key a")
    case True
    then show ?thesis using fresh [of x] unfolding s by auto
  next
    case False
    then have "(((entries c)(?key ?v := None))(?key a \<mapsto> a)) k = Some x \<longleftrightarrow>
        k \<noteq> ?key ?v \<and> x \<in> set (ring c) \<and> ?key x = k"
      using e [of k x] by auto
    also have "\<dots> \<longleftrightarrow> x \<in> set ((ring c)[i := a]) \<and> ?key x = k"
      using False u [of x] unfolding s by auto
    finally show ?thesis .
  qed
  ultimately show ?thesis using inv hd full by (simp add: cache_inv_def)
qed

lemma cache_inv_append:
  assumes inv: "cache_inv h c" and room: "length (ring c) < capacity c" and free: "entries c (pq_key (h a)) = None"
  shows "cache_inv h (c\<lparr>entries := (entries c)(pq_key (h a) \<mapsto> a), ring := ring c @ [a]\<rparr>)"
proof -
  have "(((entries c)(pq_key (h a) \<mapsto> a)) k = Some x) \<longleftrightarrow> x \<in> set (ring c @ [a]) \<and> pq_key (h x) = k" for k x
    using cache_inv_free [OF inv free, of x] inv by (auto simp: cache_inv_def)
  then show ?thesis
    using cache_inv_free_image [OF inv free] inv room by (simp add: cache_inv_def)
qed

lemma cache_inv_full:
  "cache_inv h c \<Longrightarrow> \<not> length (ring c) < capacity c \<Longrightarrow> 0 < capacity c \<Longrightarrow>
   hand c < length (ring c) \<and> length (ring c) = capacity c"
  by (auto simp: cache_inv_def)

text \<open>What an insertion does to the heap and the cache, on each of its branches.\<close>

lemma insert_entry_cases:
  assumes inv: "cache_inv h c" and cap: "0 < capacity c" and ins: "insert_entry env h c a gen = ((h', c'), b)"
  obtains (stale) "generation c \<noteq> gen" "h' = h" "c' = c" "b = a"
  | (found) "generation c = gen" "entries c (pq_key (h a)) = Some b" "h' = h" "c' = c"
  | (added) "generation c = gen" "entries c (pq_key (h a)) = None" "b = a" "same_keys h h'" "cache_inv h' c'"
      "capacity c' = capacity c" "generation c' = gen"
      "entries c' = (entries c)(pq_key (h a) \<mapsto> a) \<or>
       (\<exists>v \<in> ran (entries c). entries c' = ((entries c)(pq_key (h v) := None))(pq_key (h a) \<mapsto> a))"
proof (cases "generation c = gen \<and> entries c (pq_key (h a)) = None")
  case False
  then show thesis using ins stale found by (auto simp: insert_entry_def split: if_splits option.splits)
next
  case new: True
  show thesis
  proof (cases "length (ring c) < capacity c")
    case True
    with new ins have "h' = h" "b = a"
      "c' = c\<lparr>entries := (entries c)(pq_key (h a) \<mapsto> a), ring := ring c @ [a]\<rparr>"
      by (auto simp: insert_entry_def)
    with new cache_inv_append [OF inv True] show thesis using added by auto
  next
    case False
    obtain h1 c1 where sw: "sweep env (2 * capacity c) h c = (h1, c1)" by fastforce
    note full = cache_inv_full [OF inv False cap]
    from sweep_frame [OF sw] full have f: "same_keys h h1" "hand c1 < capacity c" "c1 = c\<lparr>hand := hand c1\<rparr>"
      by auto
    let ?v = "ring c ! hand c1"
    have r: "ring c1 = ring c" "entries c1 = entries c" "capacity c1 = capacity c" "generation c1 = generation c"
      using f(3) by (metis queryCache.select_convs queryCache.update_convs(4) queryCache.surjective)+
    let ?c2 = "c\<lparr>entries := ((entries c)(pq_key (h ?v) := None))(pq_key (h a) \<mapsto> a),
                 ring := (ring c)[hand c1 := a], hand := (hand c1 + 1) mod capacity c\<rparr>"
    have eq: "h' = h1 \<and> b = a \<and> c' = ?c2"
      using ins new False sw r f(3) same_keysD(1) [OF f(1)]
      by (auto simp: insert_entry_def evict_def)
    have "?v \<in> ran (entries c)"
      using inv full f(2) by (auto simp: cache_inv_def ran_def)
    moreover have "cache_inv h1 ?c2"
      using cache_inv_replace [OF inv, of "hand c1" a "(hand c1 + 1) mod capacity c"] new f(1,2) full
      by (simp add: cache_inv_same_keys)
    ultimately show thesis using added new eq f(1) by auto
  qed
qed

subsection \<open>Which entry goes\<close>

text \<open>The entry \<open>j\<close> places after the hand, and the heap with the flags of the first \<open>k\<close> cleared.\<close>

definition slot :: "queryCache \<Rightarrow> nat \<Rightarrow> addr" where
  "slot c j = ring c ! ((hand c + j) mod capacity c)"

definition unmarked :: "queryCache \<Rightarrow> nat \<Rightarrow> heap \<Rightarrow> heap" where
  "unmarked c k h = (\<lambda>a. if a \<in> slot c ` {..<k} then (h a)\<lparr>referenced := False\<rparr> else h a)"

lemma mod_shift_neq: "j < k \<Longrightarrow> k < m \<Longrightarrow> (i + j) mod m \<noteq> (i + k) mod (m :: nat)"
  by (metis add_diff_cancel_left add_le_cancel_left less_imp_diff_less less_imp_le mod_eq_dvd_iff_nat
      nat_dvd_not_less zero_less_diff)

lemma slot_inj:
  assumes "distinct (ring c)" "length (ring c) = capacity c" "j < k" "k < capacity c"
  shows "slot c j \<noteq> slot c k"
  using mod_shift_neq [OF assms(3,4), of "hand c"] assms by (simp add: slot_def nth_eq_iff_index_eq)

lemma sweep_passes:
  assumes "distinct (ring c)" "length (ring c) = capacity c" "hand c < capacity c"
    and "k \<le> capacity c" "k \<le> n" "\<forall>j < k. referenced (h (slot c j))"
  shows "sweep (\<lambda>_ _. False) n h c =
         sweep (\<lambda>_ _. False) (n - k) (unmarked c k h) (c\<lparr>hand := (hand c + k) mod capacity c\<rparr>)"
  using assms(4-6)
proof (induction k)
  case 0
  then show ?case using assms(3) by (simp add: unmarked_def)
next
  case (Suc k)
  let ?c = "c\<lparr>hand := (hand c + k) mod capacity c\<rparr>"
  have s: "ring c ! ((hand c + k) mod capacity c) = slot c k" by (simp add: slot_def)
  have "slot c k \<notin> slot c ` {..<k}"
    using slot_inj [OF assms(1,2), of _ k] Suc.prems by force
  then have f: "unmarked c k h (slot c k) = h (slot c k)" by (simp add: unmarked_def)
  have m: "mark False (slot c k) (unmarked c k h) = unmarked c (Suc k) h"
    using f by (auto simp: unmarked_def lessThan_Suc fun_eq_iff)
  have "n - k = Suc (n - Suc k)" using Suc.prems by simp
  then have "sweep (\<lambda>_ _. False) (n - k) (unmarked c k h) ?c =
      sweep (\<lambda>_ _. False) (n - Suc k) (unmarked c (Suc k) h) (c\<lparr>hand := (hand c + Suc k) mod capacity c\<rparr>)"
    using Suc.prems f m by (simp add: Let_def s mod_Suc_eq)
  with Suc show ?case by simp
qed

lemma cache_inv_distinct: "cache_inv h c \<Longrightarrow> distinct (ring c)"
  by (simp add: cache_inv_def distinct_map)

lemma least_clear:
  "\<exists>k \<le> m. (\<forall>j < k. P j) \<and> (k < m \<longrightarrow> \<not> P k)"
  for P :: "nat \<Rightarrow> bool"
proof (induction m)
  case (Suc m)
  then obtain k where k: "k \<le> m" "\<forall>j < k. P j" "k < m \<longrightarrow> \<not> P k" by blast
  show ?case
  proof (cases "k = m \<and> P k")
    case True
    with k show ?thesis by (intro exI [of _ "Suc m"]) (auto simp: less_Suc_eq)
  next
    case False
    with k show ?thesis by (intro exI [of _ k]) auto
  qed
qed simp

text \<open>
  (C19) Second chance. On a full cache the undisturbed sweep gives up the first entry, in ring order
  from the hand, that has not been hit since the hand last passed it; the entries it passes were
  all hit and lose their mark, no other flag changes, and when every entry was hit the sweep
  makes one full turn and gives up the one it started at.
\<close>

theorem clock_second_chance:
  assumes "cache_inv h c" and "0 < capacity c" and "length (ring c) = capacity c"
    and "sweep (\<lambda>_ _. False) (2 * capacity c) h c = (h1, c1)"
  shows "\<exists>k \<le> capacity c. (\<forall>j < k. referenced (h (slot c j))) \<and>
           (k < capacity c \<longrightarrow> \<not> referenced (h (slot c k))) \<and>
           ring c1 ! hand c1 = slot c k \<and> h1 = unmarked c k h"
proof -
  let ?m = "capacity c"
  obtain k where k: "k \<le> ?m" "\<forall>j < k. referenced (h (slot c j))" "k < ?m \<longrightarrow> \<not> referenced (h (slot c k))"
    using least_clear [of ?m "\<lambda>j. referenced (h (slot c j))"] by auto
  note d = cache_inv_distinct [OF assms(1)]
  have hd: "hand c < ?m" using assms(1,2) by (simp add: cache_inv_def)
  have e: "sweep (\<lambda>_ _. False) (2 * ?m) h c =
    sweep (\<lambda>_ _. False) (2 * ?m - k) (unmarked c k h) (c\<lparr>hand := (hand c + k) mod ?m\<rparr>)"
    using sweep_passes [OF d assms(3) hd k(1) _ k(2)] k(1) by simp
  have "2 * ?m - k = Suc (2 * ?m - k - 1)" using k(1) assms(2) by linarith
  then obtain n where n: "2 * ?m - k = Suc n" by blast
  have clear: "\<not> referenced (unmarked c k h (slot c k))"
  proof (cases "k < ?m")
    case True
    with k(3) show ?thesis by (auto simp: unmarked_def)
  next
    case False
    then have "slot c k = slot c 0" "0 < k" using k(1) assms(2) by (simp_all add: slot_def)
    then show ?thesis by (auto simp: unmarked_def)
  qed
  have "h1 = unmarked c k h" "c1 = c\<lparr>hand := (hand c + k) mod ?m\<rparr>"
    using assms(4) clear unfolding e n by (simp_all add: slot_def Let_def)
  with k show ?thesis by (intro exI [of _ k]) (simp add: slot_def)
qed

definition sample_heap :: heap where
  "sample_heap a = (labelled ''sqlite'' (replicate a (CHR ''q'')) [] None [] [])\<lparr>referenced := a = 0\<rparr>"

definition sample_cache :: queryCache where
  "sample_cache = \<lparr>capacity = 2, entries = [pq_key (sample_heap 0) \<mapsto> 0, pq_key (sample_heap 1) \<mapsto> 1],
     ring = [0, 1], hand = 0, generation = 0\<rparr>"

lemma sample_cache_inv: "cache_inv sample_heap sample_cache"
  by (auto simp: cache_inv_def sample_cache_def sample_heap_def labelled_def Let_def)

theorem clock_second_chance_witness:
  "\<exists>k \<le> 2. ring sample_cache ! 1 = slot sample_cache k \<and> (\<forall>j < k. referenced (sample_heap (slot sample_cache j)))"
proof -
  have "sweep (\<lambda>_ _. False) (2 * capacity sample_cache) sample_heap sample_cache =
      (mark False 0 sample_heap, sample_cache\<lparr>hand := 1\<rparr>)"
    by (simp add: sample_cache_def sample_heap_def Let_def numeral_eq_Suc)
  from clock_second_chance [OF sample_cache_inv _ _ this] show ?thesis
    by (auto simp: sample_cache_def)
qed

end
