(* ===== verification/Cache_Races.thy ===== *)
theory Cache_Races
  imports Cache_Clock
begin

section \<open>Lookups racing with registrations\<close>

text \<open>
  A lookup that misses computes its entry outside the lock, against the virtual functions of that
  moment, while a registration swaps the functions and then clears the cache. The cache's
  generation keeps an entry computed before the clear from being inserted after it.

  The contract of a cache with generations is the locale \<open>generation_cache\<close>, with what follows from
  it for any property of the entries; it is interpreted on the model of the code's cache. The
  steps of lookups and registrations, interleaved in any way, are \<open>qc_step\<close>.
\<close>

locale generation_cache =
  fixes inv :: "'c \<Rightarrow> bool"
    and find :: "'c \<Rightarrow> 'k \<Rightarrow> 'v option"
    and key :: "'c \<Rightarrow> 'v \<Rightarrow> 'k"
    and gen :: "'c \<Rightarrow> 'g"
    and ins :: "'c \<Rightarrow> 'v \<Rightarrow> 'g \<Rightarrow> 'c \<times> 'v"
    and clr :: "'c \<Rightarrow> 'c"
  assumes inv_ins: "inv c \<Longrightarrow> inv (fst (ins c v g))"
    and inv_clr: "inv c \<Longrightarrow> inv (clr c)"
    and find_clr: "find (clr c) k = None"
    and find_key: "inv c \<Longrightarrow> find c k = Some v \<Longrightarrow> key c v = k"
    and ins_source: "inv c \<Longrightarrow> find (fst (ins c v g)) k = Some w \<Longrightarrow>
      find c k = Some w \<or> (w = v \<and> k = key c v \<and> gen c = g)"
    and ins_answer: "inv c \<Longrightarrow> gen c = g \<Longrightarrow> find (fst (ins c v g)) (key c v) = Some (snd (ins c v g))"
    and ins_stale: "gen c \<noteq> g \<Longrightarrow> ins c v g = (c, v)"
    and gen_ins: "inv c \<Longrightarrow> gen (fst (ins c v g)) = gen c"
begin

definition all_entries :: "('k \<Rightarrow> 'v \<Rightarrow> bool) \<Rightarrow> 'c \<Rightarrow> bool" where
  "all_entries P c \<longleftrightarrow> (\<forall>k v. find c k = Some v \<longrightarrow> P k v)"

lemma all_entries_clr: "all_entries P (clr c)"
  by (simp add: all_entries_def find_clr)

lemma all_entries_ins:
  "inv c \<Longrightarrow> all_entries P c \<Longrightarrow> (gen c = g \<Longrightarrow> P (key c v) v) \<Longrightarrow> all_entries P (fst (ins c v g))"
  using ins_source unfolding all_entries_def by blast

lemma answer_satisfies:
  assumes "inv c" "all_entries P c" "P (key c v) v"
  shows "P (key c v) (snd (ins c v g))"
proof (cases "gen c = g")
  case True
  with ins_answer [OF assms(1) True] all_entries_ins [OF assms(1,2)] assms(3) show ?thesis
    unfolding all_entries_def by blast
qed (use assms(3) ins_stale in simp)

end

definition cache_find :: "heap \<times> queryCache \<Rightarrow> queryKey \<Rightarrow> addr option" where
  "cache_find hc k = entries (snd hc) k"

definition cache_ok :: "heap \<times> queryCache \<Rightarrow> bool" where
  "cache_ok hc \<longleftrightarrow> cache_inv (fst hc) (snd hc) \<and> 0 < capacity (snd hc)"

definition cache_key :: "heap \<times> queryCache \<Rightarrow> addr \<Rightarrow> queryKey" where
  "cache_key hc a = pq_key (fst hc a)"

definition cache_insert ::
  "(nat \<Rightarrow> addr \<Rightarrow> bool) \<Rightarrow> heap \<times> queryCache \<Rightarrow> addr \<Rightarrow> 64 word \<Rightarrow> (heap \<times> queryCache) \<times> addr" where
  "cache_insert env hc a g = insert_entry env (fst hc) (snd hc) a g"

definition cache_clear :: "heap \<times> queryCache \<Rightarrow> heap \<times> queryCache" where
  "cache_clear hc = (fst hc, clear (snd hc))"

lemma insert_entry_laws:
  assumes "cache_inv h c" "0 < capacity c" "insert_entry env h c a g = ((h', c'), b)"
  shows "cache_inv h' c' \<and> capacity c' = capacity c \<and> generation c' = generation c \<and> same_keys h h' \<and>
    (\<forall>k w. entries c' k = Some w \<longrightarrow> entries c k = Some w \<or> w = a \<and> k = pq_key (h a) \<and> generation c = g) \<and>
    (generation c = g \<longrightarrow> entries c' (pq_key (h a)) = Some b) \<and> (generation c \<noteq> g \<longrightarrow> h' = h \<and> c' = c \<and> b = a)"
  using assms
proof (cases rule: insert_entry_cases)
  case stale
  with assms show ?thesis by simp
next
  case found
  with assms show ?thesis by simp
next
  case added
  then have "entries c k = Some w \<or> w = a \<and> k = pq_key (h a)" if "entries c' k = Some w" for k w
    using that by (auto split: if_splits)
  with added show ?thesis by auto
qed

interpretation qc: generation_cache cache_ok cache_find cache_key "\<lambda>hc. generation (snd hc)"
    "cache_insert env" cache_clear for env
proof unfold_locales
  fix hc :: "heap \<times> queryCache" and a b :: addr and g :: "64 word" and k
  obtain h c where hc: "hc = (h, c)" by fastforce
  obtain h' c' b' where i: "insert_entry env h c a g = ((h', c'), b')" by (metis surj_pair)
  note laws = insert_entry_laws [OF _ _ i]
  show "cache_ok hc \<Longrightarrow> cache_ok (fst (cache_insert env hc a g))"
    using laws by (simp add: hc i cache_ok_def cache_insert_def)
  show "cache_ok hc \<Longrightarrow> cache_ok (cache_clear hc)"
    by (simp add: hc cache_ok_def cache_clear_def cache_inv_clear) (simp add: clear_def)
  show "cache_find (cache_clear hc) k = None"
    by (simp add: hc cache_find_def cache_clear_def clear_def)
  show "cache_ok hc \<Longrightarrow> cache_find hc k = Some a \<Longrightarrow> cache_key hc a = k"
    by (simp add: hc cache_ok_def cache_find_def cache_key_def cache_inv_def)
  show "cache_ok hc \<Longrightarrow> cache_find (fst (cache_insert env hc a g)) k = Some b \<Longrightarrow>
      cache_find hc k = Some b \<or> (b = a \<and> k = cache_key hc a \<and> generation (snd hc) = g)"
    using laws by (simp add: hc i cache_ok_def cache_insert_def cache_find_def cache_key_def)
  show "cache_ok hc \<Longrightarrow> generation (snd hc) = g \<Longrightarrow>
      cache_find (fst (cache_insert env hc a g)) (cache_key hc a) = Some (snd (cache_insert env hc a g))"
    using laws by (simp add: hc i cache_ok_def cache_insert_def cache_find_def cache_key_def)
  show "generation (snd hc) \<noteq> g \<Longrightarrow> cache_insert env hc a g = (hc, a)"
    by (simp add: hc cache_insert_def insert_entry_def)
  show "cache_ok hc \<Longrightarrow> generation (snd (fst (cache_insert env hc a g))) = generation (snd hc)"
    using laws by (simp add: hc i cache_ok_def cache_insert_def)
qed

subsection \<open>The machine\<close>

text \<open>
  What a goroutine inside \<open>lookup\<close> has done: found an entry it is about to mark; missed; loaded the
  generation; computed an entry. \<open>Done\<close> is the answer.
\<close>

datatype task =
    Hit queryKey addr
  | Missing queryKey
  | Missed queryKey "64 word"
  | Computed queryKey "64 word" addr
  | Done queryKey addr

text \<open>
  The shared state: the registry, how many registrations have swapped it and not yet cleared the
  cache, the heap with its next free address, the cache, the operation labels and the
  goroutines. \<open>clears\<close> counts the clears, of which the generation is the count at 64 bits.
\<close>

record qc_state =
  reg :: registry
  pending :: nat
  heap_of :: heap
  next_addr :: addr
  cache :: queryCache
  ops :: operationLabels
  tasks :: "nat \<rightharpoonup> task"
  clears :: nat

inductive qc_step :: "(string \<Rightarrow> string) \<Rightarrow> qc_state \<Rightarrow> qc_state \<Rightarrow> bool" for uni where
  load_hit: "tasks s t = None \<Longrightarrow> entries (cache s) k = Some a \<Longrightarrow>
    qc_step uni s (s\<lparr>tasks := (tasks s)(t \<mapsto> Hit k a)\<rparr>)"
| mark_hit: "tasks s t = Some (Hit k a) \<Longrightarrow>
    qc_step uni s (s\<lparr>heap_of := mark True a (heap_of s), tasks := (tasks s)(t \<mapsto> Done k a)\<rparr>)"
| load_miss: "tasks s t = None \<Longrightarrow> entries (cache s) k = None \<Longrightarrow>
    qc_step uni s (s\<lparr>tasks := (tasks s)(t \<mapsto> Missing k)\<rparr>)"
| load_generation: "tasks s t = Some (Missing k) \<Longrightarrow>
    qc_step uni s (s\<lparr>tasks := (tasks s)(t \<mapsto> Missed k (generation (cache s)))\<rparr>)"
| compute: "tasks s t = Some (Missed k g) \<Longrightarrow>
    newPreparedQuery uni (reg s) (ops s) (key_driver k) (key_query k) = Some (Ok (o2, pq)) \<Longrightarrow>
    qc_step uni s (s\<lparr>heap_of := (heap_of s)(next_addr s := pq), next_addr := next_addr s + 1, ops := o2,
                     tasks := (tasks s)(t \<mapsto> Computed k g (next_addr s))\<rparr>)"
| insert: "tasks s t = Some (Computed k g a) \<Longrightarrow>
    insert_entry env (heap_of s) (cache s) a g = ((h', c'), b) \<Longrightarrow>
    qc_step uni s (s\<lparr>heap_of := h', cache := c', tasks := (tasks s)(t \<mapsto> Done k b)\<rparr>)"
| return: "tasks s t = Some (Done k a) \<Longrightarrow> qc_step uni s (s\<lparr>tasks := (tasks s)(t := None)\<rparr>)"
| register: "qc_step uni s (s\<lparr>reg := registerVirtualFunc uni name h (reg s), pending := pending s + 1\<rparr>)"
| unregister: "qc_step uni s (s\<lparr>reg := unregisterVirtualFunc uni name (reg s), pending := pending s + 1\<rparr>)"
| clear_cache: "0 < pending s \<Longrightarrow>
    qc_step uni s (s\<lparr>cache := clear (cache s), pending := pending s - 1, clears := clears s + 1\<rparr>)"

definition qc_start :: "(string \<Rightarrow> string) \<Rightarrow> qc_state" where
  "qc_start uni = \<lparr>reg = builtin_funcs uni, pending = 0, heap_of = (\<lambda>_. labelled [] [] [] None [] []), next_addr = 0,
     cache = newQueryCache queryCacheSize, ops = defaultOperationLabels, tasks = Map.empty, clears = 0\<rparr>"

text \<open>An entry that is what unpacking its statement with the given functions yields.\<close>

definition unpacked :: "registry \<Rightarrow> queryKey \<Rightarrow> preparedQuery \<Rightarrow> bool" where
  "unpacked vfs k pq \<longleftrightarrow> pq_key pq = k \<and>
     (case unpack vfs (key_driver k) (key_query k) of
        Some (Ok text) \<Rightarrow> pq_text pq = text \<and> pq_err pq = None
      | Some (Err e) \<Rightarrow> pq_text pq = key_query k \<and> pq_err pq = Some e
      | _ \<Rightarrow> False)"

lemma newPreparedQuery_unpacked:
  assumes "newPreparedQuery uni vfs o1 (key_driver k) (key_query k) = Some (Ok (o2, pq))"
  shows "unpacked vfs k pq"
  using assms
  by (auto simp: newPreparedQuery_def unpacked_def labelled_def Let_def
      split: option.splits outcome.splits prod.splits)

lemma unpacked_same_keys: "same_keys h h' \<Longrightarrow> unpacked vfs k (h' a) = unpacked vfs k (h a)"
  unfolding unpacked_def by (simp only: same_keysD)

text \<open>
  The invariant. Addresses in use are below the next free one; generations in flight were read
  from the counter; and while no registration is between its swap and its clear, every cached
  entry, and every computed one that still has the current generation, is up to date.
\<close>

definition task_ok :: "qc_state \<Rightarrow> task \<Rightarrow> bool" where
  "task_ok s x = (case x of
     Missed k g \<Rightarrow> \<exists>n \<le> clears s. g = of_nat n
   | Computed k g a \<Rightarrow> (\<exists>n \<le> clears s. g = of_nat n) \<and> a < next_addr s \<and> pq_key (heap_of s a) = k \<and>
       (pending s = 0 \<and> g = generation (cache s) \<longrightarrow> unpacked (reg s) k (heap_of s a))
   | _ \<Rightarrow> True)"

definition qc_inv :: "qc_state \<Rightarrow> bool" where
  "qc_inv s \<longleftrightarrow> cache_inv (heap_of s) (cache s) \<and> capacity (cache s) = 4096 \<and>
     generation (cache s) = of_nat (clears s) \<and>
     (\<forall>k a. entries (cache s) k = Some a \<longrightarrow> a < next_addr s \<and> (pending s = 0 \<longrightarrow> unpacked (reg s) k (heap_of s a))) \<and>
     (\<forall>t x. tasks s t = Some x \<longrightarrow> task_ok s x)"

lemma qc_start_inv: "qc_inv (qc_start uni)"
  by (simp add: qc_inv_def qc_start_def cache_inv_new) (simp add: newQueryCache_def queryCacheSize_def)

lemma inv_entry:
  "qc_inv s \<Longrightarrow> entries (cache s) k = Some a \<Longrightarrow> a < next_addr s"
  "qc_inv s \<Longrightarrow> entries (cache s) k = Some a \<Longrightarrow> pending s = 0 \<Longrightarrow> unpacked (reg s) k (heap_of s a)"
  "qc_inv s \<Longrightarrow> tasks s t = Some x \<Longrightarrow> task_ok s x"
  by (auto simp: qc_inv_def)

lemma qc_inv_tasks:
  assumes "qc_inv s" "\<And>x. v = Some x \<Longrightarrow> task_ok s x"
  shows "qc_inv (s\<lparr>tasks := (tasks s)(t := v)\<rparr>)"
proof -
  have "task_ok (s\<lparr>tasks := m\<rparr>) x = task_ok s x" for m x by (simp add: task_ok_def split: task.split)
  with assms show ?thesis by (auto simp: qc_inv_def)
qed

text \<open>Changing flags of prepared queries, and nothing else of them, keeps the invariant.\<close>

lemma task_ok_heap:
  "same_keys (heap_of s) h \<Longrightarrow> task_ok (s\<lparr>heap_of := h\<rparr>) x = task_ok s x"
  by (auto simp: task_ok_def unpacked_same_keys same_keysD split: task.split)

lemma qc_inv_heap:
  assumes "qc_inv s" "same_keys (heap_of s) h"
  shows "qc_inv (s\<lparr>heap_of := h\<rparr>)"
  using assms task_ok_heap [OF assms(2)]
  by (simp add: qc_inv_def cache_inv_same_keys [OF assms(2)] unpacked_same_keys [OF assms(2)])

lemma qc_inv_alloc:
  assumes inv: "qc_inv s"
  shows "qc_inv (s\<lparr>heap_of := (heap_of s)(next_addr s := pq), next_addr := next_addr s + 1, ops := o2\<rparr>)"
proof -
  let ?h = "(heap_of s)(next_addr s := pq)"
  let ?s = "s\<lparr>heap_of := ?h, next_addr := next_addr s + 1, ops := o2\<rparr>"
  have "a < next_addr s" if "a \<in> set (ring (cache s))" for a
    using that inv unfolding qc_inv_def cache_inv_def by blast
  then have r: "?h a = heap_of s a" if "a \<in> set (ring (cache s))" for a using that by auto
  then have m: "map (\<lambda>a. pq_key (?h a)) (ring (cache s)) = map (\<lambda>a. pq_key (heap_of s a)) (ring (cache s))"
    by (metis (mono_tags, lifting) map_eq_conv)
  have c: "cache_inv (heap_of s) (cache s)" using inv by (simp add: qc_inv_def)
  have "entries (cache s) k = Some a \<longleftrightarrow> a \<in> set (ring (cache s)) \<and> pq_key (?h a) = k" for k a
    using c r [of a] by (cases "a \<in> set (ring (cache s))") (simp_all add: cache_inv_def del: fun_upd_apply)
  with c have e: "cache_inv ?h (cache s)" unfolding cache_inv_def m by blast
  have "task_ok ?s x" if "task_ok s x" for x
    using that by (auto simp: task_ok_def split: task.splits)
  with inv e show ?thesis by (fastforce simp: qc_inv_def)
qed

lemma qc_inv_insert:
  assumes inv: "qc_inv s" and t: "tasks s t = Some (Computed k g a)"
    and ins: "insert_entry env (heap_of s) (cache s) a g = ((h', c'), b)"
  shows "qc_inv (s\<lparr>heap_of := h', cache := c'\<rparr>)"
proof -
  let ?s = "s\<lparr>heap_of := h', cache := c'\<rparr>"
  have c: "cache_inv (heap_of s) (cache s)" "0 < capacity (cache s)" using inv by (auto simp: qc_inv_def)
  note laws = insert_entry_laws [OF c ins]
  have "same_keys (heap_of s) h'" "generation c' = generation (cache s)" using laws by auto
  then have tk: "task_ok ?s x = task_ok s x" for x
    by (auto simp: task_ok_def unpacked_same_keys same_keysD split: task.split)
  have a: "a < next_addr s" "pq_key (heap_of s a) = k"
      "pending s = 0 \<Longrightarrow> g = generation (cache s) \<Longrightarrow> unpacked (reg s) k (heap_of s a)"
    using inv_entry(3) [OF inv t] by (auto simp: task_ok_def)
  let ?P = "\<lambda>j w. w < next_addr s \<and> (pending s = 0 \<longrightarrow> unpacked (reg s) j (heap_of s w))"
  have "qc.all_entries ?P (fst (cache_insert env (heap_of s, cache s) a g))"
  proof (rule qc.all_entries_ins)
    show "cache_ok (heap_of s, cache s)" using c by (simp add: cache_ok_def)
    show "qc.all_entries ?P (heap_of s, cache s)"
      using inv_entry(1,2) [OF inv] by (simp add: qc.all_entries_def cache_find_def)
  qed (use a in \<open>auto simp: cache_key_def\<close>)
  then have "?P j w" if "entries c' j = Some w" for j w
    using that by (simp add: qc.all_entries_def cache_find_def cache_insert_def ins)
  moreover have "unpacked (reg s) j (h' w) = unpacked (reg s) j (heap_of s w)" for j w
    using laws unpacked_same_keys by blast
  ultimately show ?thesis using laws inv tk by (simp add: qc_inv_def)
qed

lemma of_nat_word64_eq: "n < 2 ^ 64 \<Longrightarrow> m < 2 ^ 64 \<Longrightarrow> (of_nat n :: 64 word) = of_nat m \<longleftrightarrow> n = m"
  by (simp add: word_of_nat_eq_iff take_bit_nat_eq_self)

lemma qc_inv_clear:
  assumes inv: "qc_inv s" and bound: "clears s + 1 < 2 ^ 64"
  shows "qc_inv (s\<lparr>cache := clear (cache s), pending := p, clears := clears s + 1\<rparr>)"
proof -
  let ?s = "s\<lparr>cache := clear (cache s), pending := p, clears := clears s + 1\<rparr>"
  have g: "generation (clear (cache s)) = of_nat (clears s + 1)" using inv by (simp add: qc_inv_def clear_def)
  have "task_ok ?s x" if x: "task_ok s x" for x
  proof (cases x)
    case (Computed k g' a)
    with x obtain n where n: "n \<le> clears s" "g' = of_nat n" by (auto simp: task_ok_def)
    then have "g' \<noteq> generation (clear (cache s))"
      using bound unfolding g by (simp add: of_nat_word64_eq del: of_nat_Suc of_nat_add)
    with Computed x n show ?thesis by (auto simp: task_ok_def intro: le_SucI)
  qed (use x in \<open>auto simp: task_ok_def intro: le_SucI\<close>)
  moreover have "entries (clear (cache s)) = Map.empty" "capacity (clear (cache s)) = capacity (cache s)"
    by (simp_all add: clear_def)
  ultimately show ?thesis using inv g by (simp add: qc_inv_def cache_inv_clear)
qed

lemma qc_inv_swap: "qc_inv s \<Longrightarrow> qc_inv (s\<lparr>reg := r, pending := pending s + 1\<rparr>)"
  by (auto simp: qc_inv_def task_ok_def split: task.splits)

lemma qc_step_clears: "qc_step uni s s' \<Longrightarrow> clears s \<le> clears s'"
  by (induction rule: qc_step.induct) auto

lemma qc_step_inv:
  assumes "qc_step uni s s'" "qc_inv s" "clears s' < 2 ^ 64"
  shows "qc_inv s'"
  using assms
proof (induction rule: qc_step.induct)
  case (load_hit s t k a)
  then show ?case by (intro qc_inv_tasks) (auto simp: task_ok_def)
next
  case (mark_hit s t k a)
  then show ?case
    using qc_inv_tasks [where v = "Some (Done k a)" and t = t, OF qc_inv_heap [OF mark_hit(2) same_keys_mark [where b = True and a = a]]]
    by (simp add: task_ok_def)
next
  case (load_miss s t k)
  then show ?case by (intro qc_inv_tasks) (auto simp: task_ok_def)
next
  case (load_generation s t k)
  then show ?case by (intro qc_inv_tasks) (auto simp: task_ok_def qc_inv_def)
next
  case (compute s t k g o2 pq)
  let ?s = "s\<lparr>heap_of := (heap_of s)(next_addr s := pq), next_addr := next_addr s + 1, ops := o2\<rparr>"
  have "task_ok ?s (Computed k g (next_addr s))"
    using inv_entry(3) [OF compute(3,1)] newPreparedQuery_unpacked [OF compute(2)]
    by (auto simp: task_ok_def unpacked_def)
  then show ?case
    using qc_inv_tasks [where v = "Some (Computed k g (next_addr s))" and t = t, OF qc_inv_alloc [OF compute(3), where pq = pq and ?o2.0 = o2]] by simp
next
  case (insert s t k g a env h' c' b)
  then show ?case
    using qc_inv_tasks [where v = "Some (Done k b)" and t = t, OF qc_inv_insert [OF insert(3,1,2)]] by (simp add: task_ok_def)
next
  case (return s t k a)
  then show ?case by (intro qc_inv_tasks) auto
next
  case (register s name h)
  then show ?case using qc_inv_swap by simp
next
  case (unregister s name)
  then show ?case using qc_inv_swap by simp
next
  case (clear_cache s)
  then show ?case using qc_inv_clear [of s "pending s - 1"] by simp
qed

lemma qc_reachable_inv: "(qc_step uni)\<^sup>*\<^sup>* (qc_start uni) s \<Longrightarrow> clears s < 2 ^ 64 \<Longrightarrow> qc_inv s"
proof (induction rule: rtranclp_induct)
  case base
  show ?case by (rule qc_start_inv)
next
  case (step s s')
  then show ?case using qc_step_clears [OF step(2)] qc_step_inv [OF step(2)] by simp
qed

text \<open>
  (C3) No stale statement. However lookups, registrations and removals of virtual functions
  interleave, whenever no registration is between swapping the functions and clearing the cache,
  every statement in the cache is exactly what unpacking its text with the functions registered
  at that moment yields: the unpacked text, or the statement as given with the error. (The
  generation is a 64-bit counter: up to \<open>2^64\<close> clears.)
\<close>

theorem cache_never_stale:
  assumes "(qc_step uni)\<^sup>*\<^sup>* (qc_start uni) s" and "clears s < 2 ^ 64" and "pending s = 0"
    and "entries (cache s) k = Some a"
  shows "unpacked (reg s) k (heap_of s a)"
  using inv_entry(2) [OF qc_reachable_inv] assms by blast

text \<open>A run that looks a statement up and caches it, for the examples below.\<close>

definition sample_key :: queryKey where
  "sample_key = \<lparr>key_driver = ''pgx'', key_query = ''SELECT ?''\<rparr>"

definition sample_pq :: preparedQuery where
  "sample_pq = labelled ''pgx'' ''SELECT ?'' ''SELECT $1'' None ''SELECT'' []"

definition sample_state :: qc_state where
  "sample_state = (qc_start (\<lambda>s. s))
     \<lparr>heap_of := (heap_of (qc_start (\<lambda>s. s)))(0 := sample_pq), next_addr := 1, tasks := [0 \<mapsto> Done sample_key 0],
      cache := (newQueryCache queryCacheSize)\<lparr>entries := [sample_key \<mapsto> 0], ring := [0]\<rparr>\<rparr>"

lemma sample_pq_key: "pq_key sample_pq = sample_key"
  by (simp add: sample_pq_def labelled_def Let_def sample_key_def)

lemma sample_prepared:
  "newPreparedQuery (\<lambda>s. s) (builtin_funcs (\<lambda>s. s)) defaultOperationLabels ''pgx'' ''SELECT ?'' =
     Some (Ok (defaultOperationLabels, sample_pq))"
proof -
  have "expandOnce ''pgx'' ''SELECT ?'' (builtin_funcs (\<lambda>s. s)) = Ok (''SELECT ?'', False)" by code_simp
  then have e: "expandVirtualFuncs ''pgx'' (builtin_funcs (\<lambda>s. s)) ''SELECT ?'' = Some (Ok ''SELECT ?'')"
    by (simp add: expandVirtualFuncs.simps)
  moreover have "conformPlaceholders ''pgx'' ''SELECT ?'' = ''SELECT $1''" by code_simp
  moreover have "parseOperation (\<lambda>s. s) defaultOperationLabels ''SELECT $1'' = (defaultOperationLabels, ''SELECT'', [])"
    unfolding parseOperation_def by code_simp
  ultimately show ?thesis by (simp add: newPreparedQuery_def unpack_def sample_pq_def)
qed

lemma sample_reachable: "(qc_step (\<lambda>s. s))\<^sup>*\<^sup>* (qc_start (\<lambda>s. s)) sample_state"
proof -
  let ?s = "qc_start (\<lambda>s. s)" and ?step = "qc_step (\<lambda>s. s)"
  let ?s1 = "?s\<lparr>tasks := [0 \<mapsto> Missing sample_key]\<rparr>" and ?s2 = "?s\<lparr>tasks := [0 \<mapsto> Missed sample_key 0]\<rparr>"
  let ?s3 = "?s\<lparr>heap_of := (heap_of ?s)(0 := sample_pq), next_addr := 1, tasks := [0 \<mapsto> Computed sample_key 0 0]\<rparr>"
  note d = qc_start_def newQueryCache_def queryCacheSize_def sample_key_def
  have "?step ?s ?s1" using qc_step.load_miss [of ?s 0 sample_key] by (simp add: d)
  moreover have "?step ?s1 ?s2" using qc_step.load_generation [of ?s1 0 sample_key] by (simp add: d)
  moreover have "?step ?s2 ?s3"
    using qc_step.compute [of ?s2 0 sample_key 0 "\<lambda>s. s" defaultOperationLabels sample_pq] sample_prepared
    by (simp add: d)
  moreover have "insert_entry (\<lambda>_ _. False) (heap_of ?s3) (cache ?s3) 0 0 = ((heap_of ?s3, cache sample_state), 0)"
    by (simp add: insert_entry_def sample_state_def qc_start_def newQueryCache_def queryCacheSize_def sample_pq_key)
  then have "?step ?s3 sample_state"
    using qc_step.insert [where s = ?s3 and t = 0 and a = 0 and uni = "\<lambda>s. s" and h' = "heap_of ?s3"
        and c' = "cache sample_state" and b = 0 and k = sample_key and g = 0 and env = "\<lambda>_ _. False"]
    by (simp add: sample_state_def qc_start_def)
  ultimately show ?thesis by (meson converse_rtranclp_into_rtranclp r_into_rtranclp)
qed

theorem cache_never_stale_witness: "unpacked (reg sample_state) sample_key (heap_of sample_state 0)"
  by (rule cache_never_stale [OF sample_reachable]) (simp_all add: sample_state_def qc_start_def)

text \<open>
  (C18) The cache stays bounded and coherent under every interleaving: at most 4096 entries, the map
  and the ring hold exactly the same entries, each under its own key and once, and the hand
  stays on the ring: below its length, or at zero while the ring is empty.
\<close>

theorem cache_bounded_coherent:
  assumes "(qc_step uni)\<^sup>*\<^sup>* (qc_start uni) s" and "clears s < 2 ^ 64"
  shows "len (cache s) \<le> 4096 \<and> (hand (cache s) < length (ring (cache s)) \<or> ring (cache s) = [] \<and> hand (cache s) = 0) \<and> distinct (ring (cache s)) \<and>
         ran (entries (cache s)) = set (ring (cache s)) \<and>
         (\<forall>k a. entries (cache s) k = Some a \<longrightarrow> pq_key (heap_of s a) = k)"
proof -
  have "cache_inv (heap_of s) (cache s)" "capacity (cache s) = 4096"
    using qc_reachable_inv [OF assms] by (auto simp: qc_inv_def)
  then show ?thesis
    using cache_inv_distinct [of "heap_of s" "cache s"] cache_inv_hand [of "heap_of s" "cache s"]
    by (auto simp: cache_inv_def len_def ran_def)
qed

theorem cache_bounded_coherent_witness:
  "len (cache sample_state) \<le> 4096 \<and> ran (entries (cache sample_state)) = set (ring (cache sample_state))"
  using cache_bounded_coherent [OF sample_reachable] by (simp add: sample_state_def qc_start_def)

end
