(* ===== verification/Transactions.thy ===== *)
theory Transactions
  imports Query_Cache
begin

section \<open>Transactions (tx.go, rows.go, stmt.go, rtt.go and the wrappers of telemetry.go)\<close>

text \<open>
  A \<^verbatim>\<open>Tx\<close> shadows \<^verbatim>\<open>sql.Tx\<close>. In the mode \<^verbatim>\<open>Transact\<close> sets (\<open>autoErr\<close>) it remembers the first error and
  answers every later statement with it. The state is the \<^verbatim>\<open>Tx\<close> record together with \<open>sent\<close>, the
  history of what reached the database and how it answered. What the database, the driver and the
  context answer is an argument of each operation; an \<open>'v\<close> is a result handed through unread.

  A method and its \<^verbatim>\<open>Context\<close> variant are one definition with the outcome \<open>rtt\<close> of the simulated
  round trip; without a context of the caller's that outcome is \<open>None\<close>.
\<close>

datatype event =
    Ran string "error option"       \<comment> \<open>a statement ran and answered at once\<close>
  | RanRow string "error option"    \<comment> \<open>a single-row query, whose error is deferred to Scan\<close>
  | Read "error option"             \<comment> \<open>reading rows of a result\<close>
  | ReadRow nat "error option"      \<comment> \<open>scanning the single row of the query at this place of the history\<close>
  | Piped string "error option"     \<comment> \<open>a statement ran in a pipelined batch; its answer is read later\<close>
  | Bound                           \<comment> \<open>a prepared statement was bound to the transaction\<close>
  | Ended string "error option"     \<comment> \<open>COMMIT or ROLLBACK\<close>

text \<open>The statements of a history.\<close>

definition is_stmt :: "event \<Rightarrow> bool" where
  "is_stmt ev = (case ev of Ran _ _ \<Rightarrow> True | RanRow _ _ \<Rightarrow> True | Piped _ _ \<Rightarrow> True | _ \<Rightarrow> False)"

abbreviation stmts :: "event list \<Rightarrow> event list" where
  "stmts es \<equiv> filter is_stmt es"

record tx =
  autoErr :: bool
  tx_err :: "error option"
  tx_done :: bool
  held_conn :: bool
  unsentBatches :: int
  batchMisuse :: "error option"
  openBatch :: "nat option"
  batchExecuting :: bool
  sent :: "event list"

definition log_events :: "event list \<Rightarrow> 'x tx_scheme \<Rightarrow> 'x tx_scheme" where
  "log_events es t = t\<lparr>sent := sent t @ es\<rparr>"

definition err_of :: "error + 'v \<Rightarrow> error option" where
  "err_of r = (case r of Inl e \<Rightarrow> Some e | Inr _ \<Rightarrow> None)"

subsection \<open>Simulated round trips\<close>

text \<open>\<open>SimulateRTT\<close> stores the delay, in nanoseconds; the pause ends with the timer or with the
  context's error, whichever \<open>ctxErr\<close> says came first.\<close>

definition SimulateRTT :: "int \<Rightarrow> int" where
  "SimulateRTT delay = (if delay < 0 then 0 else delay)"

definition simulateRTT :: "int \<Rightarrow> error option \<Rightarrow> error option" where
  "simulateRTT delay ctxErr = (if delay \<le> 0 then None else ctxErr)"

subsection \<open>The error latch\<close>

definition recordErr :: "error option \<Rightarrow> 'x tx_scheme \<Rightarrow> 'x tx_scheme" where
  "recordErr err t = (case err of
     None \<Rightarrow> t
   | Some e \<Rightarrow> if autoErr t \<and> tx_err t = None then t\<lparr>tx_err := Some e\<rparr> else t)"

definition batchRefuses :: "'x tx_scheme \<Rightarrow> bool" where
  "batchRefuses t \<longleftrightarrow> openBatch t \<noteq> None \<and> \<not> batchExecuting t"

definition errBatchOpen :: error where
  "errBatchOpen = NewError (''a statement cannot be issued while a batch'' @ [quote1] @ ''s results are open'')"

definition shortCircuit :: "'x tx_scheme \<Rightarrow> 'x tx_scheme \<times> error option" where
  "shortCircuit t =
     (if batchRefuses t then (recordErr (Some errBatchOpen) t, Some errBatchOpen)
      else if autoErr t then (t, tx_err t)
      else (t, None))"

subsection \<open>Statements\<close>

text \<open>\<open>instrumentExec\<close>: the events it causes and what it returns. A statement that failed to unpack,
  or whose simulated round trip was cut short, does not run.\<close>

definition instrumentExec :: "preparedQuery \<Rightarrow> error option \<Rightarrow> error + 'v \<Rightarrow> event list \<times> (error + 'v)" where
  "instrumentExec pq rtt ans =
     (case pq_err pq of
        Some e \<Rightarrow> ([], Inl (Traced e))
      | None \<Rightarrow>
        (case rtt of
           Some e \<Rightarrow> ([], Inl (Traced e))
         | None \<Rightarrow> ([Ran (pq_text pq) (err_of ans)],
                   (case ans of Inl e \<Rightarrow> Inl (the (traceErr (Some e))) | Inr v \<Rightarrow> Inr v))))"

definition tx_ExecContext ::
  "preparedQuery \<Rightarrow> error option \<Rightarrow> error + 'v \<Rightarrow> 'x tx_scheme \<Rightarrow> 'x tx_scheme \<times> (error + 'v)" where
  "tx_ExecContext pq rtt ans t =
     (case shortCircuit t of
        (t1, Some e) \<Rightarrow> (t1, Inl e)
      | (t1, None) \<Rightarrow>
        let (es, res) = instrumentExec pq rtt ans in (recordErr (err_of res) (log_events es t1), res))"

text \<open>A result set knows whether it belongs to a transaction.\<close>

record rows =
  rows_in_tx :: bool

definition tx_QueryContext ::
  "preparedQuery \<Rightarrow> error option \<Rightarrow> error + 'v \<Rightarrow> 'x tx_scheme \<Rightarrow> 'x tx_scheme \<times> (error + rows)" where
  "tx_QueryContext pq rtt ans t =
     (case shortCircuit t of
        (t1, Some e) \<Rightarrow> (t1, Inl e)
      | (t1, None) \<Rightarrow>
        let (es, res) = instrumentExec pq rtt ans; t2 = log_events es t1 in
        case res of
          Inl e \<Rightarrow> (recordErr (Some e) t2, Inl e)
        | Inr _ \<Rightarrow> (t2, Inr \<lparr>rows_in_tx = True\<rparr>))"

subsection \<open>Rows\<close>

definition rows_latch :: "rows \<Rightarrow> error option \<Rightarrow> 'x tx_scheme \<Rightarrow> 'x tx_scheme" where
  "rows_latch r err t = (if err \<noteq> None \<and> rows_in_tx r then recordErr err t else t)"

definition rows_Scan :: "rows \<Rightarrow> error option \<Rightarrow> 'x tx_scheme \<Rightarrow> 'x tx_scheme \<times> error option" where
  "rows_Scan r err t = (rows_latch r err (log_events [Read err] t), traceErr err)"

text \<open>\<open>Next\<close> and \<open>NextResultSet\<close>: \<open>ok\<close> is the answer of \<^verbatim>\<open>sql.Rows\<close> and \<open>err\<close> its \<^verbatim>\<open>Err()\<close> afterwards.\<close>

definition rows_Next :: "rows \<Rightarrow> bool \<Rightarrow> error option \<Rightarrow> 'x tx_scheme \<Rightarrow> 'x tx_scheme \<times> bool" where
  "rows_Next r ok err t = (if ok then t else rows_latch r err (log_events [Read err] t), ok)"

definition rows_NextResultSet :: "rows \<Rightarrow> bool \<Rightarrow> error option \<Rightarrow> 'x tx_scheme \<Rightarrow> 'x tx_scheme \<times> bool" where
  "rows_NextResultSet r ok err t = (if ok then t else rows_latch r err (log_events [Read err] t), ok)"

definition rows_Err :: "rows \<Rightarrow> error option \<Rightarrow> 'x tx_scheme \<Rightarrow> 'x tx_scheme \<times> error option" where
  "rows_Err r err t = (rows_latch r err (log_events [Read err] t), traceErr err)"

subsection \<open>A single row\<close>

text \<open>\<open>sqlErr\<close> is the query's error, which \<^verbatim>\<open>sql.Row\<close> keeps for \<open>Scan\<close>; \<open>row_done\<close> that the operation has
  been reported. \<open>row_id\<close> is the identity of the row: the place of its query in the history.\<close>

record row =
  row_id :: nat
  shortErr :: "error option"
  sqlErr :: "error option"
  row_in_tx :: bool
  row_done :: bool

definition short_row :: "error \<Rightarrow> row" where
  "short_row e = \<lparr>row_id = 0, shortErr = Some e, sqlErr = None, row_in_tx = False, row_done = False\<rparr>"

definition instrumentQueryRow ::
  "bool \<Rightarrow> preparedQuery \<Rightarrow> error option \<Rightarrow> 'x tx_scheme \<Rightarrow> 'x tx_scheme \<times> row" where
  "instrumentQueryRow inTx pq queryErr t =
     (case pq_err pq of
        Some e \<Rightarrow> (if inTx then recordErr (Some (Traced e)) t else t, short_row (Traced e))
      | None \<Rightarrow> (log_events [RanRow (pq_text pq) queryErr] t,
                 \<lparr>row_id = length (sent t), shortErr = None, sqlErr = queryErr, row_in_tx = inTx, row_done = False\<rparr>))"

definition tx_QueryRowContext :: "preparedQuery \<Rightarrow> error option \<Rightarrow> 'x tx_scheme \<Rightarrow> 'x tx_scheme \<times> row" where
  "tx_QueryRowContext pq queryErr t =
     (case shortCircuit t of
        (t1, Some e) \<Rightarrow> (t1, short_row e)
      | (t1, None) \<Rightarrow> instrumentQueryRow True pq queryErr t1)"

definition row_latch :: "row \<Rightarrow> error option \<Rightarrow> 'x tx_scheme \<Rightarrow> 'x tx_scheme" where
  "row_latch r err t = (case err of
     None \<Rightarrow> t
   | Some e \<Rightarrow> if \<not> errors_Is e ErrNoRows \<and> row_in_tx r then recordErr err t else t)"

definition complete :: "row \<Rightarrow> row" where
  "complete r = r\<lparr>row_done := True\<rparr>"

definition row_Scan :: "row \<Rightarrow> error option \<Rightarrow> 'x tx_scheme \<Rightarrow> 'x tx_scheme \<times> row \<times> error option" where
  "row_Scan r scanErr t =
     (case shortErr r of
        Some e \<Rightarrow> (t, r, Some e)
      | None \<Rightarrow>
        let err = (case sqlErr r of Some e \<Rightarrow> Some e | None \<Rightarrow> scanErr) in
        (row_latch r err (log_events [ReadRow (row_id r) err] t), complete r, traceErr err))"

definition row_Err :: "row \<Rightarrow> 'x tx_scheme \<Rightarrow> 'x tx_scheme \<times> row \<times> error option" where
  "row_Err r t =
     (case shortErr r of
        Some e \<Rightarrow> (t, r, Some e)
      | None \<Rightarrow> (row_latch r (sqlErr r) (log_events [ReadRow (row_id r) (sqlErr r)] t), complete r, traceErr (sqlErr r)))"

subsection \<open>Prepared statements\<close>

record stmt =
  stmt_pq :: preparedQuery
  stmt_in_tx :: bool
  stmt_err :: "error option"

definition tx_PrepareContext ::
  "preparedQuery \<Rightarrow> error option \<Rightarrow> error + 'v \<Rightarrow> 'x tx_scheme \<Rightarrow> 'x tx_scheme \<times> (error + stmt)" where
  "tx_PrepareContext pq rtt ans t =
     (case shortCircuit t of
        (t1, Some e) \<Rightarrow> (t1, Inl e)
      | (t1, None) \<Rightarrow>
        let (es, res) = instrumentExec pq rtt ans; t2 = log_events es t1 in
        case res of
          Inl e \<Rightarrow> (recordErr (Some e) t2, Inl e)
        | Inr _ \<Rightarrow> (t2, Inr \<lparr>stmt_pq = pq, stmt_in_tx = True, stmt_err = None\<rparr>))"

definition tx_StmtContext :: "stmt \<Rightarrow> 'x tx_scheme \<Rightarrow> 'x tx_scheme \<times> stmt" where
  "tx_StmtContext st t =
     (if stmt_err st \<noteq> None then (t, \<lparr>stmt_pq = stmt_pq st, stmt_in_tx = True, stmt_err = stmt_err st\<rparr>)
      else if batchRefuses t then
        (case shortCircuit t of (t1, err) \<Rightarrow> (t1, \<lparr>stmt_pq = stmt_pq st, stmt_in_tx = True, stmt_err = err\<rparr>))
      else (log_events [Bound] t, \<lparr>stmt_pq = stmt_pq st, stmt_in_tx = True, stmt_err = None\<rparr>))"

definition stmt_shortCircuit :: "stmt \<Rightarrow> 'x tx_scheme \<Rightarrow> 'x tx_scheme \<times> error option" where
  "stmt_shortCircuit st t =
     (case stmt_err st of
        Some e \<Rightarrow> (t, Some e)
      | None \<Rightarrow> if stmt_in_tx st then shortCircuit t else (t, None))"

definition stmt_recordErr :: "stmt \<Rightarrow> error option \<Rightarrow> 'x tx_scheme \<Rightarrow> 'x tx_scheme" where
  "stmt_recordErr st err t = (if stmt_in_tx st then recordErr err t else t)"

definition stmt_ExecContext ::
  "stmt \<Rightarrow> error option \<Rightarrow> error + 'v \<Rightarrow> 'x tx_scheme \<Rightarrow> 'x tx_scheme \<times> (error + 'v)" where
  "stmt_ExecContext st rtt ans t =
     (case stmt_shortCircuit st t of
        (t1, Some e) \<Rightarrow> (t1, Inl e)
      | (t1, None) \<Rightarrow>
        let (es, res) = instrumentExec (stmt_pq st) rtt ans in
        (stmt_recordErr st (err_of res) (log_events es t1), res))"

definition stmt_QueryContext ::
  "stmt \<Rightarrow> error option \<Rightarrow> error + 'v \<Rightarrow> 'x tx_scheme \<Rightarrow> 'x tx_scheme \<times> (error + rows)" where
  "stmt_QueryContext st rtt ans t =
     (case stmt_shortCircuit st t of
        (t1, Some e) \<Rightarrow> (t1, Inl e)
      | (t1, None) \<Rightarrow>
        let (es, res) = instrumentExec (stmt_pq st) rtt ans; t2 = log_events es t1 in
        case res of
          Inl e \<Rightarrow> (stmt_recordErr st (Some e) t2, Inl e)
        | Inr _ \<Rightarrow> (t2, Inr \<lparr>rows_in_tx = stmt_in_tx st\<rparr>))"

definition stmt_QueryRowContext :: "stmt \<Rightarrow> error option \<Rightarrow> 'x tx_scheme \<Rightarrow> 'x tx_scheme \<times> row" where
  "stmt_QueryRowContext st queryErr t =
     (case stmt_shortCircuit st t of
        (t1, Some e) \<Rightarrow> (t1, short_row e)
      | (t1, None) \<Rightarrow> instrumentQueryRow (stmt_in_tx st) (stmt_pq st) queryErr t1)"

subsection \<open>Ending the transaction\<close>

definition errUnsent :: error where
  "errUnsent = NewError ''a batch was queued but never sent''"

definition errUnclosed :: error where
  "errUnclosed = NewError (''a batch'' @ [quote1] @ ''s results were never closed'')"

definition batchPending :: "'x tx_scheme \<Rightarrow> error option" where
  "batchPending t =
     (if batchMisuse t \<noteq> None then batchMisuse t
      else if unsentBatches t > 0 then Some errUnsent
      else if openBatch t \<noteq> None then Some errUnclosed
      else None)"

text \<open>\<open>ans\<close> is what \<^verbatim>\<open>sql.Tx\<close> answers, if it is asked.\<close>

definition finalize :: "string \<Rightarrow> error option \<Rightarrow> 'x tx_scheme \<Rightarrow> 'x tx_scheme \<times> error option" where
  "finalize op ans t =
     (if tx_done t then (t, Some ErrTxDone)
      else
        let t1 = log_events [Ended op ans] t in
        (if ans = None then t1\<lparr>tx_done := True\<rparr> else t1, traceErr ans))"

definition tx_Commit :: "error option \<Rightarrow> 'x tx_scheme \<Rightarrow> 'x tx_scheme \<times> error option" where
  "tx_Commit ans t = (case batchPending t of Some e \<Rightarrow> (t, Some e) | None \<Rightarrow> finalize ''COMMIT'' ans t)"

subsection \<open>What the operations do to the latch\<close>

text \<open>The answer of an event, where it is a failure: a \<^verbatim>\<open>sql.ErrNoRows\<close> of a single row is not.\<close>

definition row_failure :: "error option \<Rightarrow> error option" where
  "row_failure err = (case err of None \<Rightarrow> None | Some e \<Rightarrow> if errors_Is e ErrNoRows then None else Some e)"

fun failure :: "event \<Rightarrow> error option" where
  "failure (Ran q err) = err"
| "failure (RanRow q err) = row_failure err"
| "failure (Read err) = err"
| "failure (ReadRow i err) = row_failure err"
| "failure (Piped q err) = err"
| "failure Bound = None"
| "failure (Ended op err) = err"

text \<open>
  The error of a single-row query is told by its \<^verbatim>\<open>Scan\<close> or \<^verbatim>\<open>Err\<close>, the one of a pipelined statement when its result
  is read or the batch closed; every other event tells its error at once.
\<close>

fun tells_later :: "event \<Rightarrow> bool" where
  "tells_later (RanRow q err) = True"
| "tells_later (Piped q err) = True"
| "tells_later _ = False"

text \<open>An event after which the closure has been told of no failure, and which is not the reading of a single row.\<close>

definition quiet :: "event \<Rightarrow> bool" where
  "quiet ev \<longleftrightarrow> (tells_later ev \<or> failure ev = None) \<and> (\<forall>i err. ev \<noteq> ReadRow i err)"

text \<open>
  A reading of a single row tells what its query answered: the query stands before it in the history, and if it
  failed, with this error.
\<close>

definition honest :: "event list \<Rightarrow> nat \<Rightarrow> error option \<Rightarrow> bool" where
  "honest h i err \<longleftrightarrow> i < length h \<and> (\<exists>q answer. h ! i = RanRow q answer \<and> (answer \<noteq> None \<longrightarrow> err = answer))"

text \<open>Nothing failed in a history that the closure has been told of, and its single rows were read honestly.\<close>

definition clean :: "event list \<Rightarrow> bool" where
  "clean h \<longleftrightarrow> list_all (\<lambda>ev. tells_later ev \<or> failure ev = None) h \<and>
     (\<forall>i err. ReadRow i err \<in> set h \<longrightarrow> honest h i err)"

text \<open>A row handle of this transaction, as its queries hand them out.\<close>

definition row_of :: "'x tx_scheme \<Rightarrow> row \<Rightarrow> bool" where
  "row_of t r \<longleftrightarrow> shortErr r \<noteq> None \<or>
     row_in_tx r \<and> row_id r < length (sent t) \<and> (\<exists>q. sent t ! row_id r = RanRow q (sqlErr r))"

text \<open>The history is clean so far, or the transaction records errors and has recorded one.\<close>

definition latched :: "'x tx_scheme \<Rightarrow> bool" where
  "latched t \<longleftrightarrow> autoErr t \<and> (tx_err t = None \<longrightarrow> clean (sent t))"

definition is_piped :: "event \<Rightarrow> bool" where
  "is_piped ev = (case ev of Piped _ _ \<Rightarrow> True | _ \<Rightarrow> False)"

text \<open>A statement operation: it keeps everything of the transaction but the latch and the history,
  extends the history, outside a pipeline, keeps a recorded error, and keeps \<open>latched\<close>.\<close>

definition latching :: "'x tx_scheme \<Rightarrow> 'x tx_scheme \<Rightarrow> bool" where
  "latching t t' \<longleftrightarrow>
     t' = t\<lparr>tx_err := tx_err t', sent := sent t'\<rparr> \<and>
     (\<exists>es. sent t' = sent t @ es \<and> list_all (\<lambda>ev. \<not> is_piped ev) es) \<and>
     (tx_err t \<noteq> None \<longrightarrow> tx_err t' = tx_err t) \<and> (latched t \<longrightarrow> latched t')"

lemma honest_append: "honest h i err \<Longrightarrow> honest (h @ es) i err"
  by (auto simp: honest_def nth_append)

lemma clean_append: "clean h \<Longrightarrow> list_all quiet es \<Longrightarrow> clean (h @ es)"
  by (auto simp: clean_def quiet_def list_all_iff intro: honest_append)

lemma clean_read: "clean h \<Longrightarrow> honest h i err \<Longrightarrow> row_failure err = None \<Longrightarrow> clean (h @ [ReadRow i err])"
  by (auto simp: clean_def intro: honest_append)

lemma clean_Nil [simp]: "clean []"
  by (simp add: clean_def)

text \<open>What a clean history may still hide: a pipelined failure, or a failed single-row query whose row was never read.\<close>

lemma clean_failure:
  assumes "clean h" "i < length h" "failure (h ! i) \<noteq> None"
  shows "is_piped (h ! i) \<or> (\<exists>q e. h ! i = RanRow q (Some e)) \<and> (\<forall>err. ReadRow i err \<notin> set h)"
proof (cases "h ! i")
  case (RanRow q answer)
  with assms(3) obtain e where e: "answer = Some e" by (cases answer) (auto simp: row_failure_def)
  have "ReadRow i err \<notin> set h" for err
  proof
    assume r: "ReadRow i err \<in> set h"
    then have "honest h i err" using assms(1) by (simp add: clean_def)
    then have "err = answer" using RanRow e by (auto simp: honest_def)
    moreover from r have "row_failure err = None" using assms(1) by (auto simp: clean_def list_all_iff)
    ultimately show False using assms(3) RanRow by simp
  qed
  with RanRow e show ?thesis by simp
qed (use assms in \<open>auto simp: clean_def is_piped_def list_all_length\<close>)

lemma recordErr_simps [simp]:
  "sent (recordErr e t) = sent t" "autoErr (recordErr e t) = autoErr t" "openBatch (recordErr e t) = openBatch t"
  "batchExecuting (recordErr e t) = batchExecuting t" "tx_done (recordErr e t) = tx_done t"
  "unsentBatches (recordErr e t) = unsentBatches t" "batchMisuse (recordErr e t) = batchMisuse t"
  "held_conn (recordErr e t) = held_conn t" "recordErr None t = t"
  by (auto simp: recordErr_def split: option.split)

lemma recordErr_err: "tx_err (recordErr e t) = (if autoErr t \<and> tx_err t = None then e else tx_err t)"
  by (auto simp: recordErr_def split: option.split)

lemma recordErr_update: "recordErr e t = t\<lparr>tx_err := tx_err (recordErr e t)\<rparr>"
  by (auto simp: recordErr_def split: option.split)

lemma log_events_simps [simp]:
  "sent (log_events es t) = sent t @ es" "autoErr (log_events es t) = autoErr t" "tx_err (log_events es t) = tx_err t"
  "openBatch (log_events es t) = openBatch t" "batchExecuting (log_events es t) = batchExecuting t"
  "tx_done (log_events es t) = tx_done t" "unsentBatches (log_events es t) = unsentBatches t"
  "batchMisuse (log_events es t) = batchMisuse t" "held_conn (log_events es t) = held_conn t"
  by (simp_all add: log_events_def)

lemma latching_refl [simp]: "latching t t"
  by (simp add: latching_def)

lemma latching_trans:
  assumes "latching t1 t2" "latching t2 t3"
  shows "latching t1 t3"
  using assms unfolding latching_def by (cases t1; cases t2; cases t3) (auto simp: list_all_iff)

lemma latching_recordErr [simp]: "latching t (recordErr e t)"
  using recordErr_update [of e t] by (auto simp: latching_def recordErr_err latched_def)

lemma latching_events:
  assumes "latched t \<Longrightarrow> tx_err t = None \<Longrightarrow> e = None \<Longrightarrow> clean (sent t @ es)" "list_all (\<lambda>ev. \<not> is_piped ev) es"
  shows "latching t (recordErr e (log_events es t))"
  using assms recordErr_update [of e "log_events es t"]
  by (auto simp: latching_def latched_def recordErr_err log_events_def)

lemma latching_log:
  assumes "e = None \<Longrightarrow> list_all quiet es" "list_all (\<lambda>ev. \<not> is_piped ev) es"
  shows "latching t (recordErr e (log_events es t))"
  using assms clean_append by (intro latching_events) (auto simp: latched_def)

lemma latching_quiet:
  "list_all quiet es \<Longrightarrow> list_all (\<lambda>ev. \<not> is_piped ev) es \<Longrightarrow> latching t (log_events es t)"
  using latching_log [of None es t] by simp

lemma shortCircuit_latching: "shortCircuit t = (t1, err) \<Longrightarrow> latching t t1"
  by (auto simp: shortCircuit_def split: if_splits)

lemma shortCircuit_proceeds:
  "shortCircuit t = (t1, None) \<Longrightarrow> t1 = t \<and> \<not> batchRefuses t \<and> (autoErr t \<longrightarrow> tx_err t = None)"
  by (auto simp: shortCircuit_def split: if_splits)

lemma shortCircuit_failed:
  "autoErr t \<Longrightarrow> tx_err t = Some e \<Longrightarrow>
   shortCircuit t = (t, Some (if batchRefuses t then errBatchOpen else e))"
  by (auto simp: shortCircuit_def recordErr_def)

text \<open>Either the operation is answered at the gate, or it proceeds on the unchanged transaction.\<close>

lemma shortCircuit_cases:
  obtains (answered) t1 e where "shortCircuit t = (t1, Some e)" "latching t t1"
  | (proceeds) "shortCircuit t = (t, None)"
  by (cases "shortCircuit t"; cases "snd (shortCircuit t)")
     (auto dest: shortCircuit_proceeds shortCircuit_latching)

lemma instrumentExec_failure:
  assumes "instrumentExec pq rtt ans = (es, res)"
  shows "err_of res = None \<Longrightarrow> list_all quiet es" "list_all (\<lambda>ev. \<not> is_piped ev) es"
  using assms by (auto simp: instrumentExec_def err_of_def quiet_def is_piped_def split: option.splits sum.splits)

named_theorems statement_ops \<open>the statement operations of a transaction\<close>

lemmas [statement_ops] = tx_ExecContext_def tx_QueryContext_def tx_QueryRowContext_def tx_PrepareContext_def
  stmt_ExecContext_def stmt_QueryContext_def stmt_QueryRowContext_def stmt_recordErr_def

lemma exec_latching: "latching t (fst (tx_ExecContext pq rtt ans t))"
proof (cases rule: shortCircuit_cases [of t])
  case proceeds
  obtain es res where i: "instrumentExec pq rtt ans = (es, res)" by fastforce
  from latching_log [OF instrumentExec_failure [OF i]] proceeds i show ?thesis
    by (simp add: tx_ExecContext_def)
qed (simp add: tx_ExecContext_def)

text \<open>Querying and preparing differ from executing only in what they return.\<close>

lemma query_state: "fst (tx_QueryContext pq rtt ans t) = fst (tx_ExecContext pq rtt ans t)"
  by (auto simp: statement_ops err_of_def split: prod.splits option.splits sum.splits)

lemma prepare_state: "fst (tx_PrepareContext pq rtt ans t) = fst (tx_ExecContext pq rtt ans t)"
  by (auto simp: statement_ops err_of_def split: prod.splits option.splits sum.splits)

lemma stmt_exec_state:
  "stmt_in_tx st \<Longrightarrow> fst (stmt_ExecContext st rtt ans t) =
     (if stmt_err st = None then fst (tx_ExecContext (stmt_pq st) rtt ans t) else t)"
  by (auto simp: statement_ops stmt_shortCircuit_def split: prod.splits option.splits)

lemma stmt_query_state: "fst (stmt_QueryContext st rtt ans t) = fst (stmt_ExecContext st rtt ans t)"
  by (auto simp: statement_ops err_of_def split: prod.splits option.splits sum.splits)

lemma row_query_latching: "latching t (fst (instrumentQueryRow inTx pq queryErr t))"
  by (auto simp: instrumentQueryRow_def quiet_def is_piped_def intro!: latching_quiet split: option.split)

lemma queryrow_latching:
  "latching t (fst (tx_QueryRowContext pq queryErr t))" "latching t (fst (stmt_QueryRowContext st queryErr t))"
  by (cases rule: shortCircuit_cases [of t];
      auto simp: statement_ops stmt_shortCircuit_def row_query_latching split: option.splits)+

lemma rows_latching:
  assumes "rows_in_tx r"
  shows "latching t (fst (rows_Scan r err t))" "latching t (fst (rows_Next r ok err t))"
    "latching t (fst (rows_NextResultSet r ok err t))" "latching t (fst (rows_Err r err t))"
proof -
  have "latching t (rows_latch r err (log_events [Read err] t))"
    using latching_log [of err "[Read err]" t] assms by (auto simp: rows_latch_def quiet_def is_piped_def)
  then show "latching t (fst (rows_Scan r err t))" "latching t (fst (rows_Next r ok err t))"
    "latching t (fst (rows_NextResultSet r ok err t))" "latching t (fst (rows_Err r err t))"
    by (simp_all add: rows_Scan_def rows_Next_def rows_NextResultSet_def rows_Err_def)
qed

lemma row_latch_latching:
  assumes "row_in_tx r" "clean (sent t) \<Longrightarrow> honest (sent t) i err"
  shows "latching t (row_latch r err (log_events [ReadRow i err] t))"
proof (cases "row_failure err")
  case None
  then have "row_latch r err (log_events [ReadRow i err] t) = recordErr None (log_events [ReadRow i err] t)"
    by (auto simp: row_latch_def row_failure_def split: option.splits if_splits)
  moreover have "latching t (recordErr None (log_events [ReadRow i err] t))"
    using assms(2) None by (intro latching_events) (simp_all add: latched_def is_piped_def clean_read)
  ultimately show ?thesis by simp
next
  case (Some e)
  then have e: "err = Some e" "\<not> errors_Is e ErrNoRows" by (auto simp: row_failure_def split: option.splits if_splits)
  then have "row_latch r err (log_events [ReadRow i err] t) = recordErr err (log_events [ReadRow i err] t)"
    using assms(1) by (simp add: row_latch_def)
  moreover have "latching t (recordErr err (log_events [ReadRow i err] t))"
    using e by (intro latching_events) (simp_all add: is_piped_def)
  ultimately show ?thesis by simp
qed

lemma row_latching:
  assumes "row_of t r"
  shows "latching t (fst (row_Scan r err t))" "latching t (fst (row_Err r t))"
proof -
  have "honest (sent t) (row_id r) (case sqlErr r of Some e \<Rightarrow> Some e | None \<Rightarrow> err)"
      "honest (sent t) (row_id r) (sqlErr r)" if "shortErr r = None"
    using assms that by (auto simp: row_of_def honest_def split: option.split)
  moreover have "row_in_tx r" if "shortErr r = None" using assms that by (simp add: row_of_def)
  ultimately show "latching t (fst (row_Scan r err t))" "latching t (fst (row_Err r t))"
    by (auto simp: row_Scan_def row_Err_def Let_def intro!: row_latch_latching split: option.split)
qed

text \<open>The rows that the queries of a transaction hand out are its own, and stay so.\<close>

lemma short_row_of [simp]: "row_of t (short_row e)"
  by (simp add: row_of_def short_row_def)

lemma queried_row:
  "row_of (fst (instrumentQueryRow True pq queryErr t)) (snd (instrumentQueryRow True pq queryErr t))"
  by (simp add: instrumentQueryRow_def row_of_def short_row_def split: option.split)

lemma queryrow_row: "row_of (fst (tx_QueryRowContext pq queryErr t)) (snd (tx_QueryRowContext pq queryErr t))"
  by (cases rule: shortCircuit_cases [of t]) (simp_all add: tx_QueryRowContext_def queried_row)

lemma row_of_later: "row_of t r \<Longrightarrow> sent t' = sent t @ es \<Longrightarrow> row_of t' r"
  by (auto simp: row_of_def nth_append)

lemma bind_latching: "latching t (fst (tx_StmtContext st t))"
  by (auto simp: tx_StmtContext_def quiet_def is_piped_def intro!: latching_quiet split: prod.splits dest: shortCircuit_latching)

end
