(* ===== verification/Batches.thy ===== *)
theory Batches
  imports Transactions
begin

section \<open>Batches (batch.go, batchresults.go, batchrows.go, batchrow.go)\<close>

text \<open>
  A batch queues statements of a transaction; \<open>Send\<close> hands back results that are read in queue
  order. On a held pgx connection the statements run in one round trip when sent (\<open>pipeline\<close>) and
  their answers are buffered; otherwise each runs when its result is read, and \<open>Close\<close> runs the rest.

  Batches, results and row readers refer to each other by pointer: the caller's reader is the one
  \<^verbatim>\<open>BatchResults.open\<close> supersedes, and two results may share a batch. The state extends the
  transaction by a store of each, addressed by numbers. What pgx and \<^verbatim>\<open>database/sql\<close> answer is an
  argument of the operations.
\<close>

type_synonym raw = "string option list"

text \<open>\<open>item_pq\<close> is the prepared form of the item's statement; \<open>named_arg\<close> that an argument is a
  \<^verbatim>\<open>sql.NamedArg\<close>.\<close>

record batchItem =
  item_pq :: preparedQuery
  named_arg :: bool
  rowsAffected :: int
  item_fields :: "string list"
  buffered :: "raw list"
  item_err :: "error option"

record batch =
  items :: "batchItem list"
  b_sent :: bool

record batchResults =
  r_batch :: nat
  r_next :: nat
  r_err :: "error option"
  r_closed :: bool
  r_open :: "nat option"
  pipelined :: bool
  typeMap :: bool

subsection \<open>Buffered rows\<close>

record bufferedRows =
  bf_typeMap :: bool
  bf_fields :: "string list"
  bf_rows :: "raw list"
  bf_next :: nat

definition bf_Next :: "bufferedRows \<Rightarrow> bufferedRows \<times> bool" where
  "bf_Next r =
     (let r1 = (if bf_next r > 0 \<and> bf_next r \<le> length (bf_rows r)
                then r\<lparr>bf_rows := (bf_rows r)[bf_next r - 1 := []]\<rparr> else r) in
      if bf_next r1 \<ge> length (bf_rows r1) then (r1\<lparr>bf_next := length (bf_rows r1) + 1\<rparr>, False)
      else (r1\<lparr>bf_next := bf_next r1 + 1\<rparr>, True))"

definition errNoRow :: error where
  "errNoRow = NewError ''Scan called without a row''"

text \<open>\<open>scan\<close> is \<^verbatim>\<open>pgx.ScanRow\<close> of the raw row into the destinations.\<close>

definition bf_Scan :: "(raw \<Rightarrow> error option) \<Rightarrow> bufferedRows \<Rightarrow> error option" where
  "bf_Scan scan r =
     (if bf_next r = 0 \<or> bf_next r > length (bf_rows r) then Some errNoRow
      else scan (bf_rows r ! (bf_next r - 1)))"

definition bf_Columns :: "bufferedRows \<Rightarrow> string list" where
  "bf_Columns r = bf_fields r"

definition bf_Err :: "bufferedRows \<Rightarrow> error option" where
  "bf_Err r = None"

definition bf_Close :: "bufferedRows \<Rightarrow> bufferedRows" where
  "bf_Close r = r\<lparr>bf_rows := [], bf_typeMap := False, bf_next := 1\<rparr>"

text \<open>\<^verbatim>\<open>rowSource\<close>: the rows of a statement that ran as it was read, or buffered ones.\<close>

datatype rowSource = Live rows | Buffered bufferedRows

record batchRows =
  src :: rowSource
  rows_results :: nat
  rows_closed :: bool
  rows_done :: bool
  superseded :: bool

record txw = tx +
  batches :: "nat \<Rightarrow> batch"
  results :: "nat \<Rightarrow> batchResults"
  readers :: "nat \<Rightarrow> batchRows"
  next_batch :: nat
  next_results :: nat
  next_reader :: nat

text \<open>What reading a result set answers.\<close>

record row_answers =
  a_next :: bool
  a_err :: "error option"
  a_scan :: "error option"
  a_close :: "error option"

subsection \<open>Queueing\<close>

definition tx_Batch :: "txw \<Rightarrow> txw \<times> nat" where
  "tx_Batch w = (w\<lparr>batches := (batches w)(next_batch w := \<lparr>items = [], b_sent = False\<rparr>),
                  next_batch := next_batch w + 1\<rparr>, next_batch w)"

definition errQueuedAfterSend :: error where
  "errQueuedAfterSend = NewError ''statement queued after the batch was sent''"

definition batch_Queue :: "nat \<Rightarrow> preparedQuery \<Rightarrow> bool \<Rightarrow> txw \<Rightarrow> txw" where
  "batch_Queue b pq named w =
     (let bt = batches w b in
      if b_sent bt then
        recordErr (Some errQueuedAfterSend)
          (w\<lparr>batchMisuse := (if batchMisuse w = None then Some errQueuedAfterSend else batchMisuse w)\<rparr>)
      else
        let w1 = (if items bt = [] then w\<lparr>unsentBatches := unsentBatches w + 1\<rparr> else w) in
        w1\<lparr>batches := (batches w1)(b := bt\<lparr>items := items bt @
          [\<lparr>item_pq = pq, named_arg = named, rowsAffected = 0, item_fields = [], buffered = [], item_err = None\<rparr>]\<rparr>)\<rparr>)"

definition batch_Len :: "nat \<Rightarrow> txw \<Rightarrow> nat" where
  "batch_Len b w = length (items (batches w b))"

definition failFrom :: "nat \<Rightarrow> error \<Rightarrow> batchItem list \<Rightarrow> batchItem list" where
  "failFrom i err its = take i its @ map (\<lambda>it. it\<lparr>item_err := Some err\<rparr>) (drop i its)"

subsection \<open>One round trip\<close>

text \<open>
  What the driver does with a pipelined batch: the simulated round trip fails, the connection
  cannot be borrowed (or its transaction is already over), the driver panics, or the statements
  are sent, with an answer for each and one for closing the batch.
\<close>

type_synonym piped_answer = "error + string list \<times> raw list \<times> int \<times> error option"

datatype pipe =
    PipeRTT error
  | PipeBorrow error
  | PipePanics
  | PipeSent "nat \<Rightarrow> piped_answer" "error option"

text \<open>
  \<open>bufferResult\<close> reads one statement's answer into its item. The answer is the error of \<^verbatim>\<open>Query\<close>, or
  the fields, the raw rows, the affected count and what \<^verbatim>\<open>rows.Err\<close> reports at the end.
\<close>

definition bufferResult :: "piped_answer \<Rightarrow> batchItem \<Rightarrow> batchItem \<times> error option" where
  "bufferResult ans it =
     (case ans of
        Inl e \<Rightarrow> (it, Some e)
      | Inr (fs, rs, n, err) \<Rightarrow> (it\<lparr>item_fields := fs, buffered := buffered it @ rs, rowsAffected := n\<rparr>, err))"

text \<open>The loop over the items after \<^verbatim>\<open>SendBatch\<close>, with the first failure so far.\<close>

fun bufferResults ::
  "(nat \<Rightarrow> piped_answer) \<Rightarrow> nat \<Rightarrow> error option \<Rightarrow> batchItem list \<Rightarrow> batchItem list \<times> error option \<times> event list" where
  "bufferResults ans i first [] = ([], first, [])"
| "bufferResults ans i (Some e) (it # its) =
     (case bufferResults ans (i + 1) (Some e) its of
        (its', first, es) \<Rightarrow> (it\<lparr>item_err := Some e\<rparr> # its', first, es))"
| "bufferResults ans i None (it # its) =
     (case bufferResult (ans i) it of
        (it', err) \<Rightarrow>
          (case bufferResults ans (i + 1) err its of
             (its', first, es) \<Rightarrow>
               (it'\<lparr>item_err := err\<rparr> # its', first, Piped (pq_text (item_pq it)) err # es)))"

text \<open>\<open>pipeline\<close>: the items with their outcomes, the first failure, whether there is a type map, and
  the events. \<open>None\<close> is a panic.\<close>

definition pipeline :: "pipe \<Rightarrow> batchItem list \<Rightarrow> (batchItem list \<times> error option \<times> bool \<times> event list) option" where
  "pipeline p its =
     (case List.map_filter (\<lambda>it. pq_err (item_pq it)) its of
        e # _ \<Rightarrow> Some (failFrom 0 (Traced e) its, Some (Traced e), False, [])
      | [] \<Rightarrow>
        (case p of
           PipeRTT e \<Rightarrow> Some (failFrom 0 e its, Some e, False, [])
         | PipePanics \<Rightarrow> None
         | PipeBorrow e \<Rightarrow>
             let e' = (if errors_Is e ErrConnDone then ErrTxDone else e) in
             Some (failFrom 0 e' its, Some e', False, [])
         | PipeSent ans closeErr \<Rightarrow>
             (case bufferResults ans 0 None its of
                (its', first, es) \<Rightarrow>
                  if closeErr \<noteq> None \<and> first = None
                  then Some (failFrom 0 (the closeErr) its', closeErr, True, es)
                  else Some (its', first, True, es))))"

subsection \<open>Results\<close>

abbreviation upd_results :: "nat \<Rightarrow> (batchResults \<Rightarrow> batchResults) \<Rightarrow> txw \<Rightarrow> txw" where
  "upd_results r f w \<equiv> w\<lparr>results := (results w)(r := f (results w r))\<rparr>"

abbreviation upd_reader :: "nat \<Rightarrow> (batchRows \<Rightarrow> batchRows) \<Rightarrow> txw \<Rightarrow> txw" where
  "upd_reader k f w \<equiv> w\<lparr>readers := (readers w)(k := f (readers w k))\<rparr>"

definition items_of :: "nat \<Rightarrow> txw \<Rightarrow> batchItem list" where
  "items_of r w = items (batches w (r_batch (results w r)))"

text \<open>The error as the results store it: kept as the transaction recorded it, or traced once.\<close>

definition stored_err :: "error \<Rightarrow> txw \<Rightarrow> error" where
  "stored_err e w = (case tx_err w of
     Some recorded \<Rightarrow> if errors_Is e recorded then recorded else the (traceErr (Some e))
   | None \<Rightarrow> the (traceErr (Some e)))"

definition results_fail :: "nat \<Rightarrow> error option \<Rightarrow> txw \<Rightarrow> txw \<times> error option" where
  "results_fail r err w =
     (case err of
        None \<Rightarrow> (w, None)
      | Some e \<Rightarrow>
        let e' = stored_err e w;
            w1 = (if r_err (results w r) = None then upd_results r (r_err_update (\<lambda>_. Some e')) w else w) in
        (recordErr (Some e') w1, Some e'))"

definition doomed :: "nat \<Rightarrow> txw \<Rightarrow> txw" where
  "doomed r w = (if autoErr w \<and> tx_err w \<noteq> None then fst (results_fail r (tx_err w) w) else w)"

subsection \<open>Reading rows\<close>

definition src_Err :: "nat \<Rightarrow> row_answers \<Rightarrow> txw \<Rightarrow> txw \<times> error option" where
  "src_Err k a w = (case src (readers w k) of
     Live rs \<Rightarrow> rows_Err rs (a_err a) w
   | Buffered bf \<Rightarrow> (w, bf_Err bf))"

definition errSuperseded :: error where
  "errSuperseded = NewError ''batch rows read after a later result was read, or after the transaction ended''"

definition brows_Next :: "nat \<Rightarrow> row_answers \<Rightarrow> txw \<Rightarrow> txw \<times> bool" where
  "brows_Next k a w =
     (let r = readers w k in
      if superseded r then (recordErr (Some errSuperseded) w, False)
      else if rows_closed r then (w, False)
      else
        let (w1, ok) = (case src r of
              Live rs \<Rightarrow> rows_Next rs (a_next a) (a_err a) w
            | Buffered bf \<Rightarrow> (case bf_Next bf of (bf', ok) \<Rightarrow> (upd_reader k (src_update (\<lambda>_. Buffered bf')) w, ok))) in
        if ok then (w1, True)
        else
          let w2 = upd_reader k (rows_done_update (\<lambda>_. True)) w1; (w3, err) = src_Err k a w2 in
          (fst (results_fail (rows_results r) err w3), False))"

text \<open>\<open>scan\<close> is the outcome of scanning a raw row; a live row answers \<open>a_scan\<close>.\<close>

definition brows_Scan :: "nat \<Rightarrow> row_answers \<Rightarrow> (raw \<Rightarrow> error option) \<Rightarrow> txw \<Rightarrow> txw \<times> error option" where
  "brows_Scan k a scan w =
     (let (w1, err) = (case src (readers w k) of
          Live rs \<Rightarrow> rows_Scan rs (a_scan a) w
        | Buffered bf \<Rightarrow> (w, bf_Scan scan bf)) in
      results_fail (rows_results (readers w k)) err w1)"

definition brows_Err :: "nat \<Rightarrow> row_answers \<Rightarrow> txw \<Rightarrow> txw \<times> error option" where
  "brows_Err k a w =
     (if superseded (readers w k) then (recordErr (Some errSuperseded) w, Some errSuperseded)
      else case src_Err k a w of (w1, err) \<Rightarrow> (w1, traceErr err))"

definition brows_Close :: "nat \<Rightarrow> row_answers \<Rightarrow> txw \<Rightarrow> txw \<times> error option" where
  "brows_Close k a w =
     (let r = readers w k in
      if rows_closed r then (w, None)
      else
        let w1 = upd_reader k (rows_closed_update (\<lambda>_. True)) w;
            (w2, err) = (case src r of
                Live rs \<Rightarrow> (w1, a_close a)
              | Buffered bf \<Rightarrow> (upd_reader k (src_update (\<lambda>_. Buffered (bf_Close bf))) w1, None));
            (w3, e) = src_Err k a w2 in
        (fst (results_fail (rows_results r) e w3), traceErr err))"

definition supersedeOpen :: "nat \<Rightarrow> row_answers \<Rightarrow> txw \<Rightarrow> txw" where
  "supersedeOpen r a w =
     (case r_open (results w r) of
        None \<Rightarrow> w
      | Some k \<Rightarrow>
        let w1 = (if \<not> rows_closed (readers w k) \<and> \<not> rows_done (readers w k)
                  then upd_reader k (superseded_update (\<lambda>_. True)) w else w) in
        upd_results r (r_open_update (\<lambda>_. None)) (fst (brows_Close k a w1)))"

subsection \<open>Reading results\<close>

definition errResultsClosed :: error where
  "errResultsClosed = NewError ''batch results are closed''"

definition errNoMoreResults :: error where
  "errNoMoreResults = NewError ''no more results in the batch''"

definition advance :: "nat \<Rightarrow> row_answers \<Rightarrow> txw \<Rightarrow> txw \<times> (error + batchItem)" where
  "advance r a w =
     (let w1 = supersedeOpen r a w in
      if r_closed (results w1 r) then (w1, Inl errResultsClosed)
      else
        let w2 = doomed r w1 in
        case r_err (results w2 r) of
          Some e \<Rightarrow> (upd_results r (r_next_update Suc) w2, Inl e)
        | None \<Rightarrow>
          if r_next (results w2 r) \<ge> length (items_of r w2) then (w2, Inl errNoMoreResults)
          else
            let it = items_of r w2 ! r_next (results w2 r);
                w3 = upd_results r (r_next_update Suc) w2 in
            if pipelined (results w3 r) \<and> item_err it \<noteq> None
            then (case results_fail r (item_err it) w3 of (w4, e) \<Rightarrow> (w4, Inl (the e)))
            else (w3, Inr it))"

text \<open>The answer to a statement of the batch, or its panic.\<close>

datatype 'v answer = Answers "error option" "error + 'v" | Panics

definition errBatchPanic :: error where
  "errBatchPanic = NewError ''panic while running a batch statement''"

text \<open>
  \<open>run\<close> of a statement of the batch: \<open>None\<close> is the panic passed on. The statement is issued by \<open>Exec\<close>
  and \<open>Close\<close> with \<^verbatim>\<open>ExecContext\<close> and by \<open>Query\<close> with \<^verbatim>\<open>QueryContext\<close>, which do the same to the
  transaction (\<open>query_state\<close>).
\<close>

definition results_run :: "nat \<Rightarrow> batchItem \<Rightarrow> 'v answer \<Rightarrow> txw \<Rightarrow> txw \<times> (error + 'v) option" where
  "results_run r it ans w =
     (let w1 = w\<lparr>batchExecuting := True\<rparr> in
      case ans of
        Answers rtt res \<Rightarrow>
          (case tx_ExecContext (item_pq it) rtt res w1 of (w2, res') \<Rightarrow> (w2\<lparr>batchExecuting := False\<rparr>, Some res'))
      | Panics \<Rightarrow> (fst (results_fail r (Some errBatchPanic) (w1\<lparr>batchExecuting := False\<rparr>)), None))"

definition results_Exec :: "nat \<Rightarrow> row_answers \<Rightarrow> 'v answer \<Rightarrow> txw \<Rightarrow> txw \<times> (error + 'v + int) option" where
  "results_Exec r a ans w =
     (case advance r a w of
        (w1, Inl e) \<Rightarrow> (w1, Some (Inl e))
      | (w1, Inr it) \<Rightarrow>
        if pipelined (results w1 r) then (w1, Some (Inr (Inr (rowsAffected it))))
        else
          (case results_run r it ans w1 of
             (w2, None) \<Rightarrow> (w2, None)
           | (w2, Some (Inl e)) \<Rightarrow> (case results_fail r (Some e) w2 of (w3, e') \<Rightarrow> (w3, Some (Inl (the e'))))
           | (w2, Some (Inr v)) \<Rightarrow> (w2, Some (Inr (Inl v)))))"

definition add_reader :: "nat \<Rightarrow> rowSource \<Rightarrow> txw \<Rightarrow> txw \<times> nat" where
  "add_reader r s w =
     (let k = next_reader w in
      (upd_results r (r_open_update (\<lambda>_. Some k))
         (w\<lparr>readers := (readers w)(k := \<lparr>src = s, rows_results = r, rows_closed = False, rows_done = False,
                                        superseded = False\<rparr>),
            next_reader := k + 1\<rparr>), k))"

definition results_Query :: "nat \<Rightarrow> row_answers \<Rightarrow> 'v answer \<Rightarrow> txw \<Rightarrow> txw \<times> (error + nat) option" where
  "results_Query r a ans w =
     (case advance r a w of
        (w1, Inl e) \<Rightarrow> (w1, Some (Inl e))
      | (w1, Inr it) \<Rightarrow>
        if pipelined (results w1 r) then
          let b = r_batch (results w1 r); i = r_next (results w1 r) - 1; bt = batches w1 b;
              w2 = w1\<lparr>batches := (batches w1)(b := bt\<lparr>items := (items bt)[i := it\<lparr>buffered := []\<rparr>]\<rparr>)\<rparr> in
          (case add_reader r (Buffered \<lparr>bf_typeMap = typeMap (results w1 r), bf_fields = item_fields it,
                                        bf_rows = buffered it, bf_next = 0\<rparr>) w2 of
             (w3, k) \<Rightarrow> (w3, Some (Inr k)))
        else
          (case results_run r it ans w1 of
             (w2, None) \<Rightarrow> (w2, None)
           | (w2, Some (Inl e)) \<Rightarrow> (case results_fail r (Some e) w2 of (w3, e') \<Rightarrow> (w3, Some (Inl (the e'))))
           | (w2, Some (Inr v)) \<Rightarrow>
               (case add_reader r (Live \<lparr>rows_in_tx = True\<rparr>) w2 of (w3, k) \<Rightarrow> (w3, Some (Inr k)))))"

definition abandon :: "nat \<Rightarrow> row_answers \<Rightarrow> txw \<Rightarrow> txw" where
  "abandon r a w =
     (let w1 = supersedeOpen r a w;
          w2 = upd_results r (\<lambda>x. x\<lparr>r_closed := True, typeMap := False\<rparr>) w1;
          b = r_batch (results w2 r); bt = batches w2 b;
          w3 = w2\<lparr>batches := (batches w2)(b := bt\<lparr>items :=
                 map (\<lambda>it. it\<lparr>item_fields := [], buffered := []\<rparr>) (items bt)\<rparr>)\<rparr> in
      if openBatch w3 = Some r then w3\<lparr>openBatch := None\<rparr> else w3)"

text \<open>The loop of \<open>Close\<close> over the statements not read yet, at most \<open>n\<close> of them; \<open>False\<close> is a panic.\<close>

fun close_rest :: "nat \<Rightarrow> nat \<Rightarrow> (nat \<Rightarrow> 'v answer) \<Rightarrow> txw \<Rightarrow> txw \<times> bool" where
  "close_rest 0 r ans w = (w, True)"
| "close_rest (Suc n) r ans w =
     (if r_err (results w r) = None \<and> r_next (results w r) < length (items_of r w) then
        let i = r_next (results w r) in
        (case results_run r (items_of r w ! i) (ans i) (upd_results r (r_next_update Suc) w) of
           (w2, None) \<Rightarrow> (w2, False)
         | (w2, Some res) \<Rightarrow> close_rest n r ans (fst (results_fail r (err_of res) w2)))
      else (w, True))"

definition results_Close :: "nat \<Rightarrow> row_answers \<Rightarrow> (nat \<Rightarrow> 'v answer) \<Rightarrow> txw \<Rightarrow> txw \<times> error option option" where
  "results_Close r a ans w =
     (if r_closed (results w r) then (w, Some (r_err (results w r)))
      else
        let w1 = doomed r (supersedeOpen r a w);
            (w2, ok) = (if pipelined (results w1 r)
              then (fst (results_fail r (case List.map_filter item_err (items_of r w1) of [] \<Rightarrow> None | e # _ \<Rightarrow> Some e) w1), True)
              else close_rest (length (items_of r w1) - r_next (results w1 r)) r ans w1);
            w3 = abandon r a w2 in
        (w3, if ok then Some (r_err (results w2 r)) else None))"

subsection \<open>Sending\<close>

definition errAlreadySent :: error where
  "errAlreadySent = NewError ''batch already sent''"

definition errNamedArg :: error where
  "errNamedArg = NewError ''named arguments are not supported in a batch''"

text \<open>The results' number, or the panic of the driver.\<close>

definition batch_Send :: "nat \<Rightarrow> pipe \<Rightarrow> txw \<Rightarrow> txw \<times> nat option" where
  "batch_Send b p w0 =
     (let r = next_results w0; bt = batches w0 b;
          w = w0\<lparr>results := (results w0)(r := \<lparr>r_batch = b, r_next = 0, r_err = None, r_closed = False,
                   r_open = None, pipelined = False, typeMap = False\<rparr>), next_results := r + 1\<rparr> in
      if b_sent bt then (fst (results_fail r (Some errAlreadySent) w), Some r)
      else
        let w1 = w\<lparr>batches := (batches w)(b := bt\<lparr>b_sent := True\<rparr>)\<rparr>;
            w2 = (if items bt \<noteq> [] then w1\<lparr>unsentBatches := unsentBatches w1 - 1\<rparr> else w1) in
        case shortCircuit w2 of
          (w3, Some e) \<Rightarrow> (upd_results r (r_err_update (\<lambda>_. Some e)) w3, Some r)
        | (w3, None) \<Rightarrow>
          if list_ex named_arg (items bt) then (fst (results_fail r (Some errNamedArg) w3), Some r)
          else if items bt = [] then (w3, Some r)
          else
            let w4 = w3\<lparr>openBatch := Some r\<rparr> in
            if held_conn w4 then
              (case pipeline p (items bt) of
                 None \<Rightarrow> (upd_results r (pipelined_update (\<lambda>_. True)) w4, None)
               | Some (its, first, tm, es) \<Rightarrow>
                   (log_events es (upd_results r (\<lambda>x. x\<lparr>pipelined := True, typeMap := tm\<rparr>)
                      (w4\<lparr>batches := (batches w4)(b := (batches w4 b)\<lparr>items := its\<rparr>)\<rparr>)), Some r))
            else (w4, Some r))"

definition tx_Rollback :: "row_answers \<Rightarrow> error option \<Rightarrow> txw \<Rightarrow> txw \<times> error option" where
  "tx_Rollback a ans w =
     finalize ''ROLLBACK'' ans (case openBatch w of None \<Rightarrow> w | Some r \<Rightarrow> abandon r a w)"

subsection \<open>A single row of a batch\<close>

record batchRow =
  brow_rows :: "nat option"
  brow_err :: "error option"

definition results_QueryRow :: "nat \<Rightarrow> row_answers \<Rightarrow> 'v answer \<Rightarrow> txw \<Rightarrow> txw \<times> batchRow option" where
  "results_QueryRow r a ans w =
     (case results_Query r a ans w of
        (w1, None) \<Rightarrow> (w1, None)
      | (w1, Some (Inl e)) \<Rightarrow> (w1, Some \<lparr>brow_rows = None, brow_err = Some e\<rparr>)
      | (w1, Some (Inr k)) \<Rightarrow> (w1, Some \<lparr>brow_rows = Some k, brow_err = None\<rparr>))"

definition errRawBytes :: error where
  "errRawBytes = NewError ''sql.RawBytes is not a valid QueryRow destination''"

definition brow_Scan ::
  "batchRow \<Rightarrow> row_answers \<Rightarrow> (raw \<Rightarrow> error option) \<Rightarrow> bool \<Rightarrow> txw \<Rightarrow> txw \<times> error option" where
  "brow_Scan br a scan rawDest w =
     (case brow_err br of
        Some e \<Rightarrow> (w, Some e)
      | None \<Rightarrow>
        let k = the (brow_rows br) in
        if superseded (readers w k) then (recordErr (Some errSuperseded) w, Some errSuperseded)
        else case brows_Next k a w of
          (w1, False) \<Rightarrow>
            (case brows_Err k a w1 of
               (w2, err) \<Rightarrow> (fst (brows_Close k a w2), case err of Some e \<Rightarrow> Some e | None \<Rightarrow> Some ErrNoRows))
        | (w1, True) \<Rightarrow>
            if rawDest then
              (case results_fail (rows_results (readers w1 k)) (Some errRawBytes) w1 of
                 (w2, e) \<Rightarrow> (fst (brows_Close k a w2), e))
            else
              (case brows_Scan k a scan w1 of
                 (w2, Some e) \<Rightarrow> (fst (brows_Close k a w2), Some e)
               | (w2, None) \<Rightarrow> brows_Close k a w2))"

definition brow_Err :: "batchRow \<Rightarrow> row_answers \<Rightarrow> txw \<Rightarrow> txw \<times> error option" where
  "brow_Err br a w = (case brow_err br of Some e \<Rightarrow> (w, Some e) | None \<Rightarrow> brows_Err (the (brow_rows br)) a w)"

end
