(* ===== verification/Batch_Core.thy ===== *)
theory Batch_Core
  imports Batches
begin

section \<open>What a transaction owes the database\<close>

text \<open>
  The part of a transaction's state that decides whether it may commit: the latch, the history, and
  for each batch its statements, its errors and how far its results have been read. Buffers, row
  readers and type maps are forgotten. The operations of batches act on this core as the simple
  updates stated here, and the invariant of the next theory is about the core alone.
\<close>

record core =
  c_auto :: bool
  c_err :: "error option"
  c_done :: bool
  c_held :: bool
  c_unsent :: int
  c_misuse :: bool
  c_open :: "nat option"
  c_exec :: bool
  c_sent :: "event list"
  c_nb :: nat
  c_nr :: nat
  c_texts :: "nat \<Rightarrow> string list"
  c_errs :: "nat \<Rightarrow> error option list"
  c_bsent :: "nat \<Rightarrow> bool"
  c_rbatch :: "nat \<Rightarrow> nat"
  c_rnext :: "nat \<Rightarrow> nat"
  c_rerr :: "nat \<Rightarrow> error option"
  c_closed :: "nat \<Rightarrow> bool"
  c_pipe :: "nat \<Rightarrow> bool"

abbreviation texts_of :: "batchItem list \<Rightarrow> string list" where
  "texts_of its \<equiv> map (\<lambda>it. pq_text (item_pq it)) its"

definition core_of :: "txw \<Rightarrow> core" where
  "core_of w =
     \<lparr>c_auto = autoErr w, c_err = tx_err w, c_done = tx_done w, c_held = held_conn w, c_unsent = unsentBatches w,
      c_misuse = (batchMisuse w \<noteq> None), c_open = openBatch w, c_exec = batchExecuting w, c_sent = sent w,
      c_nb = next_batch w, c_nr = next_results w,
      c_texts = (\<lambda>b. texts_of (items (batches w b))), c_errs = (\<lambda>b. map item_err (items (batches w b))),
      c_bsent = (\<lambda>b. b_sent (batches w b)), c_rbatch = (\<lambda>r. r_batch (results w r)),
      c_rnext = (\<lambda>r. r_next (results w r)), c_rerr = (\<lambda>r. r_err (results w r)),
      c_closed = (\<lambda>r. r_closed (results w r)), c_pipe = (\<lambda>r. pipelined (results w r))\<rparr>"

lemma comp_upd: "(\<lambda>x. f ((g(a := b)) x)) = (\<lambda>x. f (g x))(a := f b)"
  by auto

lemma comp_upd_same [simp]: "f b = f (g a) \<Longrightarrow> (\<lambda>x. f (g x))(a := f b) = (\<lambda>x. f (g x))"
  by auto

text \<open>Every row reader of a running statement reports to the transaction.\<close>

definition live_ok :: "txw \<Rightarrow> bool" where
  "live_ok w \<longleftrightarrow> (\<forall>k rs. src (readers w k) = Live rs \<longrightarrow> rows_in_tx rs)"

lemma core_reader [simp]: "core_of (upd_reader k f w) = core_of w"
  by (simp add: core_of_def)

lemma core_r_open [simp]: "core_of (upd_results r (r_open_update f) w) = core_of w"
  by (auto simp: core_of_def fun_eq_iff)

lemma core_recordErr: "core_of (recordErr e w) = (core_of w)\<lparr>c_err := if autoErr w \<and> tx_err w = None then e else tx_err w\<rparr>"
  by (auto simp: core_of_def recordErr_def split: option.split)

lemma core_log [simp]: "core_of (log_events es w) = (core_of w)\<lparr>c_sent := sent w @ es\<rparr>"
  by (simp add: core_of_def log_events_def)

lemma core_next: "core_of (upd_results r (r_next_update Suc) w) =
  (core_of w)\<lparr>c_rnext := (c_rnext (core_of w))(r := Suc (r_next (results w r)))\<rparr>"
  by (auto simp: core_of_def fun_eq_iff)

lemma core_sel [simp]:
  "c_auto (core_of w) = autoErr w" "c_err (core_of w) = tx_err w" "c_done (core_of w) = tx_done w"
  "c_held (core_of w) = held_conn w" "c_unsent (core_of w) = unsentBatches w" "c_open (core_of w) = openBatch w"
  "c_misuse (core_of w) = (batchMisuse w \<noteq> None)" "c_exec (core_of w) = batchExecuting w"
  "c_sent (core_of w) = sent w" "c_nb (core_of w) = next_batch w" "c_nr (core_of w) = next_results w"
  "c_texts (core_of w) b = texts_of (items (batches w b))" "c_errs (core_of w) b = map item_err (items (batches w b))"
  "c_bsent (core_of w) b = b_sent (batches w b)" "c_rbatch (core_of w) r = r_batch (results w r)"
  "c_rnext (core_of w) r = r_next (results w r)" "c_rerr (core_of w) r = r_err (results w r)"
  "c_closed (core_of w) r = r_closed (results w r)" "c_pipe (core_of w) r = pipelined (results w r)"
  by (simp_all add: core_of_def)

subsection \<open>Steps of the core\<close>

text \<open>
  \<open>gentle c c'\<close>: what reading rows and failing results may do, namely append reads to the history, set
  the latch where it is clear, and set errors of results when it ends up set. Nothing else.
\<close>

definition c_latched :: "core \<Rightarrow> bool" where
  "c_latched c \<longleftrightarrow> (c_err c = None \<longrightarrow> clean (c_sent c))"

definition gentle :: "core \<Rightarrow> core \<Rightarrow> bool" where
  "gentle c c' \<longleftrightarrow>
     c' = c\<lparr>c_err := c_err c', c_sent := c_sent c', c_rerr := c_rerr c'\<rparr> \<and>
     (\<exists>es. c_sent c' = c_sent c @ es \<and> stmts es = []) \<and>
     (c_err c \<noteq> None \<longrightarrow> c_err c' = c_err c) \<and>
     (c_auto c \<longrightarrow> c_latched c \<longrightarrow> c_latched c') \<and>
     (c_auto c \<longrightarrow> c_err c' = None \<longrightarrow> c_rerr c' = c_rerr c)"

lemma gentle_refl [simp]: "gentle c c"
  by (auto simp: gentle_def)

lemma gentle_fields:
  assumes "gentle c c'"
  shows "c_auto c' = c_auto c" "c_done c' = c_done c" "c_held c' = c_held c" "c_unsent c' = c_unsent c"
    "c_misuse c' = c_misuse c" "c_open c' = c_open c" "c_exec c' = c_exec c" "c_nb c' = c_nb c" "c_nr c' = c_nr c"
    "c_texts c' = c_texts c" "c_errs c' = c_errs c" "c_bsent c' = c_bsent c" "c_rbatch c' = c_rbatch c"
    "c_rnext c' = c_rnext c" "c_closed c' = c_closed c" "c_pipe c' = c_pipe c"
proof -
  have eq: "c' = c\<lparr>c_err := c_err c', c_sent := c_sent c', c_rerr := c_rerr c'\<rparr>" using assms by (simp add: gentle_def)
  show "c_auto c' = c_auto c" "c_done c' = c_done c" "c_held c' = c_held c" "c_unsent c' = c_unsent c"
    "c_misuse c' = c_misuse c" "c_open c' = c_open c" "c_exec c' = c_exec c" "c_nb c' = c_nb c" "c_nr c' = c_nr c"
    "c_texts c' = c_texts c" "c_errs c' = c_errs c" "c_bsent c' = c_bsent c" "c_rbatch c' = c_rbatch c"
    "c_rnext c' = c_rnext c" "c_closed c' = c_closed c" "c_pipe c' = c_pipe c"
    by (subst eq, simp)+
qed

lemma gentle_trans:
  assumes g: "gentle c1 c2" "gentle c2 c3"
  shows "gentle c1 c3"
  unfolding gentle_def
proof (intro conjI impI)
  show "c3 = c1\<lparr>c_err := c_err c3, c_sent := c_sent c3, c_rerr := c_rerr c3\<rparr>"
    by (rule core.equality) (simp_all add: gentle_fields [OF g(1)] gentle_fields [OF g(2)])
  show "\<exists>es. c_sent c3 = c_sent c1 @ es \<and> stmts es = []"
    using g unfolding gentle_def by (metis append.assoc append_Nil filter_append)
  show "c_err c1 \<noteq> None \<Longrightarrow> c_err c3 = c_err c1" using g unfolding gentle_def by metis
  show "c_auto c1 \<Longrightarrow> c_latched c1 \<Longrightarrow> c_latched c3"
    using g gentle_fields(1) [OF g(1)] unfolding gentle_def by metis
  show "c_auto c1 \<Longrightarrow> c_err c3 = None \<Longrightarrow> c_rerr c3 = c_rerr c1"
    using g gentle_fields(1) [OF g(1)] unfolding gentle_def by metis
qed

text \<open>Reading rows and failing results are gentle.\<close>

lemma latched_core: "latched w \<longleftrightarrow> autoErr w \<and> c_latched (core_of w)"
  by (simp add: latched_def c_latched_def)

lemma gentleI:
  assumes "c' = c\<lparr>c_err := e, c_sent := c_sent c @ es, c_rerr := x\<rparr>" "stmts es = []"
    "c_err c \<noteq> None \<Longrightarrow> e = c_err c" "c_auto c \<Longrightarrow> e = None \<Longrightarrow> list_all quiet es \<and> x = c_rerr c"
  shows "gentle c c'"
  unfolding gentle_def c_latched_def
proof (intro conjI impI)
  show "c' = c\<lparr>c_err := c_err c', c_sent := c_sent c', c_rerr := c_rerr c'\<rparr>" using assms(1) by simp
  show "\<exists>es. c_sent c' = c_sent c @ es \<and> stmts es = []" using assms(1,2) by auto
  show "c_err c \<noteq> None \<Longrightarrow> c_err c' = c_err c" using assms(1,3) by simp
  show "clean (c_sent c')"
    if "c_auto c" "c_err c = None \<longrightarrow> clean (c_sent c)" "c_err c' = None"
    using that assms by (cases "c_err c") (auto intro: clean_append)
  show "c_auto c \<Longrightarrow> c_err c' = None \<Longrightarrow> c_rerr c' = c_rerr c" using assms(1,4) by simp
qed

lemma gentle_recordErr [simp]: "gentle (core_of w) (core_of (recordErr e w))"
  by (rule gentleI [where es = "[]" and e = "tx_err (recordErr e w)" and x = "c_rerr (core_of w)"])
     (auto simp: core_recordErr recordErr_err)

lemma results_fail_gentle: "gentle (core_of w) (core_of (fst (results_fail r err w)))"
proof (cases err)
  case (Some e)
  let ?e = "stored_err e w"
  define w1 where "w1 = (if r_err (results w r) = None then upd_results r (r_err_update (\<lambda>_. Some ?e)) w else w)"
  have f: "fst (results_fail r err w) = recordErr (Some ?e) w1"
    by (simp add: Some results_fail_def w1_def Let_def)
  obtain x where w1: "core_of w1 = (core_of w)\<lparr>c_rerr := x\<rparr>" "autoErr w1 = autoErr w" "tx_err w1 = tx_err w"
  proof
    show "core_of w1 = (core_of w)\<lparr>c_rerr := \<lambda>r. r_err (results w1 r)\<rparr>"
      by (auto simp: w1_def core_of_def fun_eq_iff)
  qed (simp_all add: w1_def)
  show ?thesis unfolding f
    by (rule gentleI [where es = "[]" and x = x and e = "if autoErr w \<and> tx_err w = None then Some ?e else tx_err w"])
       (auto simp: core_recordErr w1 split: if_splits)
qed (simp add: results_fail_def)

lemma results_fail_err:
  "autoErr w \<Longrightarrow> err \<noteq> None \<Longrightarrow> tx_err (fst (results_fail r err w)) \<noteq> None"
  by (auto simp: results_fail_def Let_def recordErr_err)

lemma gentle_rows_latch:
  assumes "rows_in_tx rs"
  shows "gentle (core_of w) (core_of (rows_latch rs err (log_events [Read err] w)))"
proof -
  have eq: "rows_latch rs err (log_events [Read err] w) = recordErr err (log_events [Read err] w)"
    using assms by (cases err) (auto simp: rows_latch_def)
  show ?thesis unfolding eq
    by (rule gentleI [where es = "[Read err]" and x = "c_rerr (core_of w)" and
          e = "if autoErr w \<and> tx_err w = None then err else tx_err w"])
       (auto simp: is_stmt_def quiet_def core_of_def recordErr_def log_events_def split: option.split if_splits)
qed

lemma src_Err_gentle: "live_ok w \<Longrightarrow> gentle (core_of w) (core_of (fst (src_Err k a w)))"
  by (auto simp: src_Err_def rows_Err_def live_ok_def gentle_rows_latch split: rowSource.split)

text \<open>Which readers there are changes only by reader updates that keep live readers reporting.\<close>

lemma readers_recordErr [simp]: "readers (recordErr e w) = readers w"
  by (simp add: recordErr_def split: option.split)

lemma readers_log [simp]: "readers (log_events es w) = readers w"
  by (simp add: log_events_def)

lemma readers_fail [simp]: "readers (fst (results_fail r e w)) = readers w"
  by (simp add: results_fail_def Let_def split: option.split)

lemma readers_src_Err [simp]: "readers (fst (src_Err k a w)) = readers w"
  by (simp add: src_Err_def rows_Err_def rows_latch_def split: rowSource.split)

lemma live_ok_cong: "readers w' = readers w \<Longrightarrow> live_ok w' = live_ok w"
  by (simp add: live_ok_def)

lemma live_ok_upd: "live_ok w \<Longrightarrow> (\<And>rs. src (f (readers w k)) = Live rs \<Longrightarrow> src (readers w k) = Live rs) \<Longrightarrow>
  live_ok (upd_reader k f w)"
  by (auto simp: live_ok_def)

text \<open>\<open>reads w w'\<close>: an operation that is gentle and keeps live readers reporting.\<close>

definition reads :: "txw \<Rightarrow> txw \<Rightarrow> bool" where
  "reads w w' \<longleftrightarrow> (live_ok w \<longrightarrow> live_ok w' \<and> gentle (core_of w) (core_of w'))"

lemma reads_refl [simp]: "reads w w"
  by (simp add: reads_def)

lemma reads_trans [trans]: "reads w1 w2 \<Longrightarrow> reads w2 w3 \<Longrightarrow> reads w1 w3"
  using gentle_trans unfolding reads_def by blast

lemma reads_reader:
  "(\<And>rs. src (f (readers w k)) = Live rs \<Longrightarrow> src (readers w k) = Live rs) \<Longrightarrow> reads w (upd_reader k f w)"
  using live_ok_upd [of w f k] by (simp add: reads_def)

lemma core_readers [simp]: "core_of (w\<lparr>readers := g\<rparr>) = core_of w"
  by (simp add: core_of_def)

lemma reads_readers:
  "(\<And>j rs. src (g j) = Live rs \<Longrightarrow> src (readers w j) = Live rs) \<Longrightarrow> reads w (w\<lparr>readers := g\<rparr>)"
  by (auto simp: reads_def live_ok_def)

lemma reads_not_live: "\<not> live_ok w \<Longrightarrow> reads w w'"
  by (simp add: reads_def)

lemma reads_r_open: "reads w (upd_results r (r_open_update f) w)"
  by (simp add: reads_def live_ok_def)

lemma reads_recordErr: "reads w (recordErr e w)"
  by (simp add: reads_def live_ok_cong [OF readers_recordErr])

lemma reads_fail: "reads w (fst (results_fail r e w))"
  by (simp add: reads_def live_ok_cong [OF readers_fail] results_fail_gentle)

lemma reads_src_Err: "reads w (fst (src_Err k a w))"
  by (simp add: reads_def live_ok_cong [OF readers_src_Err] src_Err_gentle)

lemma reads_latch:
  "live_ok w \<Longrightarrow> src (readers w k) = Live rs \<Longrightarrow> reads w (rows_latch rs err (log_events [Read err] w))"
  using gentle_rows_latch [of rs w err] by (simp add: reads_def live_ok_def rows_latch_def)

lemma reads_brows_Scan: "reads w (fst (brows_Scan k a scan w))"
proof (cases "live_ok w")
  case True
  have "reads w (fst (case src (readers w k) of
          Live rs \<Rightarrow> rows_Scan rs (a_scan a) w
        | Buffered bf \<Rightarrow> (w, bf_Scan scan bf)))"
    using reads_latch [OF True] by (simp add: rows_Scan_def split: rowSource.split)
  then show ?thesis using reads_trans reads_fail by (fastforce simp: brows_Scan_def split: prod.split)
qed (simp add: reads_def)

lemma reads_brows_Err: "reads w (fst (brows_Err k a w))"
  using reads_src_Err [of w k a] by (auto simp: brows_Err_def reads_recordErr split: prod.splits)

lemma reads_brows_Close: "reads w (fst (brows_Close k a w))"
proof (cases "rows_closed (readers w k)")
  case False
  let ?w1 = "upd_reader k (rows_closed_update (\<lambda>_. True)) w"
  define w2 where "w2 = (case src (readers w k) of
      Live rs \<Rightarrow> ?w1
    | Buffered bf \<Rightarrow> upd_reader k (src_update (\<lambda>_. Buffered (bf_Close bf))) ?w1)"
  have "reads w w2" by (auto simp: w2_def intro!: reads_readers split: rowSource.split if_splits)
  also have "reads w2 (fst (src_Err k a w2))" by (rule reads_src_Err)
  finally have "reads w (fst (results_fail (rows_results (readers w k)) (snd (src_Err k a w2)) (fst (src_Err k a w2))))"
    using reads_fail reads_trans by blast
  then show ?thesis using False
    by (simp add: brows_Close_def Let_def w2_def split_beta split: rowSource.splits)
qed (simp add: brows_Close_def)

lemma reads_brows_Next: "reads w (fst (brows_Next k a w))"
proof (cases "superseded (readers w k) \<or> rows_closed (readers w k) \<or> \<not> live_ok w")
  case True
  then show ?thesis by (auto simp: brows_Next_def reads_recordErr reads_not_live Let_def)
next
  case False
  define n where "n = (case src (readers w k) of
      Live rs \<Rightarrow> rows_Next rs (a_next a) (a_err a) w
    | Buffered bf \<Rightarrow> (case bf_Next bf of (bf', ok) \<Rightarrow> (upd_reader k (src_update (\<lambda>_. Buffered bf')) w, ok)))"
  have n: "reads w (fst n)"
  proof (cases "src (readers w k)")
    case (Live rs)
    then show ?thesis using False reads_latch [of w k rs "a_err a"] by (simp add: n_def rows_Next_def)
  next
    case (Buffered bf)
    then show ?thesis by (auto simp: n_def intro!: reads_readers split: prod.split if_splits)
  qed
  let ?w2 = "upd_reader k (rows_done_update (\<lambda>_. True)) (fst n)"
  have "reads (fst n) ?w2" by (rule reads_reader) simp
  with n have "reads w ?w2" by (rule reads_trans)
  then have "reads w (fst (src_Err k a ?w2))" using reads_src_Err by (rule reads_trans)
  then have "reads w (fst (results_fail r e (fst (src_Err k a ?w2))))" for r e
    using reads_fail by (rule reads_trans)
  with n False show ?thesis
    by (simp add: brows_Next_def n_def [symmetric] Let_def split_beta)
qed

lemma reads_supersedeOpen: "reads w (supersedeOpen r a w)"
proof (cases "r_open (results w r)")
  case (Some k)
  define w1 where "w1 = (if \<not> rows_closed (readers w k) \<and> \<not> rows_done (readers w k)
                  then upd_reader k (superseded_update (\<lambda>_. True)) w else w)"
  have "reads w w1" by (auto simp: w1_def intro!: reads_reader)
  also have "reads w1 (fst (brows_Close k a w1))" by (rule reads_brows_Close)
  also have "reads \<dots> (upd_results r (r_open_update (\<lambda>_. None)) \<dots>)" by (rule reads_r_open)
  finally show ?thesis using Some by (simp add: supersedeOpen_def w1_def Let_def)
qed (simp add: supersedeOpen_def)

lemma reads_doomed: "reads w (doomed r w)"
  by (simp add: doomed_def reads_fail)

end
