(* ===== verification/Batch_Inv.thy ===== *)
theory Batch_Inv
  imports Batch_Core
begin

section \<open>The invariant of a transaction with batches\<close>

text \<open>
  While no error is recorded, every sent batch has run in full, its statements one after the other
  in queue order, or is the one whose results are being read, with exactly the statements read so
  far run. The invariant is about the core; each operation of a closure keeps it.
\<close>

definition ran_texts :: "string list \<Rightarrow> event list" where
  "ran_texts ts = map (\<lambda>q. Ran q None) ts"

definition piped :: "string list \<Rightarrow> event list" where
  "piped ts = map (\<lambda>q. Piped q None) ts"

definition ran_batch :: "core \<Rightarrow> nat \<Rightarrow> bool" where
  "ran_batch c b \<longleftrightarrow>
     (\<exists>pre post es. stmts (c_sent c) = pre @ es @ post \<and> (es = ran_texts (c_texts c b) \<or> es = piped (c_texts c b)))"

definition progress :: "core \<Rightarrow> nat \<Rightarrow> bool" where
  "progress c r \<longleftrightarrow>
     (let b = c_rbatch c r in
      if c_pipe c r then list_all (\<lambda>e. e = None) (c_errs c b) \<longrightarrow> ran_batch c b
      else c_rnext c r \<le> length (c_texts c b) \<and>
           (\<exists>pre. stmts (c_sent c) = pre @ ran_texts (take (c_rnext c r) (c_texts c b))))"

definition unsent :: "core \<Rightarrow> nat set" where
  "unsent c = {b. \<not> c_bsent c b \<and> c_texts c b \<noteq> []}"

text \<open>The bookkeeping, which holds whether or not the transaction has failed.\<close>

definition c_struct :: "core \<Rightarrow> bool" where
  "c_struct c \<longleftrightarrow> c_auto c \<and> \<not> c_exec c \<and> \<not> c_done c \<and> c_latched c \<and>
     (\<forall>b \<ge> c_nb c. c_texts c b = [] \<and> \<not> c_bsent c b) \<and>
     c_unsent c = int (card (unsent c)) \<and>
     (\<forall>r. c_open c = Some r \<longrightarrow> r < c_nr c \<and> \<not> c_closed c r) \<and>
     (\<forall>r \<ge> c_nr c. c_closed c r) \<and>
     (\<forall>r. \<not> c_closed c r \<longrightarrow> c_bsent c (c_rbatch c r)) \<and>
     (\<forall>r. c_rerr c r \<noteq> None \<longrightarrow> c_err c \<noteq> None)"

text \<open>
  A pipelined statement that failed is told when its result is read, or its batch closed; until then the results
  of its batch are open and hold the error.
\<close>

definition piped_failed :: "core \<Rightarrow> bool" where
  "piped_failed c \<longleftrightarrow> (\<exists>q e. Piped q (Some e) \<in> set (stmts (c_sent c)))"

definition owed :: "core \<Rightarrow> bool" where
  "owed c \<longleftrightarrow> (\<exists>r. c_open c = Some r \<and> c_pipe c r \<and> \<not> list_all (\<lambda>e. e = None) (c_errs c (c_rbatch c r)))"

text \<open>Results that may be closed: their batch ran, and none of its pipelined statements failed.\<close>

definition settled :: "core \<Rightarrow> nat \<Rightarrow> bool" where
  "settled c r \<longleftrightarrow> ran_batch c (c_rbatch c r) \<and>
     (c_pipe c r \<longrightarrow> list_all (\<lambda>e. e = None) (c_errs c (c_rbatch c r)))"

text \<open>What has run, as long as nothing failed.\<close>

definition c_complete :: "core \<Rightarrow> bool" where
  "c_complete c \<longleftrightarrow>
     (\<forall>r. \<not> c_closed c r \<and> c_texts c (c_rbatch c r) \<noteq> [] \<longrightarrow> c_open c = Some r) \<and>
     (\<forall>b. c_bsent c b \<and> c_texts c b \<noteq> [] \<longrightarrow>
        ran_batch c b \<or> (\<exists>r. c_open c = Some r \<and> c_rbatch c r = b \<and> progress c r)) \<and>
     (piped_failed c \<longrightarrow> owed c)"

definition c_inv :: "core \<Rightarrow> bool" where
  "c_inv c \<longleftrightarrow> c_struct c \<and> (c_err c = None \<longrightarrow> c_complete c)"

lemma ran_texts_simps [simp]: "ran_texts [] = []" "ran_texts (xs @ ys) = ran_texts xs @ ran_texts ys" "ran_texts [q] = [Ran q None]" "length (ran_texts xs) = length xs"
  by (simp_all add: ran_texts_def)

lemma ran_batch_mono:
  assumes "ran_batch c b" "stmts (c_sent c') = stmts (c_sent c) @ es" "c_texts c' b = c_texts c b"
  shows "ran_batch c' b"
  using assms unfolding ran_batch_def by (metis append.assoc)

lemma c_complete_cong:
  assumes "stmts (c_sent c') = stmts (c_sent c)" "c_texts c' = c_texts c" "c_errs c' = c_errs c"
    "c_bsent c' = c_bsent c" "c_rbatch c' = c_rbatch c" "c_rnext c' = c_rnext c" "c_closed c' = c_closed c"
    "c_pipe c' = c_pipe c" "c_open c' = c_open c"
  shows "c_complete c' = c_complete c"
  by (simp add: c_complete_def ran_batch_def progress_def piped_failed_def owed_def assms)

lemma piped_failed_append:
  assumes "stmts (c_sent c') = stmts (c_sent c) @ es" "list_all (\<lambda>ev. \<not> is_piped ev) es"
  shows "piped_failed c' = piped_failed c"
  using assms by (auto simp: piped_failed_def list_all_iff is_piped_def)

lemma c_struct_gentle:
  assumes s: "c_struct c" and g: "gentle c c'"
  shows "c_struct c'"
proof -
  note f = gentle_fields [OF g]
  have a: "c_auto c" "c_latched c" using s by (simp_all add: c_struct_def)
  then have "c_err c' = None \<Longrightarrow> c_err c = None \<and> c_rerr c' = c_rerr c"
    using g unfolding gentle_def by metis
  then have "c_rerr c' r \<noteq> None \<longrightarrow> c_err c' \<noteq> None" for r
    using s unfolding c_struct_def by metis
  moreover have "c_latched c'" using g a by (simp add: gentle_def)
  ultimately show ?thesis using s by (simp add: c_struct_def f unsent_def)
qed

lemma c_inv_gentle:
  assumes "c_inv c" "gentle c c'"
  shows "c_inv c'"
proof -
  note f = gentle_fields [OF assms(2)]
  from assms(2) obtain es where es: "c_sent c' = c_sent c @ es" "stmts es = []" by (auto simp: gentle_def)
  have "c_err c' = None \<Longrightarrow> c_err c = None" using assms(2) unfolding gentle_def by metis
  moreover have "c_complete c' = c_complete c" by (rule c_complete_cong) (simp_all add: f es)
  ultimately show ?thesis using assms c_struct_gentle by (auto simp: c_inv_def)
qed

text \<open>A statement outside the batch: it is refused while results are open.\<close>

lemma c_inv_statement:
  assumes inv: "c_inv c" and c': "c' = c\<lparr>c_err := e, c_sent := c_sent c @ es\<rparr>"
    and quiet: "c_open c \<noteq> None \<Longrightarrow> stmts es = []" and np: "list_all (\<lambda>ev. \<not> is_piped ev) es" and l: "c_latched c'" and k: "c_err c \<noteq> None \<Longrightarrow> e \<noteq> None"
  shows "c_inv c'"
proof -
  have "c_struct c'" using inv l k unfolding c_inv_def c_struct_def c' by (auto simp: unsent_def)
  moreover have "c_complete c'" if "e = None"
  proof -
    have c: "c_complete c" using inv k that by (cases "c_err c") (auto simp: c_inv_def)
    show ?thesis
    proof (cases "c_open c")
      case None
      have "ran_batch c' b" if "ran_batch c b" for b
        using that by (rule ran_batch_mono [where es = "stmts es"]) (simp_all add: c')
      moreover have "piped_failed c' = piped_failed c"
        by (rule piped_failed_append [where es = "stmts es"]) (use np in \<open>simp_all add: c' list_all_iff\<close>)
      ultimately show ?thesis using c None by (simp add: c_complete_def owed_def c')
    next
      case (Some r)
      with quiet have "c_complete c' = c_complete c" by (intro c_complete_cong) (simp_all add: c')
      with c show ?thesis by simp
    qed
  qed
  ultimately show ?thesis by (simp add: c_inv_def c')
qed

text \<open>The next statement of the open batch ran.\<close>

lemma c_inv_ran:
  assumes inv: "c_inv c" and o1: "c_open c = Some r" and p: "\<not> c_pipe c r" and e0: "c_err c = None"
    and n: "c_rnext c r < length (c_texts c (c_rbatch c r))"
    and c': "c' = c\<lparr>c_sent := c_sent c @ es, c_rnext := (c_rnext c)(r := Suc (c_rnext c r)), c_err := e\<rparr>"
    and es: "e = None \<Longrightarrow> es = [Ran (c_texts c (c_rbatch c r) ! c_rnext c r) None]"
  shows "c_inv c'"
proof -
  let ?b = "c_rbatch c r" and ?n = "c_rnext c r"
  have l: "c_latched c'"
    using inv es unfolding c_inv_def c_struct_def c_latched_def c' by (simp add: e0 clean_append quiet_def)
  have "c_struct c'" using inv l unfolding c_inv_def c_struct_def c' by (auto simp: unsent_def e0)
  moreover have "c_complete c'" if e: "e = None"
  proof -
    have c: "c_complete c" and op: "\<not> c_closed c r" "c_bsent c ?b"
      using inv e0 o1 by (auto simp: c_inv_def c_struct_def)
    have new: "stmts (c_sent c') = stmts (c_sent c) @ [Ran (c_texts c ?b ! ?n) None]"
      using es [OF e] by (simp add: c' is_stmt_def)
    have keep: "ran_batch c' b" if "ran_batch c b" for b
      using that new by (rule ran_batch_mono) (simp add: c')
    have step: "progress c' r" if pr: "progress c r"
    proof -
      from pr p obtain pre where "stmts (c_sent c) = pre @ ran_texts (take ?n (c_texts c ?b))"
        by (auto simp: progress_def Let_def)
      then have "stmts (c_sent c') = pre @ ran_texts (take (Suc ?n) (c_texts c ?b))"
        using n new by (simp add: take_Suc_conv_app_nth)
      then show ?thesis using p n unfolding progress_def Let_def by (auto simp: c')
    qed
    have "piped_failed c' = piped_failed c" "owed c' = owed c"
      using piped_failed_append [OF new] by (simp_all add: is_piped_def owed_def c')
    then show ?thesis
      using c o1 keep step unfolding c_complete_def
      by (simp add: c') blast
  qed
  ultimately show ?thesis by (simp add: c_inv_def c')
qed

text \<open>Closing results: the batch they read has run, or the transaction has failed.\<close>

lemma c_inv_close:
  assumes inv: "c_inv c" and fin: "c_err c = None \<Longrightarrow> c_open c = Some r \<Longrightarrow> settled c r"
    and c': "c' = c\<lparr>c_closed := (c_closed c)(r := True), c_open := if c_open c = Some r then None else c_open c\<rparr>"
  shows "c_inv c'"
proof -
  have rb: "ran_batch c' b = ran_batch c b" for b by (simp add: ran_batch_def c')
  have pr: "progress c' x = progress c x" for x by (simp add: progress_def ran_batch_def c')
  have "c_struct c'" using inv unfolding c_inv_def c_struct_def c' by (auto simp: unsent_def c_latched_def)
  moreover have "c_complete c'" if "c_err c = None"
  proof -
    have c: "c_complete c" using inv that by (simp add: c_inv_def)
    have fin': "c_open c = Some r \<Longrightarrow> ran_batch c (c_rbatch c r)" using fin that by (simp add: settled_def)
    have "c_open c = Some r \<Longrightarrow> \<not> owed c" using fin that by (auto simp: settled_def owed_def)
    moreover have "owed c' = owed c" if "c_open c \<noteq> Some r" using that by (simp add: owed_def c')
    moreover have "piped_failed c' = piped_failed c" by (simp add: piped_failed_def c')
    ultimately have "piped_failed c' \<longrightarrow> owed c'" using c by (auto simp: c_complete_def)
    with c fin' show ?thesis unfolding c_complete_def rb pr by (auto simp: c')
  qed
  ultimately show ?thesis by (simp add: c_inv_def c')
qed

end
