(* ===== verification/Batch_Steps.thy ===== *)
theory Batch_Steps
  imports Batch_Inv
begin

section \<open>The operations of a closure keep the invariant\<close>

text \<open>
  \<open>tx_step\<close> is everything a closure may do with a transaction that \<^verbatim>\<open>Transact\<close> runs: any statement,
  prepared or not, reading rows, queueing, sending, reading and closing batches, in any order and
  with any answers of the database. Ending the transaction is left to \<^verbatim>\<open>Transact\<close>.
\<close>

definition winv :: "txw \<Rightarrow> bool" where
  "winv w \<longleftrightarrow> c_inv (core_of w) \<and> live_ok w"

lemma winv_reads: "winv w \<Longrightarrow> reads w w' \<Longrightarrow> winv w'"
  using c_inv_gentle unfolding winv_def reads_def by blast

lemma winvD:
  assumes "winv w"
  shows "autoErr w" "\<not> batchExecuting w" "\<not> tx_done w" "latched w" "r_err (results w r) \<noteq> None \<Longrightarrow> tx_err w \<noteq> None"
    "openBatch w = Some r \<Longrightarrow> r < next_results w \<and> \<not> r_closed (results w r)"
    "\<not> r_closed (results w r) \<Longrightarrow> b_sent (batches w (r_batch (results w r)))"
    "tx_err w = None \<Longrightarrow> \<not> r_closed (results w r) \<Longrightarrow> items_of r w \<noteq> [] \<Longrightarrow> openBatch w = Some r"
proof -
  have s: "c_struct (core_of w)" and c: "tx_err w = None \<Longrightarrow> c_complete (core_of w)"
    using assms by (simp_all add: winv_def c_inv_def)
  from s show "autoErr w" "\<not> batchExecuting w" "\<not> tx_done w" "latched w" by (simp_all add: c_struct_def latched_core)
  from s show "r_err (results w r) \<noteq> None \<Longrightarrow> tx_err w \<noteq> None" unfolding c_struct_def core_sel by blast
  from s show "openBatch w = Some r \<Longrightarrow> r < next_results w \<and> \<not> r_closed (results w r)"
    unfolding c_struct_def core_sel by blast
  from s show "\<not> r_closed (results w r) \<Longrightarrow> b_sent (batches w (r_batch (results w r)))"
    unfolding c_struct_def core_sel by blast
  from c show "tx_err w = None \<Longrightarrow> \<not> r_closed (results w r) \<Longrightarrow> items_of r w \<noteq> [] \<Longrightarrow> openBatch w = Some r"
    unfolding c_complete_def core_sel items_of_def by simp
qed

subsection \<open>Statements outside the batch\<close>

lemma statement_winv:
  assumes inv: "winv w" and l: "latching w w'" and q: "openBatch w \<noteq> None \<Longrightarrow> stmts (sent w') = stmts (sent w)"
  shows "winv w'"
proof -
  have eq: "w' = w\<lparr>tx_err := tx_err w', sent := sent w'\<rparr>" using l by (simp add: latching_def)
  from l obtain es where es: "sent w' = sent w @ es" "list_all (\<lambda>ev. \<not> is_piped ev) es" by (auto simp: latching_def)
  have c: "core_of w' = (core_of w)\<lparr>c_err := tx_err w', c_sent := sent w @ es\<rparr>"
    by (subst eq) (simp add: core_of_def es(1))
  have "latched w'" using l winvD(4) [OF inv] by (simp add: latching_def)
  then have "c_latched (core_of w')" by (simp add: latched_core)
  moreover have "openBatch w \<noteq> None \<Longrightarrow> stmts es = []" using q es(1) by simp
  moreover have "tx_err w \<noteq> None \<Longrightarrow> tx_err w' \<noteq> None" using l by (auto simp: latching_def)
  ultimately have "c_inv (core_of w')"
    using inv es(2) by (intro c_inv_statement [OF _ c [simplified core_sel(9) [symmetric]]]) (simp_all add: winv_def)
  moreover have "readers w' = readers w" by (subst eq) simp
  then have "live_ok w'" using inv by (simp add: winv_def live_ok_def)
  ultimately show ?thesis by (simp add: winv_def)
qed

lemma refused: "openBatch t \<noteq> None \<Longrightarrow> \<not> batchExecuting t \<Longrightarrow> sent (fst (shortCircuit t)) = sent t \<and> snd (shortCircuit t) \<noteq> None"
  by (simp add: shortCircuit_def batchRefuses_def)

lemma refused_statement:
  assumes "openBatch t \<noteq> None" "\<not> batchExecuting t"
  shows "sent (fst (tx_ExecContext pq rtt ans t)) = sent t" "sent (fst (tx_QueryRowContext pq queryErr t)) = sent t"
    "stmt_in_tx st \<Longrightarrow> sent (fst (stmt_QueryRowContext st queryErr t)) = sent t"
    "sent (fst (tx_StmtContext st t)) = sent t"
  using refused [OF assms] assms
  by (auto simp: statement_ops stmt_shortCircuit_def tx_StmtContext_def batchRefuses_def split: prod.splits option.splits)

lemma read_stmts:
  "stmts (sent (fst (rows_Scan r err t))) = stmts (sent t)" "stmts (sent (fst (rows_Next r ok err t))) = stmts (sent t)"
  "stmts (sent (fst (rows_NextResultSet r ok err t))) = stmts (sent t)" "stmts (sent (fst (rows_Err r err t))) = stmts (sent t)"
  "stmts (sent (fst (row_Scan rw err t))) = stmts (sent t)" "stmts (sent (fst (row_Err rw t))) = stmts (sent t)"
  by (simp_all add: rows_Scan_def rows_Next_def rows_NextResultSet_def rows_Err_def row_Scan_def row_Err_def rows_latch_def
      row_latch_def is_stmt_def Let_def split: option.split)

subsection \<open>Statements of the batch\<close>

lemma exec_own:
  assumes "autoErr w" "tx_err w = None"
  shows "\<exists>es. fst (tx_ExecContext pq rtt ans (w\<lparr>batchExecuting := True\<rparr>)) =
      w\<lparr>batchExecuting := True, sent := sent w @ es,
        tx_err := err_of (snd (tx_ExecContext pq rtt ans (w\<lparr>batchExecuting := True\<rparr>)))\<rparr> \<and>
    (err_of (snd (tx_ExecContext pq rtt ans (w\<lparr>batchExecuting := True\<rparr>))) = None \<longrightarrow> es = [Ran (pq_text pq) None])"
proof -
  let ?w = "w\<lparr>batchExecuting := True\<rparr>"
  obtain es res where i: "instrumentExec pq rtt ans = (es, res)" by fastforce
  have "shortCircuit ?w = (?w, None)" using assms by (simp add: shortCircuit_def batchRefuses_def)
  then have x: "tx_ExecContext pq rtt ans ?w = (recordErr (err_of res) (log_events es ?w), res)"
    using i by (simp add: tx_ExecContext_def)
  moreover have "err_of res = None \<longrightarrow> es = [Ran (pq_text pq) None]"
    using i by (auto simp: instrumentExec_def err_of_def split: option.splits sum.splits)
  moreover have "recordErr (err_of res) (log_events es ?w) =
      w\<lparr>batchExecuting := True, sent := sent w @ es, tx_err := err_of res\<rparr>"
    using assms by (auto simp: recordErr_def log_events_def split: option.split)
  ultimately show ?thesis by auto
qed

lemma run_winv:
  assumes inv: "winv w" and o1: "openBatch w = Some r" and p: "\<not> pipelined (results w r)" and e0: "tx_err w = None"
    and n: "r_next (results w r) < length (items_of r w)" and it: "it = items_of r w ! r_next (results w r)"
    and run: "results_run r it ans (upd_results r (r_next_update Suc) w) = (w2, res)"
  shows "winv w2"
proof -
  let ?w1 = "upd_results r (r_next_update Suc) w" and ?c = "core_of w"
  have ok: "c_inv ?c" "live_ok w" using inv by (simp_all add: winv_def)
  have a: "autoErr ?w1" "tx_err ?w1 = None" "\<not> batchExecuting w" using winvD(1,2) [OF inv] e0 by simp_all
  have b: "c_texts ?c (c_rbatch ?c r) ! c_rnext ?c r = pq_text (item_pq it)"
    using n it by (simp add: items_of_def)
  have step: "c_inv (?c\<lparr>c_sent := c_sent ?c @ es, c_rnext := (c_rnext ?c)(r := Suc (c_rnext ?c r)), c_err := e\<rparr>)"
    if "e = None \<Longrightarrow> es = [Ran (pq_text (item_pq it)) None]" for es e
    using ok(1) o1 p e0 n that b by (intro c_inv_ran [OF _ _ _ _ _ refl]) (simp_all add: items_of_def)
  show ?thesis
  proof (cases ans)
    case (Answers rtt v)
    from exec_own [OF a(1,2), of "item_pq it" rtt v] obtain es where
      es: "fst (tx_ExecContext (item_pq it) rtt v (?w1\<lparr>batchExecuting := True\<rparr>)) =
        ?w1\<lparr>batchExecuting := True, sent := sent w @ es,
          tx_err := err_of (snd (tx_ExecContext (item_pq it) rtt v (?w1\<lparr>batchExecuting := True\<rparr>)))\<rparr>"
      "err_of (snd (tx_ExecContext (item_pq it) rtt v (?w1\<lparr>batchExecuting := True\<rparr>))) = None \<longrightarrow>
        es = [Ran (pq_text (item_pq it)) None]" by auto
    define e where "e = err_of (snd (tx_ExecContext (item_pq it) rtt v (?w1\<lparr>batchExecuting := True\<rparr>)))"
    have w2: "w2 = ?w1\<lparr>batchExecuting := False, sent := sent w @ es, tx_err := e\<rparr>"
      using run es(1) unfolding results_run_def Answers e_def [symmetric] by (auto simp: split_beta)
    have "core_of w2 = ?c\<lparr>c_sent := c_sent ?c @ es, c_rnext := (c_rnext ?c)(r := Suc (c_rnext ?c r)), c_err := e\<rparr>"
      using a(3) by (auto simp: w2 core_of_def fun_eq_iff)
    moreover have "live_ok w2" using ok(2) by (simp add: w2 live_ok_def)
    ultimately show ?thesis using step [of e es] es(2) by (simp add: winv_def e_def)
  next
    case Panics
    have "?w1\<lparr>batchExecuting := False\<rparr> = ?w1" using a(3) by (cases w) simp
    then have w2: "w2 = fst (results_fail r (Some errBatchPanic) ?w1)"
      using run by (simp add: results_run_def Panics)
    have "core_of ?w1 = ?c\<lparr>c_rnext := (c_rnext ?c)(r := Suc (c_rnext ?c r))\<rparr>" by (simp add: core_next)
    then have "c_struct (core_of ?w1)"
      using ok(1) by (simp add: c_inv_def c_struct_def unsent_def c_latched_def)
    then have "c_struct (core_of w2)" unfolding w2 using results_fail_gentle by (rule c_struct_gentle)
    moreover have "tx_err w2 \<noteq> None" unfolding w2 by (rule results_fail_err) (use a in simp_all)
    moreover have "live_ok w2" using ok(2) by (simp add: w2 live_ok_def)
    ultimately show ?thesis by (auto simp: winv_def c_inv_def)
  qed
qed

subsection \<open>Reading a result\<close>

lemma winv_failed: "c_struct (core_of w) \<Longrightarrow> live_ok w \<Longrightarrow> tx_err w \<noteq> None \<Longrightarrow> winv w"
  by (auto simp: winv_def c_inv_def)

lemma winv_struct: "winv w \<Longrightarrow> c_struct (core_of w) \<and> live_ok w"
  by (simp add: winv_def c_inv_def)

lemma struct_next: "c_struct (core_of w) \<Longrightarrow> c_struct (core_of (upd_results r (r_next_update Suc) w))"
  by (simp add: core_next c_struct_def unsent_def c_latched_def)

lemma live_results [simp]: "live_ok (w\<lparr>results := x\<rparr>) = live_ok w"
  by (simp add: live_ok_def)

lemma fail_next_winv:
  assumes "winv w" "err \<noteq> None"
  shows "winv (fst (results_fail r err (upd_results r (r_next_update Suc) w)))"
proof -
  let ?w1 = "upd_results r (r_next_update Suc) w"
  have "c_struct (core_of ?w1)" "live_ok ?w1" using winv_struct [OF assms(1)] struct_next by auto
  then have "c_struct (core_of (fst (results_fail r err ?w1)))" "live_ok (fst (results_fail r err ?w1))"
    using results_fail_gentle c_struct_gentle by (blast, simp add: live_ok_def)
  then show ?thesis
    using results_fail_err [of ?w1 err r] winvD(1) [OF assms(1)] assms(2) by (intro winv_failed) simp_all
qed

lemma winv_next_pipe:
  assumes "winv w" "openBatch w = Some r" "pipelined (results w r)"
  shows "winv (upd_results r (r_next_update Suc) w)"
proof -
  let ?c = "core_of w" and ?w = "upd_results r (r_next_update Suc) w"
  have rb: "ran_batch (core_of ?w) b = ran_batch ?c b" for b by (simp add: core_next ran_batch_def)
  have po: "piped_failed (core_of ?w) = piped_failed ?c" "owed (core_of ?w) = owed ?c"
    by (simp_all add: core_next piped_failed_def owed_def)
  have "progress (core_of ?w) r = progress ?c r"
    unfolding progress_def rb using assms(3) by (simp add: core_next)
  then have "c_complete (core_of ?w) = c_complete ?c"
    using assms(2) unfolding c_complete_def rb po by (auto simp: core_next)
  then show ?thesis using winv_struct [OF assms(1)] assms(1) struct_next
    by (simp add: winv_def c_inv_def)
qed

lemma doomed_err:
  "autoErr w \<Longrightarrow> r_err (results (doomed r w) r) = None \<Longrightarrow> tx_err w = None \<and> doomed r w = w"
  by (auto simp: doomed_def results_fail_def Let_def recordErr_def split: if_splits option.splits)

lemma advance_winv:
  assumes inv: "winv w" and adv: "advance r a w = (w1, x)"
  obtains (answered) e where "x = Inl e" "winv w1"
  | (item) w' it where "x = Inr it" "w1 = upd_results r (r_next_update Suc) w'" "winv w'" "tx_err w' = None"
      "openBatch w' = Some r" "r_next (results w' r) < length (items_of r w')"
      "it = items_of r w' ! r_next (results w' r)" "pipelined (results w' r) \<longrightarrow> item_err it = None"
proof -
  define wa where "wa = supersedeOpen r a w"
  define w' where "w' = doomed r wa"
  have wa: "winv wa" unfolding wa_def using inv reads_supersedeOpen by (rule winv_reads)
  have w': "winv w'" unfolding w'_def using wa reads_doomed by (rule winv_reads)
  consider (closed) "r_closed (results wa r)" | (failed) e where "\<not> r_closed (results wa r)" "r_err (results w' r) = Some e"
    | (more) "\<not> r_closed (results wa r)" "r_err (results w' r) = None" "r_next (results w' r) < length (items_of r w')"
    | (exhausted) "\<not> r_closed (results wa r)" "r_err (results w' r) = None" "\<not> r_next (results w' r) < length (items_of r w')"
    by fastforce
  then show thesis
  proof cases
    case closed
    with adv wa answered show thesis by (auto simp: advance_def wa_def Let_def)
  next
    case failed
    have "winv (upd_results r (r_next_update Suc) w')"
      using winv_struct [OF w'] struct_next winvD(5) [OF w', of r] failed(2) by (intro winv_failed) auto
    with failed adv answered show thesis by (auto simp: advance_def wa_def [symmetric] w'_def [symmetric] Let_def)
  next
    case more
    have e: "tx_err wa = None" "w' = wa" using doomed_err [OF winvD(1) [OF wa]] more(2) by (auto simp: w'_def)
    have o1: "openBatch w' = Some r" using winvD(8) [OF wa e(1) more(1)] more(3) e(2) by force
    let ?it = "items_of r w' ! r_next (results w' r)"
    show thesis
    proof (cases "pipelined (results w' r) \<and> item_err ?it \<noteq> None")
      case True
      then have "winv w1" "\<exists>e. x = Inl e"
        using adv more fail_next_winv [OF w', of "item_err ?it" r]
        by (auto simp: advance_def wa_def [symmetric] w'_def [symmetric] Let_def items_of_def split_beta)
      with answered show thesis by blast
    next
      case False
      then have "x = Inr ?it" "w1 = upd_results r (r_next_update Suc) w'"
        using adv more by (auto simp: advance_def wa_def [symmetric] w'_def [symmetric] Let_def items_of_def)
      then show thesis by (rule item) (use w' e o1 more(3) False in auto)
    qed
  next
    case exhausted
    with adv w' answered show thesis by (auto simp: advance_def wa_def [symmetric] w'_def [symmetric] Let_def)
  qed
qed

lemma fail_winv: "winv w \<Longrightarrow> winv (fst (results_fail r err w))"
  using winv_reads reads_fail by blast

lemma results_Exec_winv:
  assumes "winv w"
  shows "winv (fst (results_Exec r a ans w))"
proof -
  obtain w1 x where adv: "advance r a w = (w1, x)" by fastforce
  from assms this show ?thesis
  proof (cases rule: advance_winv)
    case (item w' it)
    show ?thesis
    proof (cases "pipelined (results w' r)")
      case True
      with item winv_next_pipe [OF item(3,5)] show ?thesis by (simp add: results_Exec_def adv)
    next
      case False
      obtain w2 res where run: "results_run r it ans w1 = (w2, res)" by fastforce
      have "winv w2" using run_winv [OF item(3,5) False item(4,6,7)] run item(2) by blast
      with fail_winv False item(1,2) run show ?thesis
        by (auto simp: results_Exec_def adv split_beta split: option.split sum.split)
    qed
  qed (simp add: results_Exec_def adv)
qed

lemma core_items:
  "texts_of its = texts_of (items (batches w b)) \<Longrightarrow> map item_err its = map item_err (items (batches w b)) \<Longrightarrow>
   core_of (w\<lparr>batches := (batches w)(b := (batches w b)\<lparr>items := its\<rparr>)\<rparr>) = core_of w"
  by (auto simp: core_of_def fun_eq_iff)

lemma add_reader_winv:
  assumes "winv w" "\<And>rs. s = Live rs \<Longrightarrow> rows_in_tx rs"
  shows "winv (fst (add_reader r s w))"
proof -
  have "core_of (fst (add_reader r s w)) = core_of w"
    by (auto simp: add_reader_def Let_def core_of_def fun_eq_iff)
  moreover have "live_ok (fst (add_reader r s w))"
    using assms by (auto simp: winv_def live_ok_def add_reader_def Let_def)
  ultimately show ?thesis using assms(1) by (simp add: winv_def)
qed

lemma results_Query_winv:
  assumes "winv w"
  shows "winv (fst (results_Query r a ans w))"
proof -
  obtain w1 x where adv: "advance r a w = (w1, x)" by fastforce
  from assms this show ?thesis
  proof (cases rule: advance_winv)
    case (item w' it)
    show ?thesis
    proof (cases "pipelined (results w' r)")
      case True
      let ?b = "r_batch (results w1 r)" and ?i = "r_next (results w1 r) - 1"
      let ?w2 = "w1\<lparr>batches := (batches w1)(?b := (batches w1 ?b)\<lparr>items :=
          (items (batches w1 ?b))[?i := it\<lparr>buffered := []\<rparr>]\<rparr>)\<rparr>"
      have i: "?i < length (items (batches w1 ?b))" "items (batches w1 ?b) ! ?i = it"
        using item by (simp_all add: items_of_def)
      have "texts_of ((items (batches w1 ?b))[?i := it\<lparr>buffered := []\<rparr>]) = texts_of (items (batches w1 ?b))"
        "map item_err ((items (batches w1 ?b))[?i := it\<lparr>buffered := []\<rparr>]) = map item_err (items (batches w1 ?b))"
        using i by (simp_all add: map_update list_update_same_conv)
      then have "core_of ?w2 = core_of w1" by (rule core_items)
      then have "winv ?w2"
        using winv_next_pipe [OF item(3,5) True] item(2) by (simp add: winv_def live_ok_def)
      then have "winv (fst (add_reader r (Buffered bf) ?w2))" for bf by (rule add_reader_winv) simp
      with True item(1,2) show ?thesis
        by (simp add: results_Query_def adv Let_def split_beta)
    next
      case False
      obtain w2 res where run: "results_run r it ans w1 = (w2, res)" by fastforce
      have w2: "winv w2" using run_winv [OF item(3,5) False item(4,6,7)] run item(2) by blast
      then have "winv (fst (add_reader r (Live \<lparr>rows_in_tx = True\<rparr>) w2))" by (rule add_reader_winv) auto
      with w2 fail_winv False item(1,2) run show ?thesis
        by (auto simp: results_Query_def adv split_beta split: option.split sum.split)
    qed
  qed (simp add: results_Query_def adv)
qed

subsection \<open>Closing the results\<close>

lemma abandon_winv:
  assumes inv: "winv w" and fin: "tx_err w = None \<Longrightarrow> openBatch w = Some r \<Longrightarrow> settled (core_of w) r"
  shows "winv (abandon r a w)"
proof -
  define w1 where "w1 = supersedeOpen r a w"
  have r1: "reads w w1" unfolding w1_def by (rule reads_supersedeOpen)
  then have i1: "winv w1" and g: "gentle (core_of w) (core_of w1)"
    using inv winv_reads by (auto simp: reads_def winv_def)
  define w2 where "w2 = upd_results r (\<lambda>x. x\<lparr>r_closed := True, typeMap := False\<rparr>) w1"
  define b where "b = r_batch (results w2 r)"
  define w3 where "w3 = w2\<lparr>batches := (batches w2)(b := (batches w2 b)\<lparr>items :=
      map (\<lambda>it. it\<lparr>item_fields := [], buffered := []\<rparr>) (items (batches w2 b))\<rparr>)\<rparr>"
  have ab: "abandon r a w = (if openBatch w3 = Some r then w3\<lparr>openBatch := None\<rparr> else w3)"
    by (simp add: abandon_def w1_def w2_def w3_def b_def Let_def)
  have "core_of w3 = core_of w2" unfolding w3_def by (rule core_items) simp_all
  moreover have "core_of w2 = (core_of w1)\<lparr>c_closed := (c_closed (core_of w1))(r := True)\<rparr>"
    by (auto simp: w2_def core_of_def fun_eq_iff)
  moreover have "core_of (w3\<lparr>openBatch := None\<rparr>) = (core_of w3)\<lparr>c_open := None\<rparr>" by (simp add: core_of_def)
  moreover have "openBatch w3 = openBatch w1" by (simp add: w3_def w2_def)
  ultimately have c: "core_of (abandon r a w) = (core_of w1)\<lparr>c_closed := (c_closed (core_of w1))(r := True),
      c_open := if c_open (core_of w1) = Some r then None else c_open (core_of w1)\<rparr>"
    unfolding ab by simp
  have same: "openBatch w1 = openBatch w" "r_batch (results w1 r) = r_batch (results w r)"
    "c_texts (core_of w1) = c_texts (core_of w)"
    using gentle_fields(6,10) [OF g] fun_cong [OF gentle_fields(13) [OF g], of r] by simp_all
  have f1: "settled (core_of w1) r" if "c_err (core_of w1) = None" "c_open (core_of w1) = Some r"
  proof -
    from g obtain es where es: "c_sent (core_of w1) = c_sent (core_of w) @ es" by (auto simp: gentle_def)
    have "tx_err w = None" using g that(1) unfolding gentle_def core_sel by (cases "tx_err w") auto
    with fin that(2) same have f: "settled (core_of w) r" by simp
    then have "ran_batch (core_of w) (c_rbatch (core_of w1) r)" using same(2) by (simp add: settled_def)
    then have "ran_batch (core_of w1) (c_rbatch (core_of w1) r)"
      by (rule ran_batch_mono [where es = "stmts es"]) (use es same(3) in simp_all)
    with f show ?thesis by (simp add: settled_def gentle_fields [OF g] del: core_sel)
  qed
  have "c_inv (core_of w1)" using i1 by (simp add: winv_def)
  from this f1 c have "c_inv (core_of (abandon r a w))" by (rule c_inv_close)
  moreover have "live_ok (abandon r a w)"
    using i1 by (simp add: ab w3_def w2_def winv_def live_ok_def)
  ultimately show ?thesis by (simp add: winv_def)
qed

text \<open>The loop of \<open>Close\<close> leaves the batch run in full, or the transaction failed.\<close>

lemma latching_frame:
  assumes "latching w w'"
  shows "batches w' = batches w \<and> results w' = results w \<and> openBatch w' = openBatch w"
proof -
  have eq: "w' = w\<lparr>tx_err := tx_err w', sent := sent w'\<rparr>" using assms by (simp add: latching_def)
  show ?thesis by (subst (1 2 3) eq) simp
qed

lemma recordErr_frame [simp]: "batches (recordErr e w) = batches w" "results (recordErr e w) = results w"
  "next_results (recordErr e w) = next_results w" "next_batch (recordErr e w) = next_batch w"
  by (simp_all add: recordErr_def split: option.split)

text \<open>What decides how far results have been read.\<close>

definition position :: "nat \<Rightarrow> txw \<Rightarrow> nat option \<times> batchItem list \<times> nat \<times> bool \<times> nat" where
  "position r w = (openBatch w, items_of r w, r_next (results w r), pipelined (results w r), r_batch (results w r))"

lemma position_fail: "position r (fst (results_fail r' err w)) = position r w"
  by (simp add: position_def items_of_def results_fail_def Let_def split: option.split)

lemma position_run:
  assumes "results_run r it ans w = (w2, res)"
  shows "position r w2 = position r w"
proof (cases ans)
  case (Answers rtt v)
  have "latching (w\<lparr>batchExecuting := True\<rparr>) (fst (tx_ExecContext (item_pq it) rtt v (w\<lparr>batchExecuting := True\<rparr>)))"
    by (rule exec_latching)
  from latching_frame [OF this] Answers assms show ?thesis
    by (auto simp: position_def items_of_def results_run_def split_beta Let_def)
next
  case Panics
  with assms position_fail [of r r "Some errBatchPanic" "w\<lparr>batchExecuting := False\<rparr>"] show ?thesis
    by (auto simp: results_run_def position_def items_of_def Let_def)
qed

lemma run_err:
  assumes "results_run r it ans w = (w2, Some v)" "autoErr w" "tx_err w = None"
  shows "tx_err w2 = err_of v"
proof -
  from assms(1) obtain rtt x where x: "ans = Answers rtt x" by (cases ans) (auto simp: results_run_def)
  from exec_own [OF assms(2,3), of "item_pq it" rtt x] show ?thesis
    using assms(1) by (auto simp: results_run_def x Let_def split_beta)
qed

lemma run_panics:
  assumes "results_run r it ans w = (w2, None)" "autoErr w"
  shows "tx_err w2 \<noteq> None"
proof -
  from assms(1) have "ans = Panics" by (cases ans) (auto simp: results_run_def Let_def split: prod.splits)
  then show ?thesis
    using assms results_fail_err [of "w\<lparr>batchExecuting := False\<rparr>" "Some errBatchPanic" r]
    by (auto simp: results_run_def Let_def)
qed

lemma fail_r_err: "err \<noteq> None \<Longrightarrow> r_err (results (fst (results_fail r err w)) r) \<noteq> None"
  by (auto simp: results_fail_def Let_def)

lemma position_next:
  "position r (upd_results r (r_next_update Suc) w) =
     (openBatch w, items_of r w, Suc (r_next (results w r)), pipelined (results w r), r_batch (results w r))"
  by (simp add: position_def items_of_def)

text \<open>The loop of \<open>Close\<close> leaves the batch run in full, or the transaction failed.\<close>

lemma close_rest_winv:
  assumes "winv w" "openBatch w = Some r" "\<not> pipelined (results w r)" "length (items_of r w) \<le> r_next (results w r) + n"
    and "tx_err w \<noteq> None \<longrightarrow> r_err (results w r) \<noteq> None"
    and "close_rest n r ans w = (w', ok)"
  shows "winv w' \<and> (tx_err w' = None \<longrightarrow> openBatch w' = Some r \<and> \<not> pipelined (results w' r) \<and>
           length (items_of r w') \<le> r_next (results w' r))"
  using assms
proof (induction n r ans w arbitrary: w' ok rule: close_rest.induct)
  case (1 r ans w)
  then show ?case by simp
next
  case (2 n r ans w)
  show ?case
  proof (cases "r_err (results w r) = None \<and> r_next (results w r) < length (items_of r w)")
    case False
    with 2(7) have "w' = w" by auto
    with 2(2-6) False winvD(5) [OF 2(2), of r] show ?thesis by auto
  next
    case True
    let ?i = "r_next (results w r)" and ?w1 = "upd_results r (r_next_update Suc) w"
    obtain w2 res where run: "results_run r (items_of r w ! ?i) (ans ?i) ?w1 = (w2, res)" by fastforce
    have e0: "tx_err w = None" using True 2(6) by auto
    have a1: "autoErr ?w1" "tx_err ?w1 = None" using winvD(1) [OF 2(2)] e0 by simp_all
    have w2: "winv w2" using run_winv [OF 2(2,3,4) e0 _ refl run] True by simp
    show ?thesis
    proof (cases res)
      case None
      with run True 2(7) have "w' = w2" by (auto simp: Let_def)
      with w2 run_panics [of r _ _ ?w1 w2] run None a1 show ?thesis by blast
    next
      case (Some v)
      let ?w3 = "fst (results_fail r (err_of v) w2)"
      have "position r ?w3 = position r ?w1" using position_fail position_run [OF run] by simp
      then have "openBatch ?w3 = Some r" "\<not> pipelined (results ?w3 r)"
        "length (items_of r ?w3) \<le> r_next (results ?w3 r) + n"
        using 2(3-5) unfolding position_next by (simp_all add: position_def)
      moreover have "close_rest n r ans ?w3 = (w', ok)" using run True Some 2(7) by (auto simp: Let_def)
      moreover have "tx_err ?w3 \<noteq> None \<longrightarrow> r_err (results ?w3 r) \<noteq> None"
        using run_err [OF run [unfolded Some] a1] fail_r_err [of "err_of v" r w2]
        by (cases "err_of v") (auto simp: results_fail_def)
      ultimately show ?thesis
        using 2(1) [OF True refl run [symmetric] Some] fail_winv [OF w2] by blast
    qed
  qed
qed

end
