(* ===== verification/Batch_Close.thy ===== *)
theory Batch_Close
  imports Batch_Steps
begin

section \<open>Sending and closing batches\<close>

text \<open>
  Closing results completes their batch or finds the transaction failed; sending a batch opens its
  results, after running it when it is pipelined. With these the invariant holds along every run.
\<close>

lemma winv_open:
  assumes "winv w" "tx_err w = None" "openBatch w = Some r" "items_of r w \<noteq> []"
  shows "ran_batch (core_of w) (r_batch (results w r)) \<or> progress (core_of w) r"
proof -
  have c: "c_complete (core_of w)" using assms(1,2) by (simp add: winv_def c_inv_def)
  have s: "b_sent (batches w (r_batch (results w r)))" using winvD(6,7) [OF assms(1)] assms(3) by blast
  from c s assms(3,4) show ?thesis unfolding c_complete_def by (auto simp: items_of_def)
qed

lemma ran_batch_empty: "c_texts c b = [] \<Longrightarrow> ran_batch c b"
  unfolding ran_batch_def by (intro exI [of _ "[]"] exI [of _ "stmts (c_sent c)"]) simp

lemma progress_all:
  assumes "progress c r" "\<not> c_pipe c r" "length (c_texts c (c_rbatch c r)) \<le> c_rnext c r"
  shows "ran_batch c (c_rbatch c r)"
  using assms unfolding progress_def ran_batch_def Let_def
  by (metis append.right_neutral take_all)

lemma doomed_sync:
  "autoErr w \<Longrightarrow> tx_err (doomed r w) \<noteq> None \<longrightarrow> r_err (results (doomed r w) r) \<noteq> None"
  using doomed_err [of w r] by (cases "r_err (results (doomed r w) r)") auto

lemma reads_closed: "winv w \<Longrightarrow> reads w w' \<Longrightarrow> r_closed (results w' r) = r_closed (results w r)"
  using gentle_fields(15) [of "core_of w" "core_of w'"] by (auto simp: reads_def winv_def dest: fun_cong [of _ _ r])

lemma close_pipelined:
  assumes inv: "winv w" and p: "pipelined (results w r)"
    and w2: "w2 = fst (results_fail r (case List.map_filter item_err (items_of r w) of [] \<Rightarrow> None | e # _ \<Rightarrow> Some e) w)"
  shows "winv w2" "tx_err w2 = None \<Longrightarrow> openBatch w2 = Some r \<Longrightarrow> settled (core_of w2) r"
proof -
  show "winv w2" unfolding w2 using inv by (rule fail_winv)
  assume e: "tx_err w2 = None" and o2: "openBatch w2 = Some r"
  have m: "List.map_filter item_err (items_of r w) = []"
  proof (rule ccontr)
    assume "\<not> ?thesis"
    then obtain x xs where "List.map_filter item_err (items_of r w) = x # xs" by (meson neq_Nil_conv)
    with e results_fail_err [OF winvD(1) [OF inv], of "Some x" r] show False unfolding w2 by simp
  qed
  then have w: "w2 = w" by (simp add: w2 results_fail_def)
  have errs: "list_all (\<lambda>e. e = None) (c_errs (core_of w) (r_batch (results w r)))"
    using m by (auto simp: items_of_def list_all_iff List.map_filter_def filter_empty_conv)
  moreover have "ran_batch (core_of w) (r_batch (results w r))"
  proof (cases "items_of r w = []")
    case True
    then show ?thesis by (intro ran_batch_empty) (simp add: items_of_def)
  next
    case False
    with errs winv_open [OF inv _ _ False] e o2 p show ?thesis unfolding w by (auto simp: progress_def)
  qed
  ultimately show "settled (core_of w2) r" by (simp add: settled_def w)
qed

lemma results_Close_winv:
  assumes inv: "winv w"
  shows "winv (fst (results_Close r a ans w))"
proof (cases "r_closed (results w r)")
  case False
  define wa where "wa = supersedeOpen r a w"
  define w1 where "w1 = doomed r wa"
  have wa: "winv wa" unfolding wa_def using inv reads_supersedeOpen by (rule winv_reads)
  have w1: "winv w1" unfolding w1_def using wa reads_doomed by (rule winv_reads)
  have sync: "tx_err w1 \<noteq> None \<longrightarrow> r_err (results w1 r) \<noteq> None"
    unfolding w1_def using winvD(1) [OF wa] by (rule doomed_sync)
  show ?thesis
  proof (cases "pipelined (results w1 r)")
    case True
    note close_pipelined [OF w1 True refl]
    then have "winv (abandon r a (fst (results_fail r (case List.map_filter item_err (items_of r w1) of
        [] \<Rightarrow> None | e # _ \<Rightarrow> Some e) w1)))" by (intro abandon_winv) auto
    with True False show ?thesis
      by (simp add: results_Close_def wa_def [symmetric] w1_def [symmetric] Let_def)
  next
    case live: False
    obtain w2 ok where cr: "close_rest (length (items_of r w1) - r_next (results w1 r)) r ans w1 = (w2, ok)"
      by fastforce
    have "winv w2 \<and> (tx_err w2 = None \<longrightarrow> openBatch w2 = Some r \<longrightarrow> settled (core_of w2) r)"
    proof (cases "openBatch w1 = Some r")
      case True
      from close_rest_winv [OF w1 True live _ sync cr] have i2: "winv w2"
        and f: "tx_err w2 = None \<Longrightarrow> openBatch w2 = Some r \<and> \<not> pipelined (results w2 r) \<and>
           length (items_of r w2) \<le> r_next (results w2 r)" by auto
      have "settled (core_of w2) r" if e: "tx_err w2 = None"
      proof (cases "items_of r w2 = []")
        case True
        then have "ran_batch (core_of w2) (r_batch (results w2 r))" by (intro ran_batch_empty) (simp add: items_of_def)
        with True show ?thesis by (simp add: settled_def items_of_def)
      next
        case ne: False
        with winv_open [OF i2 e _ ne] f [OF e] progress_all [of "core_of w2" r] show ?thesis
          by (auto simp: items_of_def settled_def)
      qed
      with i2 show ?thesis by blast
    next
      case shut: False
      have "w2 = w1"
      proof (cases "tx_err w1 = None")
        case True
        have "\<not> r_closed (results w1 r)"
          using False reads_closed [OF inv reads_supersedeOpen] reads_closed [OF wa reads_doomed]
          by (simp add: w1_def wa_def)
        then have "items_of r w1 = []" using winvD(8) [OF w1 True] shut by blast
        with cr show ?thesis by simp
      next
        case e: False
        with sync have "r_err (results w1 r) \<noteq> None" by simp
        with cr show ?thesis by (cases "length (items_of r w1) - r_next (results w1 r)") auto
      qed
      with w1 shut show ?thesis by simp
    qed
    then have "winv (abandon r a w2)" by (intro abandon_winv) auto
    with live False cr show ?thesis
      by (simp add: results_Close_def wa_def [symmetric] w1_def [symmetric] Let_def)
  qed
qed (use inv in \<open>simp add: results_Close_def\<close>)

end
