(* ===== verification/Batch_Run.thy ===== *)
theory Batch_Run
  imports Batch_Close
begin

section \<open>Runs of a closure\<close>

text \<open>
  Queueing and sending keep the invariant too; so every run of a closure does. The theorems say what
  that means for a transaction about to commit.
\<close>

subsection \<open>Queueing and sending, on the core\<close>

lemma unsent_finite: "c_struct c \<Longrightarrow> finite (unsent c)"
proof (rule finite_subset)
  assume "c_struct c"
  then show "unsent c \<subseteq> {..<c_nb c}" by (auto simp: unsent_def c_struct_def not_less [symmetric])
qed simp

lemma c_inv_queue:
  assumes inv: "c_inv c" and b: "b < c_nb c" "\<not> c_bsent c b"
    and c': "c' = c\<lparr>c_unsent := c_unsent c + (if c_texts c b = [] then 1 else 0),
      c_texts := (c_texts c)(b := c_texts c b @ [q]), c_errs := (c_errs c)(b := es)\<rparr>"
  shows "c_inv c'"
proof -
  have s: "c_struct c" using inv by (simp add: c_inv_def)
  have sent: "\<not> c_closed c r \<Longrightarrow> c_rbatch c r \<noteq> b" for r using s b(2) by (auto simp: c_struct_def)
  have "unsent c' = insert b (unsent c)" using b(2) by (auto simp: unsent_def c')
  moreover have "b \<in> unsent c \<longleftrightarrow> c_texts c b \<noteq> []" using b(2) by (simp add: unsent_def)
  ultimately have "c_struct c'"
    using s b unsent_finite [OF s] by (auto simp: c_struct_def c' c_latched_def card_insert_if)
  moreover have "c_complete c'" if "c_err c = None"
  proof -
    have c: "c_complete c" using inv that by (simp add: c_inv_def)
    have rb: "ran_batch c' x = ran_batch c x" if "x \<noteq> b" for x using that by (simp add: ran_batch_def c')
    have pr: "progress c' r = progress c r" if "c_rbatch c r \<noteq> b" for r
    proof -
      have "c_rbatch c' = c_rbatch c" "c_texts c' (c_rbatch c r) = c_texts c (c_rbatch c r)"
        "c_errs c' (c_rbatch c r) = c_errs c (c_rbatch c r)" "c_pipe c' = c_pipe c" "c_rnext c' = c_rnext c"
        "c_sent c' = c_sent c" using that by (simp_all add: c')
      then show ?thesis by (simp add: progress_def Let_def rb [OF that])
    qed
    have op: "c_open c = Some r \<Longrightarrow> c_rbatch c r \<noteq> b" for r using s sent by (auto simp: c_struct_def)
    have po: "piped_failed c' = piped_failed c" "owed c' = owed c" using op by (auto simp: piped_failed_def owed_def c')
    show ?thesis
      unfolding c_complete_def
    proof (intro conjI allI impI)
      fix r assume "\<not> c_closed c' r \<and> c_texts c' (c_rbatch c' r) \<noteq> []"
      with sent [of r] c show "c_open c' = Some r" by (simp add: c' c_complete_def)
    next
      fix x assume x: "c_bsent c' x \<and> c_texts c' x \<noteq> []"
      then have "x \<noteq> b" using b(2) by (auto simp: c')
      with x c have "ran_batch c x \<or> (\<exists>r. c_open c = Some r \<and> c_rbatch c r = x \<and> progress c r)"
        by (simp add: c_complete_def c')
      with rb pr op \<open>x \<noteq> b\<close> show "ran_batch c' x \<or> (\<exists>r. c_open c' = Some r \<and> c_rbatch c' r = x \<and> progress c' r)"
        by (auto simp: c')
    qed (use c in \<open>simp add: c_complete_def po\<close>)
  qed
  ultimately show ?thesis by (simp add: c_inv_def c')
qed

text \<open>A batch is marked sent and gets results of its own, numbered \<open>c_nr c\<close>.\<close>

definition c_send :: "nat \<Rightarrow> core \<Rightarrow> core" where
  "c_send b c = (let r = c_nr c in
     c\<lparr>c_nr := Suc r, c_bsent := (c_bsent c)(b := True),
       c_unsent := c_unsent c - (if \<not> c_bsent c b \<and> c_texts c b \<noteq> [] then 1 else 0),
       c_rbatch := (c_rbatch c)(r := b), c_rnext := (c_rnext c)(r := 0), c_rerr := (c_rerr c)(r := None),
       c_closed := (c_closed c)(r := False), c_pipe := (c_pipe c)(r := False)\<rparr>)"

lemma c_struct_send:
  assumes s: "c_struct c" and b: "b < c_nb c"
  shows "c_struct (c_send b c)"
proof -
  have "unsent (c_send b c) = unsent c - {b}" by (auto simp: unsent_def c_send_def Let_def)
  moreover have "b \<in> unsent c \<longleftrightarrow> \<not> c_bsent c b \<and> c_texts c b \<noteq> []" by (simp add: unsent_def)
  moreover have "card (unsent c) > 0" if "b \<in> unsent c" using that unsent_finite [OF s] card_gt_0_iff by blast
  ultimately have "c_unsent (c_send b c) = int (card (unsent (c_send b c)))"
    using s by (auto simp: c_struct_def c_send_def Let_def card_Diff_singleton of_nat_diff)
  moreover have "c_open c \<noteq> Some (c_nr c)" using s by (auto simp: c_struct_def)
  ultimately show ?thesis
    using s b unfolding c_struct_def by (auto simp: c_send_def Let_def c_latched_def less_Suc_eq)
qed

lemma c_complete_send:
  assumes s: "c_struct c" and c: "c_complete c" and e: "c_texts c b = []"
  shows "c_complete (c_send b c)"
proof -
  have op: "c_open c \<noteq> Some (c_nr c)" using s by (auto simp: c_struct_def)
  have rb: "ran_batch (c_send b c) x = ran_batch c x" for x by (simp add: ran_batch_def c_send_def Let_def)
  have pr: "progress (c_send b c) r = progress c r" if "r \<noteq> c_nr c" for r
    using that unfolding progress_def rb by (simp add: c_send_def Let_def)
  have po: "piped_failed (c_send b c) = piped_failed c" "owed (c_send b c) = owed c"
    using op by (auto simp: piped_failed_def owed_def c_send_def Let_def)
  show ?thesis
    unfolding c_complete_def rb po
  proof (intro conjI allI impI)
    fix r assume "\<not> c_closed (c_send b c) r \<and> c_texts (c_send b c) (c_rbatch (c_send b c) r) \<noteq> []"
    with c e show "c_open (c_send b c) = Some r" by (auto simp: c_send_def Let_def c_complete_def split: if_splits)
  next
    fix x assume "c_bsent (c_send b c) x \<and> c_texts (c_send b c) x \<noteq> []"
    then have "c_bsent c x \<and> c_texts c x \<noteq> []" using e by (auto simp: c_send_def Let_def split: if_splits)
    with c have "ran_batch c x \<or> (\<exists>r. c_open c = Some r \<and> c_rbatch c r = x \<and> progress c r)"
      unfolding c_complete_def by blast
    then show "ran_batch c x \<or> (\<exists>r. c_open (c_send b c) = Some r \<and> c_rbatch (c_send b c) r = x \<and> progress (c_send b c) r)"
      using op pr by (auto simp: c_send_def Let_def)
  qed (use c in \<open>simp add: c_complete_def\<close>)
qed

lemma c_inv_open:
  assumes inv: "c_inv c" and e: "c_err c = None" and o1: "c_open c = None" and b: "b < c_nb c" "\<not> c_bsent c b"
    and c': "c' = (c_send b c)\<lparr>c_open := Some (c_nr c), c_pipe := (c_pipe c)(c_nr c := p),
      c_errs := (c_errs c)(b := es), c_sent := c_sent c @ evs\<rparr>"
    and p: "p \<Longrightarrow> list_all (\<lambda>x. x = None) es \<Longrightarrow> evs = piped (c_texts c b)" and f: "list_all quiet evs"
    and pf: "\<not> p \<Longrightarrow> evs = []"
  shows "c_inv c'"
proof -
  let ?r = "c_nr c"
  have s: "c_struct c" and c: "c_complete c" using inv e by (simp_all add: c_inv_def)
  have "c_struct c'"
    using c_struct_send [OF s b(1)] f e unfolding c_struct_def c'
    by (simp add: unsent_def c_latched_def c_send_def Let_def clean_append)
  moreover have "c_complete c'"
    unfolding c_complete_def
  proof (intro conjI allI impI)
    fix r assume "\<not> c_closed c' r \<and> c_texts c' (c_rbatch c' r) \<noteq> []"
    with c o1 show "c_open c' = Some r"
      by (auto simp: c' c_send_def Let_def c_complete_def split: if_splits)
  next
    fix x assume x: "c_bsent c' x \<and> c_texts c' x \<noteq> []"
    show "ran_batch c' x \<or> (\<exists>r. c_open c' = Some r \<and> c_rbatch c' r = x \<and> progress c' r)"
    proof (cases "x = b")
      case True
      have "ran_batch c' b" if "p" "list_all (\<lambda>x. x = None) es"
        using p [OF that] unfolding ran_batch_def
        by (intro exI [of _ "stmts (c_sent c)"] exI [of _ "[]"] exI [of _ "piped (c_texts c b)"])
           (simp add: c' c_send_def Let_def piped_def is_stmt_def filter_map comp_def)
      then have "progress c' ?r" by (auto simp: progress_def c' c_send_def Let_def)
      then show ?thesis using True by (simp add: c' c_send_def Let_def)
    next
      case False
      with x c o1 have "ran_batch c x" by (auto simp: c' c_send_def Let_def c_complete_def split: if_splits)
      then have "ran_batch c' x"
        by (rule ran_batch_mono [where es = "stmts evs"]) (simp_all add: c' c_send_def Let_def)
      then show ?thesis ..
    qed
  next
    assume "piped_failed c'"
    moreover have "\<not> piped_failed c" using c o1 by (simp add: c_complete_def owed_def)
    ultimately obtain q e where ev: "Piped q (Some e) \<in> set evs"
      by (auto simp: piped_failed_def c' c_send_def Let_def)
    then have "p" using pf by (cases p) auto
    moreover have "evs \<noteq> piped (c_texts c b)" using ev by (auto simp: piped_def)
    ultimately show "owed c'" using p by (auto simp: owed_def c' c_send_def Let_def)
  qed
  ultimately show ?thesis by (simp add: c_inv_def)
qed

subsection \<open>Queueing and sending\<close>

lemma bufferResult_pq: "item_pq (fst (bufferResult ans it)) = item_pq it"
  by (simp add: bufferResult_def split: sum.split)

lemma bufferResults_ok:
  "case bufferResults ans i first its of (its', first', es) \<Rightarrow>
     texts_of its' = texts_of its \<and> list_all quiet es \<and>
     (first = None \<longrightarrow> list_all (\<lambda>it. item_err it = None) its' \<longrightarrow> es = piped (texts_of its))"
proof (induction ans i first its rule: bufferResults.induct)
  case (3 ans i it its)
  obtain it' err where it: "bufferResult (ans i) it = (it', err)" by fastforce
  from 3 [OF it [symmetric]] bufferResult_pq [of "ans i" it] it show ?case
    by (auto simp: piped_def quiet_def split: prod.splits)
qed (auto simp: piped_def split: prod.splits)

lemma failFrom_all:
  "texts_of (failFrom 0 e its) = texts_of its"
  "list_all (\<lambda>x. x = None) (map item_err (failFrom 0 e its)) \<longleftrightarrow> its = []"
  by (auto simp: failFrom_def comp_def list_all_iff)

lemma pipeline_ok:
  assumes "pipeline p its = Some (its', first, tm, es)" "its \<noteq> []"
  shows "texts_of its' = texts_of its \<and> list_all quiet es \<and>
         (list_all (\<lambda>e. e = None) (map item_err its') \<longrightarrow> es = piped (texts_of its))"
proof (cases "\<exists>e. its' = failFrom 0 e its \<and> es = []")
  case True
  then obtain e where "its' = failFrom 0 e its" "es = []" by blast
  with assms(2) failFrom_all [of e its] show ?thesis by simp
next
  case False
  from assms(1) False obtain ans closeErr where p: "p = PipeSent ans closeErr"
    and m: "List.map_filter (\<lambda>it. pq_err (item_pq it)) its = []"
    unfolding pipeline_def Let_def by (cases "List.map_filter (\<lambda>it. pq_err (item_pq it)) its"; cases p) auto
  obtain its1 f1 es1 where b: "bufferResults ans 0 None its = (its1, f1, es1)" by (metis prod_cases3)
  from assms(1) b p m have e: "es = es1" and i: "its' = its1 \<or> (\<exists>e. its' = failFrom 0 e its1)"
    by (auto simp: pipeline_def split: if_splits)
  have ok: "texts_of its1 = texts_of its" "list_all quiet es"
    "list_all (\<lambda>it. item_err it = None) its1 \<Longrightarrow> es = piped (texts_of its)"
    using bufferResults_ok [where ans = ans and i = 0 and first = None and its = its] unfolding b e by simp_all
  from i show ?thesis
  proof
    assume "its' = its1"
    with ok show ?thesis by (simp add: list_all_iff)
  next
    assume "\<exists>e. its' = failFrom 0 e its1"
    moreover have "its1 \<noteq> []" using ok(1) assms(2) by auto
    ultimately show ?thesis using ok(1,2) failFrom_all by auto
  qed
qed

text \<open>Fields that the invariant reads only through the bookkeeping.\<close>

lemma c_inv_cong:
  assumes "c_inv c" "c' = c\<lparr>c_misuse := m, c_nb := n\<rparr>" "c_nb c \<le> n"
  shows "c_inv c'"
proof -
  have "c_complete c' = c_complete c" by (rule c_complete_cong) (simp_all add: assms(2))
  moreover have "c_struct c'"
    using assms unfolding c_inv_def c_struct_def assms(2) by (simp add: unsent_def c_latched_def)
  ultimately show ?thesis using assms(1,2) by (simp add: c_inv_def)
qed

lemma batch_Queue_winv:
  assumes inv: "winv w" and b: "b < next_batch w"
  shows "winv (batch_Queue b pq named w)"
proof (cases "b_sent (batches w b)")
  case True
  let ?w = "w\<lparr>batchMisuse := (if batchMisuse w = None then Some errQueuedAfterSend else batchMisuse w)\<rparr>"
  have "core_of ?w = (core_of w)\<lparr>c_misuse := True, c_nb := c_nb (core_of w)\<rparr>" by (simp add: core_of_def)
  with inv have "c_inv (core_of ?w)" by (auto simp: winv_def intro: c_inv_cong)
  then have "winv ?w" using inv by (simp add: winv_def live_ok_def)
  then have "winv (recordErr (Some errQueuedAfterSend) ?w)" using reads_recordErr by (rule winv_reads)
  with True show ?thesis by (simp add: batch_Queue_def Let_def)
next
  case False
  let ?c = "core_of w"
  have c: "core_of (batch_Queue b pq named w) =
      ?c\<lparr>c_unsent := c_unsent ?c + (if c_texts ?c b = [] then 1 else 0),
         c_texts := (c_texts ?c)(b := c_texts ?c b @ [pq_text pq]), c_errs := (c_errs ?c)(b := c_errs ?c b @ [None])\<rparr>"
    using False by (intro core.equality) (simp_all add: batch_Queue_def Let_def fun_eq_iff)
  have "c_inv ?c" "b < c_nb ?c" "\<not> c_bsent ?c b" using inv b False by (simp_all add: winv_def)
  then have "c_inv (core_of (batch_Queue b pq named w))" using c by (rule c_inv_queue)
  moreover have "live_ok (batch_Queue b pq named w)"
    using inv False by (simp add: winv_def live_ok_def batch_Queue_def Let_def)
  ultimately show ?thesis by (simp add: winv_def)
qed

lemma winv_fresh: "winv w \<Longrightarrow> batches w (next_batch w) = \<lparr>items = [], b_sent = False\<rparr>"
  by (rule batch.equality) (auto simp: winv_def c_inv_def c_struct_def)

lemma tx_Batch_winv:
  assumes inv: "winv w"
  shows "winv (fst (tx_Batch w))"
proof -
  have "fst (tx_Batch w) = w\<lparr>next_batch := next_batch w + 1\<rparr>"
    using winv_fresh [OF inv] by (simp add: tx_Batch_def fun_upd_idem)
  then have "core_of (fst (tx_Batch w)) = (core_of w)\<lparr>c_misuse := c_misuse (core_of w), c_nb := Suc (c_nb (core_of w))\<rparr>"
    by (simp add: core_of_def)
  with inv have "c_inv (core_of (fst (tx_Batch w)))" by (auto simp: winv_def intro: c_inv_cong)
  then show ?thesis using inv by (simp add: winv_def live_ok_def tx_Batch_def)
qed

subsection \<open>Sending\<close>

text \<open>The results of a send, before anything is run.\<close>

definition opened :: "nat \<Rightarrow> txw \<Rightarrow> txw" where
  "opened b w = w\<lparr>results := (results w)(next_results w := \<lparr>r_batch = b, r_next = 0, r_err = None, r_closed = False,
      r_open = None, pipelined = False, typeMap = False\<rparr>), next_results := next_results w + 1,
      batches := (batches w)(b := (batches w b)\<lparr>b_sent := True\<rparr>),
      unsentBatches := unsentBatches w - (if \<not> b_sent (batches w b) \<and> items (batches w b) \<noteq> [] then 1 else 0)\<rparr>"

lemma core_opened: "core_of (opened b w) = c_send b (core_of w)"
  by (intro core.equality) (simp_all add: opened_def c_send_def Let_def fun_eq_iff)

lemma opened_struct: "winv w \<Longrightarrow> b < next_batch w \<Longrightarrow> c_struct (core_of (opened b w)) \<and> live_ok (opened b w)"
  by (simp add: core_opened winv_def c_inv_def c_struct_send) (simp add: live_ok_def opened_def)

lemma failed_winv:
  assumes "c_struct (core_of w) \<and> live_ok w" "reads w w'" "tx_err w' \<noteq> None"
  shows "winv w'"
  using assms c_struct_gentle by (auto simp: winv_def c_inv_def reads_def)

lemma results_fail_winv:
  assumes "c_struct (core_of w) \<and> live_ok w" "err \<noteq> None"
  shows "winv (fst (results_fail r err w))"
proof (rule failed_winv [OF assms(1) reads_fail])
  have "autoErr w" using assms(1) by (simp add: c_struct_def)
  then show "tx_err (fst (results_fail r err w)) \<noteq> None" using assms(2) by (rule results_fail_err)
qed

lemma r_err_winv:
  assumes s: "c_struct (core_of w) \<and> live_ok w" and e: "tx_err w \<noteq> None"
  shows "winv (upd_results r (r_err_update (\<lambda>_. err)) w)"
proof -
  have "core_of (upd_results r (r_err_update (\<lambda>_. err)) w) = (core_of w)\<lparr>c_rerr := (c_rerr (core_of w))(r := err)\<rparr>"
    by (intro core.equality) (simp_all add: fun_eq_iff)
  then show ?thesis using s e by (auto simp: winv_def c_inv_def c_struct_def unsent_def c_latched_def live_ok_def)
qed

lemma Send_again:
  assumes "b_sent (batches w b)"
  shows "batch_Send b p w = (fst (results_fail (next_results w) (Some errAlreadySent) (opened b w)), Some (next_results w))"
proof -
  have "(batches w)(b := (batches w b)\<lparr>b_sent := True\<rparr>) = batches w"
    using assms by (intro fun_upd_idem batch.equality) simp_all
  then show ?thesis using assms by (simp add: batch_Send_def opened_def Let_def)
qed

text \<open>The driver panics while it runs the batch; the send does not return.\<close>

definition batch_panics :: "nat \<Rightarrow> pipe \<Rightarrow> txw \<Rightarrow> bool" where
  "batch_panics b p w \<longleftrightarrow> snd (batch_Send b p w) = None"

text \<open>Sending a batch for the first time: the gate, the named arguments, then the results open.\<close>

lemma Send_first:
  assumes "\<not> b_sent (batches w b)"
  shows "batch_Send b p w =
    (let r = next_results w; its = items (batches w b) in
     case shortCircuit (opened b w) of
       (w3, Some e) \<Rightarrow> (upd_results r (r_err_update (\<lambda>_. Some e)) w3, Some r)
     | (w3, None) \<Rightarrow>
       if list_ex named_arg its then (fst (results_fail r (Some errNamedArg) w3), Some r)
       else if its = [] then (w3, Some r)
       else
         let w4 = w3\<lparr>openBatch := Some r\<rparr> in
         if held_conn w4 then
           (case pipeline p its of
              None \<Rightarrow> (upd_results r (pipelined_update (\<lambda>_. True)) w4, None)
            | Some (its', first, tm, es) \<Rightarrow>
                (log_events es (upd_results r (\<lambda>x. x\<lparr>pipelined := True, typeMap := tm\<rparr>)
                   (w4\<lparr>batches := (batches w4)(b := (batches w4 b)\<lparr>items := its'\<rparr>)\<rparr>)), Some r))
         else (w4, Some r))"
  using assms by (simp add: batch_Send_def opened_def Let_def)

lemma opened_sel [simp]:
  "openBatch (opened b w) = openBatch w" "batchExecuting (opened b w) = batchExecuting w"
  "autoErr (opened b w) = autoErr w" "tx_err (opened b w) = tx_err w" "held_conn (opened b w) = held_conn w"
  "sent (opened b w) = sent w" "readers (opened b w) = readers w"
  "items (batches (opened b w) b) = items (batches w b)"
  by (simp_all add: opened_def)

lemma Send_live:
  assumes inv: "winv w" and b: "b < next_batch w" "\<not> b_sent (batches w b)"
    and e: "tx_err w = None" "openBatch w = None"
  shows "winv ((opened b w)\<lparr>openBatch := Some (next_results w)\<rparr>)"
proof -
  let ?c = "core_of w"
  have "core_of ((opened b w)\<lparr>openBatch := Some (next_results w)\<rparr>) = (c_send b ?c)\<lparr>c_open := Some (c_nr ?c),
      c_pipe := (c_pipe ?c)(c_nr ?c := False), c_errs := (c_errs ?c)(b := c_errs ?c b), c_sent := c_sent ?c @ []\<rparr>"
    unfolding core_opened [symmetric] by (intro core.equality) (simp_all add: fun_eq_iff opened_def)
  from c_inv_open [OF _ _ _ _ _ this] have "c_inv (core_of ((opened b w)\<lparr>openBatch := Some (next_results w)\<rparr>))"
    using inv b e by (simp add: winv_def)
  then show ?thesis using inv by (simp add: winv_def live_ok_def)
qed

lemma Send_piped:
  assumes inv: "winv w" and b: "b < next_batch w" "\<not> b_sent (batches w b)"
    and e: "tx_err w = None" "openBatch w = None" and ne: "items (batches w b) \<noteq> []"
    and p: "pipeline p (items (batches w b)) = Some (its, first, tm, es)"
    and w4: "w4 = (opened b w)\<lparr>openBatch := Some (next_results w)\<rparr>"
  shows "winv (log_events es (upd_results (next_results w) (\<lambda>x. x\<lparr>pipelined := True, typeMap := tm\<rparr>)
           (w4\<lparr>batches := (batches w4)(b := (batches w4 b)\<lparr>items := its\<rparr>)\<rparr>)))" (is "winv ?w5")
proof -
  let ?c = "core_of w"
  note ok = pipeline_ok [OF p ne]
  have "core_of ?w5 = (c_send b ?c)\<lparr>c_open := Some (c_nr ?c), c_pipe := (c_pipe ?c)(c_nr ?c := True),
      c_errs := (c_errs ?c)(b := map item_err its), c_sent := c_sent ?c @ es\<rparr>"
    unfolding core_opened [symmetric] using ok
    by (intro core.equality) (simp_all add: fun_eq_iff opened_def w4)
  from c_inv_open [OF _ _ _ _ _ this] have "c_inv (core_of ?w5)"
    using inv b e ok by (simp add: winv_def)
  then show ?thesis using inv by (simp add: winv_def live_ok_def w4)
qed

lemma batch_Send_winv:
  assumes inv: "winv w" and b: "b < next_batch w" and p: "\<not> batch_panics b p w"
  shows "winv (fst (batch_Send b p w))"
proof (cases "b_sent (batches w b)")
  case True
  with results_fail_winv [OF opened_struct [OF inv b]] show ?thesis by (simp add: Send_again)
next
  case new: False
  note s = opened_struct [OF inv b]
  note d = winvD [OF inv]
  show ?thesis
  proof (cases "shortCircuit (opened b w)")
    case (Pair w3 err)
    show ?thesis
    proof (cases err)
      case (Some e)
      have "reads (opened b w) w3" "tx_err w3 \<noteq> None"
        using Pair Some d(1) by (auto simp: shortCircuit_def reads_recordErr recordErr_err split: if_splits)
      then have "c_struct (core_of w3) \<and> live_ok w3" "tx_err w3 \<noteq> None"
        using s c_struct_gentle by (auto simp: reads_def)
      from r_err_winv [OF this] show ?thesis using new Pair Some by (simp add: Send_first Let_def)
    next
      case None
      with Pair have w3: "w3 = opened b w" and e: "tx_err w = None" "openBatch w = None"
        using d(1,2) shortCircuit_proceeds [of "opened b w" w3] by (auto simp: batchRefuses_def)
      have "winv (fst (results_fail (next_results w) (Some errNamedArg) (opened b w)))"
        using results_fail_winv [OF s] by simp
      moreover have "winv (opened b w)" if "items (batches w b) = []"
        using s inv that e c_complete_send [of "core_of w" b]
        by (simp add: winv_def c_inv_def core_opened)
      moreover note Send_live [OF inv b new e] Send_piped [OF inv b new e _ _ refl, of p]
      ultimately show ?thesis
        using new Pair None w3 p by (auto simp: Send_first Let_def batch_panics_def split: option.split)
    qed
  qed
qed

end
