(* ===== verification/Go_Regexp.thy ===== *)
theory Go_Regexp
  imports Go_Prelude
begin

section \<open>Pieces of Go regular expressions\<close>

text \<open>
  The patterns the source compiles are written out as recursive functions; these are the pieces they share.
  Go matches bytes of UTF-8: \<^verbatim>\<open>\s\<close> is five ASCII bytes and \<^verbatim>\<open>.\<close> is anything but a newline. Under \<^verbatim>\<open>(?i)\<close> a
  letter matches its simple case folds: for the letters of the words used here that is the other case and,
  for an S, also the long s U+017F, which is two bytes.
\<close>

definition re_space :: "char \<Rightarrow> bool" where
  "re_space c \<longleftrightarrow> c \<in> {CHR 0x09, nl, CHR 0x0C, CHR 0x0D, CHR '' ''}"

text \<open>\<open>after_fold prev w s\<close>: what follows the upper-case word \<open>w\<close>, in any case, at the start of \<open>s\<close>, with the
  last byte matched (\<open>prev\<close> if there is none).\<close>

fun after_fold :: "char \<Rightarrow> string \<Rightarrow> string \<Rightarrow> (char \<times> string) option" where
  "after_fold prev [] s = Some (prev, s)"
| "after_fold prev (c # w) s =
     (case s of
        [] \<Rightarrow> None
      | d # s' \<Rightarrow>
        if upper_byte d = c then after_fold d w s'
        else if c = CHR ''S'' \<and> d = CHR 0xC5 \<and> s' \<noteq> [] \<and> hd s' = CHR 0xBF then after_fold (hd s') w (tl s')
        else None)"

lemma after_fold_length: "after_fold prev w s = Some (p, t) \<Longrightarrow> length t \<le> length s \<and> (w \<noteq> [] \<longrightarrow> length t < length s)"
proof (induction prev w s rule: after_fold.induct)
  case (2 prev c w s)
  then show ?case by (auto split: list.splits if_splits)
qed simp

text \<open>The text after the last \<open>c\<close> of the first line, if the line has one: a greedy \<^verbatim>\<open>.*\<close> before a \<open>c\<close>.\<close>

fun after_last :: "char \<Rightarrow> string \<Rightarrow> string option" where
  "after_last c [] = None"
| "after_last c (d # s) =
     (if d = nl then None
      else case after_last c s of
        Some t \<Rightarrow> Some t
      | None \<Rightarrow> if d = c then Some s else None)"

lemma after_last_length: "after_last c s = Some t \<Longrightarrow> length t < length s"
  by (induction c s rule: after_last.induct) (auto split: if_splits option.splits)

lemma after_last_skip:
  assumes "nl \<notin> set p" "c \<noteq> nl"
  shows "after_last c (p @ c # s) = (case after_last c s of Some t \<Rightarrow> Some t | None \<Rightarrow> Some s)"
  using assms by (induction p) (auto split: option.splits)

end
