(* ===== verification/Inserts.thy ===== *)
theory Inserts
  imports Transactions Go_Regexp
begin

section \<open>Inserts that return an ID (insertReturnID of db.go)\<close>

text \<open>
  \<^verbatim>\<open>InsertReturnID\<close> runs an INSERT through an \<^verbatim>\<open>Executor\<close> and reads back the generated ID: from the
  result on MySQL, MariaDB and SQLite, from a spliced RETURNING or OUTPUT INSERTED clause on the others.
  The executor is two functions on a state: \<open>execC\<close> runs a statement and answers with what
  \<^verbatim>\<open>LastInsertId\<close> will say, \<open>rowScan\<close> is \<^verbatim>\<open>QueryRowContext\<close> followed by \<^verbatim>\<open>Scan(&id)\<close>.
\<close>

subsection \<open>The source clause\<close>

text \<open>
  \<^verbatim>\<open>insertSourceClausePattern\<close> is \<^verbatim>\<open>(?i)\s+(VALUES|SELECT)\b\<close>.
\<close>

definition word_boundary :: "char \<times> string \<Rightarrow> bool" where
  "word_boundary ps = (case ps of (prev, s) \<Rightarrow> isWordByte prev \<noteq> (s \<noteq> [] \<and> isWordByte (hd s)))"

definition source_word_at :: "string \<Rightarrow> bool" where
  "source_word_at s \<longleftrightarrow>
     list_ex (\<lambda>w. case after_fold (CHR '' '') w s of None \<Rightarrow> False | Some ps \<Rightarrow> word_boundary ps)
       [''VALUES'', ''SELECT'']"

definition source_clause_at :: "string \<Rightarrow> bool" where
  "source_clause_at s \<longleftrightarrow> s \<noteq> [] \<and> re_space (hd s) \<and> source_word_at (dropWhile re_space s)"

primrec insertSourceClause :: "string \<Rightarrow> nat option" where
  "insertSourceClause [] = None"
| "insertSourceClause (c # s) =
     (if source_clause_at (c # s) then Some 0 else map_option Suc (insertSourceClause s))"

definition errNoSource :: error where
  "errNoSource = NewError ''VALUES or SELECT clause not found in INSERT statement''"

definition injectOutputInserted :: "string \<Rightarrow> string \<Rightarrow> error + string" where
  "injectOutputInserted stm idColumn =
     (case insertSourceClause stm of
        None \<Rightarrow> Inl errNoSource
      | Some i \<Rightarrow> Inr (take i stm @ '' OUTPUT INSERTED.'' @ idColumn @ drop i stm))"

subsection \<open>Running the insert\<close>

definition errIdColumn :: "string \<Rightarrow> error" where
  "errIdColumn idColumn = NewError (''ID column must match [A-Za-z_][A-Za-z0-9_]*: '' @ idColumn)"

definition errDriver :: "string \<Rightarrow> error" where
  "errDriver driverName = NewError (''unsupported driver name: '' @ driverName)"

definition traced_result :: "error + 'v \<Rightarrow> error + 'v" where
  "traced_result r = (case r of Inl e \<Rightarrow> Inl (Traced e) | Inr v \<Rightarrow> Inr v)"

definition insertReturnID ::
  "(string \<Rightarrow> 's \<Rightarrow> 's \<times> (error + (error + int))) \<Rightarrow> (string \<Rightarrow> 's \<Rightarrow> 's \<times> (error + int)) \<Rightarrow>
   string \<Rightarrow> string \<Rightarrow> string \<Rightarrow> 's \<Rightarrow> 's \<times> (error + int)" where
  "insertReturnID execC rowScan driverName idColumn stm s =
     (if \<not> isIdentifier idColumn then (s, Inl (errIdColumn idColumn))
      else if driverName \<in> {''mysql'', ''mariadb'', ''sqlite''} then
        (case execC stm s of
           (s1, Inl e) \<Rightarrow> (s1, Inl (Traced e))
         | (s1, Inr lastInsertId) \<Rightarrow> (s1, traced_result lastInsertId))
      else if driverName \<in> {''pgx'', ''cockroachdb''} then
        (case rowScan (stm @ '' RETURNING '' @ idColumn) s of (s1, r) \<Rightarrow> (s1, traced_result r))
      else if driverName = ''mssql'' then
        (case injectOutputInserted stm idColumn of
           Inl e \<Rightarrow> (s, Inl (Traced e))
         | Inr stm' \<Rightarrow> (case rowScan stm' s of (s1, r) \<Rightarrow> (s1, traced_result r)))
      else (s, Inl (errDriver driverName)))"

text \<open>
  The \<^verbatim>\<open>Tx\<close> as an executor: \<open>lk\<close> is \<^verbatim>\<open>lookupQuery\<close> for its driver, \<open>rtt\<close> and the other arguments what
  the context, the database and the scan answer.
\<close>

definition tx_execC ::
  "(string \<Rightarrow> preparedQuery) \<Rightarrow> error option \<Rightarrow> error + (error + int) \<Rightarrow> string \<Rightarrow> 'x tx_scheme \<Rightarrow>
   'x tx_scheme \<times> (error + (error + int))" where
  "tx_execC lk rtt ans q t = tx_ExecContext (lk q) rtt ans t"

definition tx_rowScan ::
  "(string \<Rightarrow> preparedQuery) \<Rightarrow> error option \<Rightarrow> error + int \<Rightarrow> string \<Rightarrow> 'x tx_scheme \<Rightarrow> 'x tx_scheme \<times> (error + int)" where
  "tx_rowScan lk queryErr scan q t =
     (case tx_QueryRowContext (lk q) queryErr t of
        (t1, rw) \<Rightarrow>
          (case row_Scan rw (err_of scan) t1 of
             (t2, _, Some e) \<Rightarrow> (t2, Inl e)
           | (t2, _, None) \<Rightarrow> (t2, scan)))"

definition tx_InsertReturnID ::
  "(string \<Rightarrow> preparedQuery) \<Rightarrow> error option \<Rightarrow> error + (error + int) \<Rightarrow> error option \<Rightarrow> error + int \<Rightarrow>
   string \<Rightarrow> string \<Rightarrow> string \<Rightarrow> 'x tx_scheme \<Rightarrow> 'x tx_scheme \<times> (error + int)" where
  "tx_InsertReturnID lk rtt ans queryErr scan driverName idColumn stm t =
     (case shortCircuit t of
        (t1, Some e) \<Rightarrow> (t1, Inl e)
      | (t1, None) \<Rightarrow>
        (case insertReturnID (tx_execC lk rtt ans) (tx_rowScan lk queryErr scan) driverName idColumn stm t1 of
           (t2, r) \<Rightarrow> (recordErr (err_of r) t2, r)))"

subsection \<open>What every executor keeps\<close>

text \<open>
  \<^verbatim>\<open>insertReturnID\<close> relies on its executor only through the two calls, at most one of which it makes; so a
  reflexive relation both calls keep between the states before and after is kept by the insert.
\<close>

locale executor =
  fixes execC :: "string \<Rightarrow> 's \<Rightarrow> 's \<times> (error + (error + int))"
    and rowScan :: "string \<Rightarrow> 's \<Rightarrow> 's \<times> (error + int)"
    and keeps :: "'s \<Rightarrow> 's \<Rightarrow> bool"
  assumes idle: "keeps s s"
    and exec_keeps: "keeps s (fst (execC q s))"
    and scan_keeps: "keeps s (fst (rowScan q s))"
begin

lemma insert_keeps: "keeps s (fst (insertReturnID execC rowScan driverName idColumn stm s))"
  using idle [of s] exec_keeps [of s] scan_keeps [of s]
  by (simp add: insertReturnID_def split_beta split: sum.split)

end

lemma rowScan_latching: "latching t (fst (tx_rowScan lk queryErr scan q t))"
proof -
  obtain t1 rw where q: "tx_QueryRowContext (lk q) queryErr t = (t1, rw)" by fastforce
  have "row_of t1 rw" using queryrow_row [of "lk q" queryErr t] q by simp
  then have "latching t1 (fst (row_Scan rw (err_of scan) t1))" by (rule row_latching(1))
  moreover have "latching t t1" using queryrow_latching(1) [of t "lk q" queryErr] q by simp
  ultimately have "latching t (fst (row_Scan rw (err_of scan) t1))" by (metis latching_trans)
  then show ?thesis using q by (simp add: tx_rowScan_def split_beta split: option.split)
qed

interpretation tx_executor: executor "tx_execC lk rtt ans" "tx_rowScan lk queryErr scan" latching
  for lk rtt ans queryErr scan
  by unfold_locales (simp_all add: tx_execC_def exec_latching rowScan_latching)

lemma insert_latching: "latching t (fst (tx_InsertReturnID lk rtt ans queryErr scan driverName idColumn stm t))"
proof (cases rule: shortCircuit_cases [of t])
  case proceeds
  have "latching t (recordErr e (fst (insertReturnID (tx_execC lk rtt ans) (tx_rowScan lk queryErr scan)
      driverName idColumn stm t)))" for e
    using tx_executor.insert_keeps latching_recordErr by (rule latching_trans)
  with proceeds show ?thesis by (simp add: tx_InsertReturnID_def split_beta)
qed (simp add: tx_InsertReturnID_def)

subsection \<open>Where the clause goes\<close>

lemma insertSourceClause_Some:
  "insertSourceClause s = Some i \<longleftrightarrow>
     i < length s \<and> source_clause_at (drop i s) \<and> (\<forall>j < i. \<not> source_clause_at (drop j s))"
proof (induction s arbitrary: i)
  case (Cons c s)
  show ?case
  proof (cases i)
    case 0
    then show ?thesis by simp
  next
    case (Suc k)
    have "(\<forall>j < Suc k. \<not> source_clause_at (drop j (c # s))) \<longleftrightarrow>
        \<not> source_clause_at (c # s) \<and> (\<forall>j < k. \<not> source_clause_at (drop j s))"
      by (simp add: All_less_Suc2)
    with Suc Cons [of k] show ?thesis by (auto simp del: insertSourceClause.simps simp: insertSourceClause.simps(2))
  qed
qed simp

lemma insertSourceClause_None: "insertSourceClause s = None \<longleftrightarrow> (\<forall>i < length s. \<not> source_clause_at (drop i s))"
  by (induction s) (auto simp: All_less_Suc2)

end
