(* ===== verification/Closures.thy ===== *)
theory Closures
  imports Batch_Run Inserts
begin

section \<open>What a closure may do\<close>

text \<open>
  \<open>tx_step\<close> is everything a closure may do with the transaction that \<^verbatim>\<open>Transact\<close> hands it: any statement,
  prepared or not, inserts, reading rows, queueing, sending, reading and closing batches, in any order and
  with any answers of the database, the driver and the context. Handles are those the transaction gave out:
  prepared statements, rows and single rows of this transaction, and batches it created. Two things are left
  out: ending the transaction, which \<^verbatim>\<open>Transact\<close> does, and a driver that panics while a batch is sent, which
  leaves the closure by unwinding it.
\<close>

inductive tx_step :: "txw \<Rightarrow> txw \<Rightarrow> bool" where
  exec: "tx_step w (fst (tx_ExecContext pq rtt (ans :: error + unit) w))"
| query: "tx_step w (fst (tx_QueryContext pq rtt (ans :: error + unit) w))"
| query_row: "tx_step w (fst (tx_QueryRowContext pq queryErr w))"
| prepare: "tx_step w (fst (tx_PrepareContext pq rtt (ans :: error + unit) w))"
| bind: "tx_step w (fst (tx_StmtContext st w))"
| stmt_exec: "stmt_in_tx st \<Longrightarrow> tx_step w (fst (stmt_ExecContext st rtt (ans :: error + unit) w))"
| stmt_query: "stmt_in_tx st \<Longrightarrow> tx_step w (fst (stmt_QueryContext st rtt (ans :: error + unit) w))"
| stmt_query_row: "stmt_in_tx st \<Longrightarrow> tx_step w (fst (stmt_QueryRowContext st queryErr w))"
| insert_id: "tx_step w (fst (tx_InsertReturnID lk rtt ians queryErr scanned driver col q w))"
| rows_scan: "rows_in_tx rs \<Longrightarrow> tx_step w (fst (rows_Scan rs err w))"
| rows_next: "rows_in_tx rs \<Longrightarrow> tx_step w (fst (rows_Next rs ok err w))"
| rows_next_set: "rows_in_tx rs \<Longrightarrow> tx_step w (fst (rows_NextResultSet rs ok err w))"
| rows_err: "rows_in_tx rs \<Longrightarrow> tx_step w (fst (rows_Err rs err w))"
| row_scan: "row_of w rw \<Longrightarrow> tx_step w (fst (row_Scan rw err w))"
| row_err: "row_of w rw \<Longrightarrow> tx_step w (fst (row_Err rw w))"
| batch: "tx_step w (fst (tx_Batch w))"
| queue: "b < next_batch w \<Longrightarrow> tx_step w (batch_Queue b pq named w)"
| send: "b < next_batch w \<Longrightarrow> \<not> batch_panics b p w \<Longrightarrow> tx_step w (fst (batch_Send b p w))"
| results_exec: "tx_step w (fst (results_Exec r a (bans :: unit answer) w))"
| results_query: "tx_step w (fst (results_Query r a (bans :: unit answer) w))"
| results_query_row: "tx_step w (fst (results_QueryRow r a (bans :: unit answer) w))"
| results_close: "tx_step w (fst (results_Close r a (rest :: nat \<Rightarrow> unit answer) w))"
| brows_next: "tx_step w (fst (brows_Next k a w))"
| brows_scan: "tx_step w (fst (brows_Scan k a scan w))"
| brows_err: "tx_step w (fst (brows_Err k a w))"
| brows_close: "tx_step w (fst (brows_Close k a w))"
| brow_scan: "tx_step w (fst (brow_Scan br a scan rawDest w))"
| brow_err: "tx_step w (fst (brow_Err br a w))"

text \<open>The transaction as \<^verbatim>\<open>transactOnce\<close> makes it; \<open>held\<close> says whether it begins on a held connection.\<close>

definition tx_start :: "bool \<Rightarrow> txw" where
  "tx_start held =
     \<lparr>autoErr = True, tx_err = None, tx_done = False, held_conn = held, unsentBatches = 0, batchMisuse = None,
      openBatch = None, batchExecuting = False, sent = [],
      batches = (\<lambda>_. \<lparr>items = [], b_sent = False\<rparr>),
      results = (\<lambda>_. \<lparr>r_batch = 0, r_next = 0, r_err = None, r_closed = True, r_open = None, pipelined = False,
                      typeMap = False\<rparr>),
      readers = (\<lambda>_. \<lparr>src = Buffered \<lparr>bf_typeMap = False, bf_fields = [], bf_rows = [], bf_next = 0\<rparr>,
                      rows_results = 0, rows_closed = True, rows_done = True, superseded = False\<rparr>),
      next_batch = 0, next_results = 0, next_reader = 0\<rparr>"

abbreviation closure_run :: "bool \<Rightarrow> txw \<Rightarrow> bool" where
  "closure_run held w \<equiv> tx_step\<^sup>*\<^sup>* (tx_start held) w"

lemma start_winv: "winv (tx_start held)"
  by (simp add: winv_def c_inv_def c_struct_def c_complete_def piped_failed_def unsent_def c_latched_def live_ok_def)
     (simp add: tx_start_def)

subsection \<open>Every step keeps the invariant\<close>

lemma insert_refused:
  assumes "openBatch w \<noteq> None" "\<not> batchExecuting w"
  shows "sent (fst (tx_InsertReturnID lk rtt ans queryErr scan driverName idColumn stm w)) = sent w"
  using refused [OF assms] by (auto simp: tx_InsertReturnID_def split: prod.splits option.splits)

lemma reads_brow_Scan: "reads w (fst (brow_Scan br a scan rawDest w))"
proof (cases "brow_err br")
  case None
  let ?k = "the (brow_rows br)"
  obtain w1 ok where n: "brows_Next ?k a w = (w1, ok)" by fastforce
  have w1: "reads w w1" using reads_brows_Next [of w ?k a] n by simp
  have c: "reads w (fst (brows_Close ?k a w2))" if "reads w1 w2" for w2
    using reads_trans [OF w1 that] reads_brows_Close by (rule reads_trans)
  from None n c reads_brows_Err [of w1 ?k a] reads_brows_Scan [of w1 ?k a scan]
    reads_fail [of w1 "rows_results (readers w1 ?k)" "Some errRawBytes"]
  show ?thesis
    by (auto simp: brow_Scan_def Let_def split_beta reads_recordErr split: bool.split option.split)
qed (simp add: brow_Scan_def)

lemma reads_brow_Err: "reads w (fst (brow_Err br a w))"
  by (simp add: brow_Err_def reads_brows_Err split: option.split)

lemma QueryRow_state: "fst (results_QueryRow r a ans w) = fst (results_Query r a ans w)"
  by (auto simp: results_QueryRow_def split: prod.split option.split sum.split)

lemma exec_winv:
  assumes "winv w"
  shows "winv (fst (tx_ExecContext pq rtt ans w))"
  using assms exec_latching by (rule statement_winv) (simp add: refused_statement(1) winvD(2) [OF assms])

lemma statements_winv:
  assumes inv: "winv w"
  shows "winv (fst (tx_QueryRowContext pq queryErr w))" "winv (fst (tx_StmtContext st w))"
    "stmt_in_tx st \<Longrightarrow> winv (fst (stmt_QueryRowContext st queryErr w))"
    "stmt_in_tx st \<Longrightarrow> winv (fst (stmt_ExecContext st rtt ans w))"
    "winv (fst (tx_InsertReturnID lk rtt ians queryErr scanned driver col q w))"
proof -
  note refused = refused_statement [OF _ winvD(2) [OF inv]]
  show "winv (fst (tx_QueryRowContext pq queryErr w))"
    using inv queryrow_latching(1) by (rule statement_winv) (simp add: refused)
  show "winv (fst (tx_StmtContext st w))"
    using inv bind_latching by (rule statement_winv) (simp add: refused)
  show "winv (fst (stmt_QueryRowContext st queryErr w))" if "stmt_in_tx st"
    using inv queryrow_latching(2) by (rule statement_winv) (simp add: refused that)
  show "winv (fst (stmt_ExecContext st rtt ans w))" if "stmt_in_tx st"
    using exec_winv [OF inv, of "stmt_pq st" rtt ans] inv by (simp add: stmt_exec_state that)
  show "winv (fst (tx_InsertReturnID lk rtt ians queryErr scanned driver col q w))"
    using inv insert_latching by (rule statement_winv) (simp add: insert_refused winvD(2) [OF inv])
qed

lemma rows_winv:
  assumes inv: "winv w" and rs: "rows_in_tx rs"
  shows "winv (fst (rows_Scan rs err w))" "winv (fst (rows_Next rs ok err w))"
    "winv (fst (rows_NextResultSet rs ok err w))" "winv (fst (rows_Err rs err w))"
  by (rule statement_winv [OF inv]; simp add: rows_latching [OF rs] read_stmts)+

lemma row_winv:
  assumes inv: "winv w" and rw: "row_of w rw"
  shows "winv (fst (row_Scan rw err w))" "winv (fst (row_Err rw w))"
  by (rule statement_winv [OF inv row_latching(1) [OF rw]]; simp add: read_stmts)
     (rule statement_winv [OF inv row_latching(2) [OF rw]]; simp add: read_stmts)

lemma readers_winv:
  assumes inv: "winv w"
  shows "winv (fst (brows_Next k a w))" "winv (fst (brows_Scan k a scan w))" "winv (fst (brows_Err k a w))"
    "winv (fst (brows_Close k a w))" "winv (fst (brow_Scan br a scan rawDest w))" "winv (fst (brow_Err br a w))"
  by (rule winv_reads [OF inv reads_brows_Next] winv_reads [OF inv reads_brows_Scan]
      winv_reads [OF inv reads_brows_Err] winv_reads [OF inv reads_brows_Close]
      winv_reads [OF inv reads_brow_Scan] winv_reads [OF inv reads_brow_Err])+

lemmas step_winv = exec_winv statements_winv rows_winv row_winv readers_winv tx_Batch_winv batch_Queue_winv
  batch_Send_winv results_Exec_winv results_Query_winv results_Close_winv

lemma tx_step_winv: "tx_step w w' \<Longrightarrow> winv w \<Longrightarrow> winv w'"
  by (induction rule: tx_step.induct)
     (simp_all only: step_winv query_state prepare_state stmt_query_state QueryRow_state not_False_eq_True)

theorem closure_winv: "closure_run held w \<Longrightarrow> winv w"
  by (induction rule: rtranclp_induct) (use start_winv tx_step_winv in blast)+

end
