(* ===== verification/Failed_Tx.thy ===== *)
theory Failed_Tx
  imports Closures
begin

section \<open>A failed transaction is silent\<close>

text \<open>
  Once an error is recorded, nothing the closure does reaches the database as a statement: each operation
  answers with the recorded error, and the error stays. Together with \<open>no_partial_commit\<close> this is the
  contract of the \<^verbatim>\<open>autoErr\<close> mode.
\<close>

definition silent :: "txw \<Rightarrow> txw \<Rightarrow> bool" where
  "silent w w' \<longleftrightarrow> stmts (sent w') = stmts (sent w) \<and> tx_err w' = tx_err w"

lemma silent_refl [simp]: "silent w w"
  by (simp add: silent_def)

lemma silent_trans: "silent w1 w2 \<Longrightarrow> silent w2 w3 \<Longrightarrow> silent w1 w3"
  by (simp add: silent_def)

lemma reads_silent:
  assumes "reads w w'" "live_ok w" "tx_err w \<noteq> None"
  shows "silent w w'"
proof -
  have g: "gentle (core_of w) (core_of w')" using assms by (simp add: reads_def)
  then obtain es where "sent w' = sent w @ es" "stmts es = []" by (auto simp: gentle_def)
  then show ?thesis using g assms(3) by (auto simp: gentle_def silent_def)
qed

lemma latching_silent: "latching w w' \<Longrightarrow> tx_err w \<noteq> None \<Longrightarrow> stmts (sent w') = stmts (sent w) \<Longrightarrow> silent w w'"
  by (simp add: latching_def silent_def)

text \<open>Every statement of the transaction stops at its gate.\<close>

lemma statements_silent:
  assumes "autoErr w" "tx_err w = Some e"
  shows "silent w (fst (tx_ExecContext pq rtt ans w))" "silent w (fst (tx_QueryRowContext pq queryErr w))"
    "silent w (fst (tx_StmtContext st w))"
    "stmt_in_tx st \<Longrightarrow> silent w (fst (stmt_QueryRowContext st queryErr w))"
    "silent w (fst (tx_InsertReturnID lk rtt ians queryErr scanned driver col q w))"
    "stmt_in_tx st \<Longrightarrow> silent w (fst (stmt_ExecContext st rtt ans w))"
proof -
  note gate = shortCircuit_failed [OF assms]
  show x: "silent w (fst (tx_ExecContext pq rtt ans w))" for pq by (simp add: statement_ops gate)
  show "silent w (fst (tx_QueryRowContext pq queryErr w))" by (simp add: statement_ops gate)
  show "silent w (fst (tx_StmtContext st w))" by (simp add: tx_StmtContext_def gate) (simp add: silent_def is_stmt_def)
  show "silent w (fst (stmt_QueryRowContext st queryErr w))" if "stmt_in_tx st"
    using that by (simp add: statement_ops stmt_shortCircuit_def gate split: option.split)
  show "silent w (fst (tx_InsertReturnID lk rtt ians queryErr scanned driver col q w))"
    by (simp add: tx_InsertReturnID_def gate)
  show "silent w (fst (stmt_ExecContext st rtt ans w))" if "stmt_in_tx st"
    using x by (simp add: stmt_exec_state that)
qed

text \<open>Results of a batch answer with the recorded error, and run nothing.\<close>

lemma advance_silent:
  assumes inv: "winv w" and e: "tx_err w \<noteq> None"
  shows "silent w (fst (advance r a w)) \<and> (\<exists>x. snd (advance r a w) = Inl x)"
proof -
  define wa where "wa = supersedeOpen r a w"
  have ia: "winv wa" unfolding wa_def using inv reads_supersedeOpen by (rule winv_reads)
  have sa: "silent w wa"
    unfolding wa_def using reads_supersedeOpen inv e by (intro reads_silent) (simp_all add: winv_def)
  have sb: "silent wa (doomed r wa)"
    using reads_doomed ia sa e by (intro reads_silent) (simp_all add: winv_def silent_def)
  have "silent w (doomed r wa)" using sa sb by (rule silent_trans)
  moreover have "r_err (results (doomed r wa) r) \<noteq> None"
    using doomed_sync [OF winvD(1) [OF ia], of r] sa sb e by (simp add: silent_def)
  ultimately show ?thesis
    using sa by (auto simp: advance_def wa_def [symmetric] Let_def) (simp_all add: silent_def)
qed

lemma results_silent:
  assumes inv: "winv w" and e: "tx_err w \<noteq> None"
  shows "silent w (fst (results_Exec r a ans w))" "silent w (fst (results_Query r a ans w))"
  using advance_silent [OF inv e, of r a]
  by (auto simp: results_Exec_def results_Query_def split_beta split: sum.splits)

lemma abandon_silent:
  assumes "winv w" "tx_err w \<noteq> None"
  shows "silent w (abandon r a w)"
proof -
  have "silent w (supersedeOpen r a w)"
    using reads_supersedeOpen assms by (intro reads_silent) (simp_all add: winv_def)
  then show ?thesis by (simp add: abandon_def Let_def silent_def)
qed

lemma results_Close_silent:
  assumes inv: "winv w" and e: "tx_err w \<noteq> None"
  shows "silent w (fst (results_Close r a ans w))"
proof (cases "r_closed (results w r)")
  case False
  define wa where "wa = supersedeOpen r a w"
  define w1 where "w1 = doomed r wa"
  have ia: "winv wa" unfolding wa_def using inv reads_supersedeOpen by (rule winv_reads)
  have i1: "winv w1" unfolding w1_def using ia reads_doomed by (rule winv_reads)
  have sa: "silent w wa"
    unfolding wa_def using reads_supersedeOpen inv e by (intro reads_silent) (simp_all add: winv_def)
  then have ea: "tx_err wa \<noteq> None" using e by (simp add: silent_def)
  have s1: "silent w w1"
    using sa reads_silent [OF reads_doomed, of wa r] ia ea by (auto simp: w1_def winv_def intro: silent_trans)
  then have e1: "tx_err w1 \<noteq> None" using e by (simp add: silent_def)
  have r1: "r_err (results w1 r) \<noteq> None" using doomed_sync [OF winvD(1) [OF ia], of r] e1 by (simp add: w1_def)
  define w2 where "w2 = (if pipelined (results w1 r)
    then fst (results_fail r (case List.map_filter item_err (items_of r w1) of [] \<Rightarrow> None | x # _ \<Rightarrow> Some x) w1)
    else fst (close_rest (length (items_of r w1) - r_next (results w1 r)) r ans w1))"
  have "close_rest n r ans w1 = (w1, True)" for n using r1 by (cases n) auto
  then have i2: "winv w2" "silent w1 w2"
    using fail_winv [OF i1] reads_silent [OF reads_fail] i1 e1 by (auto simp: w2_def winv_def)
  then have e2: "tx_err w2 \<noteq> None" using e1 by (simp add: silent_def)
  have "silent w (abandon r a w2)"
    using s1 i2 abandon_silent [OF i2(1) e2] silent_trans by blast
  then show ?thesis using False
    by (simp add: results_Close_def wa_def [symmetric] w1_def [symmetric] w2_def Let_def split_beta split: if_splits)
qed (simp add: results_Close_def)

lemma Send_silent:
  assumes inv: "winv w" and e: "tx_err w = Some x"
  shows "silent w (fst (batch_Send b p w))"
proof (cases "b_sent (batches w b)")
  case True
  have l: "live_ok (opened b w)" using inv by (simp add: winv_def live_ok_def)
  have "silent (opened b w) (fst (results_fail (next_results w) (Some errAlreadySent) (opened b w)))"
    using reads_fail l e by (intro reads_silent) simp_all
  then show ?thesis using True by (simp add: Send_again silent_def)
next
  case False
  have "shortCircuit (opened b w) = (opened b w, Some (if batchRefuses (opened b w) then errBatchOpen else x))"
    using winvD(1) [OF inv] e by (intro shortCircuit_failed) simp_all
  with False show ?thesis by (simp add: Send_first Let_def silent_def)
qed

lemma readers_silent:
  assumes inv: "winv w" and e: "tx_err w \<noteq> None"
  shows "silent w (fst (brows_Next k a w))" "silent w (fst (brows_Scan k a scan w))"
    "silent w (fst (brows_Err k a w))" "silent w (fst (brows_Close k a w))"
    "silent w (fst (brow_Scan br a scan rawDest w))" "silent w (fst (brow_Err br a w))"
proof -
  have l: "live_ok w" using inv by (simp add: winv_def)
  note s = reads_silent [OF _ l e]
  show "silent w (fst (brows_Next k a w))" "silent w (fst (brows_Scan k a scan w))"
    "silent w (fst (brows_Err k a w))" "silent w (fst (brows_Close k a w))"
    "silent w (fst (brow_Scan br a scan rawDest w))" "silent w (fst (brow_Err br a w))"
    by (rule s [OF reads_brows_Next] s [OF reads_brows_Scan] s [OF reads_brows_Err] s [OF reads_brows_Close]
        s [OF reads_brow_Scan] s [OF reads_brow_Err])+
qed

lemma rows_silent:
  assumes e: "tx_err w \<noteq> None"
  shows "rows_in_tx rs \<Longrightarrow> silent w (fst (rows_Scan rs err w))" "rows_in_tx rs \<Longrightarrow> silent w (fst (rows_Next rs ok err w))"
    "rows_in_tx rs \<Longrightarrow> silent w (fst (rows_NextResultSet rs ok err w))" "rows_in_tx rs \<Longrightarrow> silent w (fst (rows_Err rs err w))"
    "row_of w rw \<Longrightarrow> silent w (fst (row_Scan rw err w))" "row_of w rw \<Longrightarrow> silent w (fst (row_Err rw w))"
  using e by (auto intro!: latching_silent rows_latching row_latching simp: read_stmts)

lemma queue_silent: "tx_err w \<noteq> None \<Longrightarrow> silent w (fst (tx_Batch w)) \<and> silent w (batch_Queue b pq named w)"
  by (auto simp: silent_def tx_Batch_def batch_Queue_def Let_def recordErr_err)

lemmas step_silent = statements_silent results_silent results_Close_silent Send_silent readers_silent rows_silent queue_silent

lemma tx_step_silent:
  assumes "tx_step w w'" "winv w" "tx_err w \<noteq> None"
  shows "silent w w'"
proof -
  from assms(3) obtain e where e: "tx_err w = Some e" by blast
  from assms(1) show ?thesis
    by cases (use assms(2,3) e winvD(1) [OF assms(2)] in
      \<open>simp_all add: step_silent query_state prepare_state stmt_query_state QueryRow_state\<close>)
qed

text \<open>
  (C2) From the moment a transaction of \<^verbatim>\<open>Transact\<close> has recorded an error, no sequence of operations of the
  closure, in whatever order and with whatever answers, sends another statement to the database, queued
  batches included, and the recorded error is still the first one. (Binding a prepared statement to the
  transaction is not sending one.)
\<close>

theorem failed_transaction_sends_nothing:
  assumes "closure_run held w" "tx_err w = Some e" "tx_step\<^sup>*\<^sup>* w w'"
  shows "stmts (sent w') = stmts (sent w) \<and> tx_err w' = Some e"
  using assms(3)
proof (induction rule: rtranclp_induct)
  case (step w1 w2)
  have "winv w1" using assms(1) step(1) closure_winv by (meson rtranclp_trans)
  with step tx_step_silent [of w1 w2] show ?case by (simp add: silent_def)
qed (simp add: assms(2))

text \<open>A closure whose first statement fails and that goes on regardless.\<close>

definition sample_failed :: txw where
  "sample_failed = fst (tx_ExecContext (labelled ''pgx'' ''UPDATE a'' ''UPDATE a'' None ''UPDATE'' []) None
     (Inl Canceled :: error + unit) (tx_start True))"

definition sample_after :: txw where
  "sample_after = fst (tx_ExecContext (labelled ''pgx'' ''UPDATE b'' ''UPDATE b'' None ''UPDATE'' []) None
     (Inr () :: error + unit) sample_failed)"

theorem failed_transaction_sends_nothing_witness:
  "tx_err sample_failed = Some (Traced Canceled) \<and>
   stmts (sent sample_after) = stmts (sent sample_failed) \<and> tx_err sample_after = Some (Traced Canceled)"
proof -
  have e: "tx_err sample_failed = Some (Traced Canceled)" by code_simp
  have "closure_run True sample_failed"
    unfolding sample_failed_def by (rule r_into_rtranclp) (rule tx_step.exec)
  moreover have "tx_step\<^sup>*\<^sup>* sample_failed sample_after"
    unfolding sample_after_def by (rule r_into_rtranclp) (rule tx_step.exec)
  ultimately show ?thesis using e failed_transaction_sends_nothing [OF _ e] by blast
qed

end
