(* ===== verification/Sha256.thy ===== *)
theory Sha256
  imports Go_Prelude "HOL-Library.Word"
begin

unbundle bit_operations_syntax

section \<open>SHA-256 (the hash of hashStr of db.go)\<close>

text \<open>
  The hash function of FIPS 180-4 on byte strings, as \<^verbatim>\<open>crypto/sha256\<close> computes it: the message is padded to
  blocks of 64 bytes, each block is extended to 64 words and mixed into the eight words of the state. Words have
  32 bits, and sums wrap around.
\<close>

type_synonym word32 = "32 word"

subsection \<open>The functions and constants\<close>

definition rotr :: "nat \<Rightarrow> word32 \<Rightarrow> word32" where
  "rotr n x = (drop_bit n x OR push_bit (32 - n) x)"

definition Ch :: "word32 \<Rightarrow> word32 \<Rightarrow> word32 \<Rightarrow> word32" where
  "Ch x y z = ((x AND y) XOR ((NOT x) AND z))"

definition Maj :: "word32 \<Rightarrow> word32 \<Rightarrow> word32 \<Rightarrow> word32" where
  "Maj x y z = ((x AND y) XOR (x AND z) XOR (y AND z))"

definition big0 :: "word32 \<Rightarrow> word32" where
  "big0 x = (rotr 2 x XOR rotr 13 x XOR rotr 22 x)"

definition big1 :: "word32 \<Rightarrow> word32" where
  "big1 x = (rotr 6 x XOR rotr 11 x XOR rotr 25 x)"

definition small0 :: "word32 \<Rightarrow> word32" where
  "small0 x = (rotr 7 x XOR rotr 18 x XOR drop_bit 3 x)"

definition small1 :: "word32 \<Rightarrow> word32" where
  "small1 x = (rotr 17 x XOR rotr 19 x XOR drop_bit 10 x)"

text \<open>The first 32 bits of the fractional parts of the cube roots of the first 64 primes, and of the square roots of
  the first 8.\<close>

definition round_keys :: "word32 list" where
  "round_keys = [
      1116352408, 1899447441, 3049323471, 3921009573, 961987163, 1508970993, 2453635748, 2870763221,
      3624381080, 310598401, 607225278, 1426881987, 1925078388, 2162078206, 2614888103, 3248222580,
      3835390401, 4022224774, 264347078, 604807628, 770255983, 1249150122, 1555081692, 1996064986,
      2554220882, 2821834349, 2952996808, 3210313671, 3336571891, 3584528711, 113926993, 338241895,
      666307205, 773529912, 1294757372, 1396182291, 1695183700, 1986661051, 2177026350, 2456956037,
      2730485921, 2820302411, 3259730800, 3345764771, 3516065817, 3600352804, 4094571909, 275423344,
      430227734, 506948616, 659060556, 883997877, 958139571, 1322822218, 1537002063, 1747873779,
      1955562222, 2024104815, 2227730452, 2361852424, 2428436474, 2756734187, 3204031479, 3329325298]"

definition initial_hash :: "word32 list" where
  "initial_hash = [
      1779033703, 3144134277, 1013904242, 2773480762, 1359893119, 2600822924, 528734635, 1541459225]"

subsection \<open>Blocks\<close>

definition be_word :: "string \<Rightarrow> word32" where
  "be_word bs = fold (\<lambda>c w. push_bit 8 w OR word_of_int (of_char c)) bs 0"

fun chunks :: "nat \<Rightarrow> 'a list \<Rightarrow> 'a list list" where
  "chunks n xs = (if n = 0 \<or> xs = [] then [] else take n xs # chunks n (drop n xs))"

primrec be_bytes :: "nat \<Rightarrow> int \<Rightarrow> string" where
  "be_bytes 0 n = []"
| "be_bytes (Suc k) n = be_bytes k (n div 256) @ [char_of (n mod 256)]"

definition padded :: "string \<Rightarrow> string" where
  "padded s = s @ CHR 0x80 # replicate ((119 - length s mod 64) mod 64) (CHR 0x00) @ be_bytes 8 (8 * int (length s))"

text \<open>The message schedule, last word first.\<close>

primrec schedule :: "nat \<Rightarrow> word32 list \<Rightarrow> word32 list" where
  "schedule 0 ws = ws"
| "schedule (Suc n) ws = schedule n ((small1 (ws ! 1) + ws ! 6 + small0 (ws ! 14) + ws ! 15) # ws)"

fun sha_round :: "word32 \<times> word32 \<Rightarrow> word32 list \<Rightarrow> word32 list" where
  "sha_round (k, w) [a, b, c, d, e, f, g, h] =
     (let t1 = h + big1 e + Ch e f g + k + w; t2 = big0 a + Maj a b c in [t1 + t2, a, b, c, d + t1, e, f, g])"
| "sha_round _ st = st"

definition compress :: "string \<Rightarrow> word32 list \<Rightarrow> word32 list" where
  "compress block st =
     (let ws = rev (schedule 48 (rev (map be_word (chunks 4 block)))) in
      map2 (+) st (fold sha_round (zip round_keys ws) st))"

definition sha256 :: "string \<Rightarrow> string" where
  "sha256 s = concat (map (\<lambda>w. be_bytes 4 (uint w)) (fold compress (chunks 64 (padded s)) initial_hash))"

definition hex_digit :: "nat \<Rightarrow> char" where
  "hex_digit n = ''0123456789abcdef'' ! n"

definition EncodeToString :: "string \<Rightarrow> string" where
  "EncodeToString s = concat (map (\<lambda>c. [hex_digit (of_char c div 16), hex_digit (of_char c mod 16)]) s)"

definition hashStr :: "string \<Rightarrow> string" where
  "hashStr x = EncodeToString (sha256 x)"

subsection \<open>The length and the letters of a hash\<close>

lemma length_be_bytes [simp]: "length (be_bytes k n) = k"
  by (induction k arbitrary: n) simp_all

lemma sha_round_length: "length st = 8 \<Longrightarrow> length (sha_round kw st) = 8"
  by (induction kw st rule: sha_round.induct) (simp_all add: Let_def)

lemma fold_keeps_length: "(\<And>x st. length st = n \<Longrightarrow> length (f x st) = n) \<Longrightarrow> length st = n \<Longrightarrow> length (fold f xs st) = n"
  by (induction xs arbitrary: st) simp_all

lemma compress_length: "length st = 8 \<Longrightarrow> length (compress block st) = 8"
  by (simp add: compress_def Let_def fold_keeps_length [where n = 8, OF sha_round_length])

lemma sha256_length: "length (sha256 s) = 32"
proof -
  have "length (fold compress (chunks 64 (padded s)) initial_hash) = 8"
    by (rule fold_keeps_length [OF compress_length]) (simp_all add: initial_hash_def)
  then show ?thesis by (simp add: sha256_def length_concat comp_def sum_list_triv)
qed

lemma hashStr_length: "length (hashStr x) = 64"
  by (simp add: hashStr_def EncodeToString_def length_concat comp_def sum_list_triv sha256_length)

lemma hex_digit_in: "n < 16 \<Longrightarrow> hex_digit n \<in> set ''0123456789abcdef''"
  unfolding hex_digit_def by (rule nth_mem) simp

lemma hashStr_hex: "set (hashStr x) \<subseteq> set ''0123456789abcdef''"
proof -
  define D where "D = set ''0123456789abcdef''"
  have "(of_char c :: nat) div 16 < 16" for c :: char
    by (rule div_less_iff_less_mult [THEN iffD2]) (use nat_of_char_less_256 [of c] in simp_all)
  then have "hex_digit (of_char c div 16) \<in> D" "hex_digit (of_char c mod 16) \<in> D" for c :: char
    unfolding D_def by (rule hex_digit_in, intro hex_digit_in) simp
  then show ?thesis unfolding hashStr_def EncodeToString_def D_def [symmetric] by auto
qed

end
