(* ===== verification/Dsn.thy ===== *)
theory Dsn
  imports Errors Go_Regexp Sha256
begin

section \<open>Data source names (db.go)\<close>

text \<open>
  What sequel does with a data source name: it infers the driver, normalizes the name, reads and replaces
  the database in it, and masks the credentials before it quotes the name in an error. The parsers of the
  drivers and of \<^verbatim>\<open>net/url\<close>, and the environment, are arguments.
\<close>

subsection \<open>The libraries\<close>

text \<open>
  The fields of the drivers' configurations and of a parsed URL that the code reads or writes; the rest of each
  is carried along in \<open>my_rest\<close> and \<open>u_rest\<close>.
\<close>

record mysql_config =
  my_Net :: string
  my_Addr :: string
  my_DBName :: string
  my_Params :: "string \<rightharpoonup> string"
  my_rest :: string

record pgx_config =
  pg_Host :: string
  pg_Port :: nat
  pg_Database :: string
  pg_RuntimeParams :: "(string \<times> string) list"

record url =
  u_Host :: string
  u_Path :: string
  u_RawQuery :: string
  u_rest :: string

type_synonym url_values = "string \<rightharpoonup> string list"

text \<open>
  The parsers and printers of the drivers and of \<^verbatim>\<open>net/url\<close>, \<^verbatim>\<open>os.Getenv\<close>, and the lower-casing
  of text that is not ASCII.
\<close>

record libs =
  unicode_ToLower :: "string \<Rightarrow> string"
  Getenv :: "string \<Rightarrow> string"
  mysql_ParseDSN :: "string \<Rightarrow> error + mysql_config"
  mysql_FormatDSN :: "mysql_config \<Rightarrow> string"
  pgx_ParseConfig :: "string \<Rightarrow> error + pgx_config"
  msdsn_Parse :: "string \<Rightarrow> error option"
  url_Parse :: "string \<Rightarrow> error + url"
  url_String :: "url \<Rightarrow> string"
  url_ParseQuery :: "string \<Rightarrow> url_values"
  url_Encode :: "url_values \<Rightarrow> string"

text \<open>
  A small instance, for evaluating the definitions: a MySQL name ends in a slash and the database, a URL in a
  slash, the database and the query, and a query has one parameter.
\<close>

definition sample_url :: "string \<Rightarrow> error + url" where
  "sample_url s =
     (let t = takeWhile (\<lambda>c. c \<noteq> CHR ''?'') s in
      case after_last (CHR ''/'') t of
        None \<Rightarrow> Inl (NewError ''invalid URL'')
      | Some db \<Rightarrow>
        let host = take (length t - length db - 1) t in
        Inr \<lparr>u_Host = host, u_Path = CHR ''/'' # db, u_RawQuery = drop (length t + 1) s, u_rest = host\<rparr>)"

definition sample_libs :: libs where
  "sample_libs = \<lparr>
     unicode_ToLower = (\<lambda>s. s),
     Getenv = (\<lambda>_. []),
     mysql_ParseDSN = (\<lambda>s. case after_last (CHR ''/'') s of
         None \<Rightarrow> Inl (NewError ''invalid DSN'')
       | Some db \<Rightarrow> Inr \<lparr>my_Net = ''tcp'', my_Addr = ''127.0.0.1:3306'', my_DBName = db, my_Params = Map.empty,
                          my_rest = take (length s - length db) s\<rparr>),
     mysql_FormatDSN = (\<lambda>cfg. my_rest cfg @ my_DBName cfg),
     pgx_ParseConfig = (\<lambda>_. Inr \<lparr>pg_Host = ''127.0.0.1'', pg_Port = 5432, pg_Database = [], pg_RuntimeParams = []\<rparr>),
     msdsn_Parse = (\<lambda>_. None),
     url_Parse = sample_url,
     url_String = (\<lambda>u. u_rest u @ u_Path u @ (if u_RawQuery u = [] then [] else CHR ''?'' # u_RawQuery u)),
     url_ParseQuery = (\<lambda>s. if HasPrefix s ''database='' then [''database'' \<mapsto> [drop 9 s]] else Map.empty),
     url_Encode = (\<lambda>v. case v ''database'' of Some (x # _) \<Rightarrow> ''database='' @ x | _ \<Rightarrow> [])\<rparr>"

subsection \<open>Drivers and schemes\<close>

definition physicalDriverName :: "string \<Rightarrow> string" where
  "physicalDriverName driverName =
     (if driverName = ''cockroachdb'' then ''pgx''
      else if driverName = ''mariadb'' then ''mysql''
      else driverName)"

definition toPostgresScheme :: "string \<Rightarrow> string" where
  "toPostgresScheme dsn =
     (case CutPrefix dsn ''cockroachdb://'' of (rest, ok) \<Rightarrow> if ok then ''postgres://'' @ rest else dsn)"

definition trimMySQLScheme :: "string \<Rightarrow> string" where
  "trimMySQLScheme dsn =
     (case CutPrefix dsn ''mysql://'' of (rest, ok) \<Rightarrow> if ok then rest else TrimPrefix dsn ''mariadb://'')"

definition cutPostgresScheme :: "string \<Rightarrow> string \<times> bool" where
  "cutPostgresScheme dsn =
     (case CutPrefix dsn ''postgres://'' of
        (rest, ok) \<Rightarrow> if ok then (rest, True) else CutPrefix dsn ''postgresql://'')"

definition knownSchemes :: "string list" where
  "knownSchemes = [''cockroachdb://'', ''mariadb://'', ''mysql://'', ''postgres://'', ''postgresql://'', ''sqlserver://'']"

fun lowerScheme_loop :: "string list \<Rightarrow> string \<Rightarrow> string" where
  "lowerScheme_loop [] dsn = dsn"
| "lowerScheme_loop (scheme # schemes) dsn =
     (if length dsn \<ge> length scheme \<and> EqualFoldASCII (take (length scheme) dsn) scheme
      then scheme @ drop (length scheme) dsn
      else lowerScheme_loop schemes dsn)"

definition lowerScheme :: "string \<Rightarrow> string" where
  "lowerScheme dsn = lowerScheme_loop knownSchemes dsn"

text \<open>\<^verbatim>\<open>mySQLNetworkPattern\<close>: \<^verbatim>\<open>^[^/]*@(tcp[46]?|unix)\(\<close>.\<close>

definition mySQLNetwork :: "string \<Rightarrow> bool" where
  "mySQLNetwork dsn \<longleftrightarrow>
     (let head = takeWhile (\<lambda>c. c \<noteq> CHR ''/'') dsn in
      list_ex (\<lambda>i. head ! i = CHR ''@'' \<and>
          list_ex (HasPrefix (drop (i + 1) dsn)) [''tcp('', ''tcp4('', ''tcp6('', ''unix('']) [0..<length head])"

definition schemeDrivers :: "(string \<times> string) list" where
  "schemeDrivers =
     [(''cockroachdb://'', ''cockroachdb''), (''mariadb://'', ''mariadb''), (''mysql://'', ''mysql''),
      (''postgres://'', ''pgx''), (''postgresql://'', ''pgx''), (''sqlserver://'', ''mssql''), (''file:'', ''sqlite'')]"

definition inferDriverName :: "string \<Rightarrow> string" where
  "inferDriverName dataSourceName =
     (if dataSourceName = [] then []
      else
        let dsn = lowerScheme dataSourceName in
        if HasPrefix dsn ''file:'' \<and> mySQLNetwork dsn then ''mysql''
        else case List.find (\<lambda>(p, _). HasPrefix dsn p) schemeDrivers of
          Some (_, driver) \<Rightarrow> driver
        | None \<Rightarrow>
          if dsn = '':memory:'' then ''sqlite''
          else if HasSuffix dsn ''.db'' \<or> HasSuffix dsn ''.sqlite'' \<or> HasSuffix dsn ''.sqlite3'' then ''sqlite''
          else if Contains dsn ''tcp('' then ''mysql''
          else if Contains dsn '':3306'' then ''mysql''
          else if Contains dsn '':5432'' then ''pgx''
          else if Contains dsn '':26257'' then ''cockroachdb''
          else if Contains dsn '':1433'' then ''mssql''
          else [])"

subsection \<open>The session time zone\<close>

text \<open>\<^verbatim>\<open>optionsTimeZonePattern\<close>: \<^verbatim>\<open>(?i)(^|\s)(-c\s*|--)timezone\s*=\<close>.\<close>

definition timezone_at :: "string \<Rightarrow> bool" where
  "timezone_at s \<longleftrightarrow>
     (case after_fold (CHR ''-'') ''TIMEZONE'' s of
        None \<Rightarrow> False
      | Some (_, t) \<Rightarrow> HasPrefix (dropWhile re_space t) ''='')"

definition setting_at :: "string \<Rightarrow> bool" where
  "setting_at s \<longleftrightarrow>
     (case s of
        d # c # t \<Rightarrow> d = CHR ''-'' \<and>
          (upper_byte c = CHR ''C'' \<and> timezone_at (dropWhile re_space t) \<or> c = CHR ''-'' \<and> timezone_at t)
      | _ \<Rightarrow> False)"

primrec setting_after_space :: "string \<Rightarrow> bool" where
  "setting_after_space [] \<longleftrightarrow> False"
| "setting_after_space (c # s) \<longleftrightarrow> re_space c \<and> setting_at s \<or> setting_after_space s"

definition optionsTimeZone :: "string \<Rightarrow> bool" where
  "optionsTimeZone v \<longleftrightarrow> setting_at v \<or> setting_after_space v"

text \<open>\<^verbatim>\<open>strings.EqualFold\<close> of a key with a word without a K.\<close>

definition folds_to :: "string \<Rightarrow> string \<Rightarrow> bool" where
  "folds_to k w \<longleftrightarrow> (case after_fold (CHR '' '') w k of Some (_, []) \<Rightarrow> True | _ \<Rightarrow> False)"

definition callerChoseTimeZone :: "libs \<Rightarrow> string \<Rightarrow> bool" where
  "callerChoseTimeZone L dsn =
     (case pgx_ParseConfig L dsn of
        Inl _ \<Rightarrow>
          Contains (ToLower (unicode_ToLower L) dsn) ''timezone'' \<or> Getenv L ''PGTZ'' \<noteq> [] \<or>
          Contains (ToLower (unicode_ToLower L) (Getenv L ''PGOPTIONS'')) ''timezone''
      | Inr cfg \<Rightarrow>
          list_ex (\<lambda>(k, v). folds_to k ''TIMEZONE'' \<or> folds_to k ''OPTIONS'' \<and> optionsTimeZone v) (pg_RuntimeParams cfg))"

definition pinSessionTimeZoneUTC :: "libs \<Rightarrow> string \<Rightarrow> string" where
  "pinSessionTimeZoneUTC L dsn =
     (if HasPrefix dsn ''registeredConnConfig'' \<or> callerChoseTimeZone L dsn then dsn
      else case cutPostgresScheme dsn of
        (rest, isURL) \<Rightarrow>
          if \<not> isURL then ''timezone=UTC '' @ dsn
          else
            let rest = (case IndexAny rest ''@/'' of
                  Some i \<Rightarrow> if rest ! i = CHR ''@'' then drop (i + 1) rest else rest
                | None \<Rightarrow> rest) in
            if \<not> Contains rest ''?'' then dsn @ ''?timezone=UTC''
            else if HasSuffix dsn ''?'' \<or> HasSuffix dsn ''&'' then dsn @ ''timezone=UTC''
            else dsn @ ''&timezone=UTC'')"

subsection \<open>Normalizing\<close>

definition mysqlSettings :: "(string \<rightharpoonup> string) \<Rightarrow> (string \<rightharpoonup> string)" where
  "mysqlSettings params =
     params(''parseTime'' \<mapsto> ''true'', ''timeout'' \<mapsto> ''4s'', ''readTimeout'' \<mapsto> ''8s'', ''writeTimeout'' \<mapsto> ''8s'')"

definition errDSNRequired :: error where
  "errDSNRequired = NewError ''data source name is required''"

definition errNotInferred :: error where
  "errNotInferred = NewError ''driver name could not be inferred from data source name''"

definition busy_timeout :: "string \<Rightarrow> string" where
  "busy_timeout dsn =
     (if Contains dsn ''busy_timeout'' then dsn
      else if Contains dsn ''?'' then dsn @ ''&_pragma=busy_timeout(2000)''
      else dsn @ ''?_pragma=busy_timeout(2000)'')"

definition normalizeDriverAndDSN :: "libs \<Rightarrow> string \<Rightarrow> string \<Rightarrow> error + string \<times> string" where
  "normalizeDriverAndDSN L driverName0 dataSourceName0 =
     (if dataSourceName0 = [] then Inl errDSNRequired
      else
        let driverName1 = (if driverName0 = ''sqlite3'' then ''sqlite'' else driverName0);
            dsn = lowerScheme dataSourceName0;
            driverName = (if driverName1 = [] then inferDriverName dsn else driverName1) in
        if driverName = [] then Inl errNotInferred
        else if driverName \<in> {''mysql'', ''mariadb''} then
          (case mysql_ParseDSN L (trimMySQLScheme dsn) of
             Inl e \<Rightarrow> Inl (Traced e)
           | Inr cfg \<Rightarrow> Inr (driverName, mysql_FormatDSN L (cfg\<lparr>my_Params := mysqlSettings (my_Params cfg)\<rparr>)))
        else if driverName \<in> {''pgx'', ''cockroachdb''} then
          Inr (driverName, pinSessionTimeZoneUTC L (toPostgresScheme dsn))
        else if driverName = ''sqlite'' then Inr (driverName, busy_timeout dsn)
        else Inr (driverName, dsn))"

subsection \<open>A scheme names the driver\<close>

definition scheme_like :: "string \<Rightarrow> string \<Rightarrow> bool" where
  "scheme_like dsn scheme \<longleftrightarrow> length dsn \<ge> length scheme \<and> EqualFoldASCII (take (length scheme) dsn) scheme"

lemma lower_known: "scheme \<in> set knownSchemes \<Longrightarrow> map lower_byte scheme = scheme"
  unfolding knownSchemes_def by (auto simp: lower_byte_def is_upper_def byte_in_def)

lemma lowerScheme_cases:
  obtains (scheme) scheme where "scheme \<in> set knownSchemes" "scheme_like dsn scheme"
      "lowerScheme dsn = scheme @ drop (length scheme) dsn"
  | (other) "\<forall>scheme \<in> set knownSchemes. \<not> scheme_like dsn scheme" "lowerScheme dsn = dsn"
proof -
  have "(\<exists>scheme \<in> set ss. scheme_like dsn scheme \<and> lowerScheme_loop ss dsn = scheme @ drop (length scheme) dsn) \<or>
      (\<forall>scheme \<in> set ss. \<not> scheme_like dsn scheme) \<and> lowerScheme_loop ss dsn = dsn" for ss
    by (induction ss) (auto simp: scheme_like_def)
  from this [of knownSchemes] scheme other show thesis by (auto simp: lowerScheme_def)
qed

text \<open>No known scheme starts like another.\<close>

lemma schemes_differ:
  assumes "s1 \<in> set knownSchemes" "s2 \<in> set knownSchemes" "scheme_like dsn s1" "scheme_like dsn s2"
  shows "s1 = s2"
proof -
  have t: "take (length s) (map lower_byte dsn) = s" if "s \<in> set knownSchemes" "scheme_like dsn s" for s
    using that lower_known [of s] by (simp add: scheme_like_def EqualFoldASCII_def take_map)
  have "take m s = take m (map lower_byte dsn)" if "s \<in> set knownSchemes" "scheme_like dsn s" "m \<le> length s" for s m
    using arg_cong [OF t [OF that(1,2)], of "take m"] that(3) by (simp add: min_absorb1)
  from this [OF assms(1,3)] this [OF assms(2,4)]
  have "take (min (length s1) (length s2)) s1 = take (min (length s1) (length s2)) s2" by simp
  moreover have "list_all (\<lambda>s1. list_all (\<lambda>s2. take (min (length s1) (length s2)) s1 =
      take (min (length s1) (length s2)) s2 \<longrightarrow> s1 = s2) knownSchemes) knownSchemes" by code_simp
  ultimately show ?thesis using assms(1,2) by (auto simp: list_all_iff)
qed

lemma lowerScheme_scheme:
  assumes "scheme \<in> set knownSchemes" "map lower_byte s = scheme"
  shows "lowerScheme (s @ rest) = scheme @ rest"
proof -
  have l: "length s = length scheme" using assms(2) by (metis length_map)
  have like: "scheme_like (s @ rest) scheme"
    using assms l lower_known [OF assms(1)] by (simp add: scheme_like_def EqualFoldASCII_def)
  show ?thesis
  proof (cases rule: lowerScheme_cases [of "s @ rest"])
    case (scheme t)
    with schemes_differ [OF assms(1) _ like] l show ?thesis by simp
  next
    case other
    with assms(1) like show ?thesis by blast
  qed
qed

lemma lowerScheme_idem: "lowerScheme (lowerScheme dsn) = lowerScheme dsn"
proof (cases rule: lowerScheme_cases [of dsn])
  case (scheme t)
  with lowerScheme_scheme [OF scheme(1) lower_known [OF scheme(1)], of "drop (length t) dsn"] show ?thesis by simp
qed simp

lemma scheme_find:
  assumes "(scheme, driver) \<in> set schemeDrivers" "scheme \<noteq> ''file:''"
  shows "scheme \<in> set knownSchemes" "\<not> HasPrefix (scheme @ rest) ''file:''"
    "List.find (\<lambda>(p, _). HasPrefix (scheme @ rest) p) schemeDrivers = Some (scheme, driver)"
proof -
  have facts: "list_all (\<lambda>(p, _). p = ''file:'' \<or> p \<in> set knownSchemes \<and> take 5 p \<noteq> ''file:'' \<and> 5 \<le> length p) schemeDrivers"
    "list_all (\<lambda>(p, d). List.find (\<lambda>(q, _). q = p) schemeDrivers = Some (p, d)) schemeDrivers" by code_simp+
  from facts(1) assms show k: "scheme \<in> set knownSchemes" by (auto simp: list_all_iff)
  from facts(1) assms have "take 5 scheme \<noteq> ''file:''" "5 \<le> length scheme" by (auto simp: list_all_iff)
  then show nf: "\<not> HasPrefix (scheme @ rest) ''file:''" by (simp add: HasPrefix_def eval_nat_numeral)
  have like: "scheme_like (scheme @ rest) scheme" by (simp add: scheme_like_def EqualFoldASCII_def)
  have "HasPrefix (scheme @ rest) p \<longleftrightarrow> p = scheme" if "(p, d) \<in> set schemeDrivers" for p d
  proof
    assume h: "HasPrefix (scheme @ rest) p"
    with nf that facts(1) have "p \<in> set knownSchemes" by (auto simp: list_all_iff)
    moreover have "scheme_like (scheme @ rest) p"
      using h unfolding HasPrefix_def scheme_like_def EqualFoldASCII_def by (metis length_take min.cobounded1 order_refl)
    ultimately show "p = scheme" using schemes_differ [OF _ k _ like] by simp
  qed (simp add: HasPrefix_def)
  then have "List.find (\<lambda>(p, _). HasPrefix (scheme @ rest) p) schemeDrivers = List.find (\<lambda>(q, _). q = scheme) schemeDrivers"
    by (intro find_cong) auto
  with facts(2) assms(1) show "List.find (\<lambda>(p, _). HasPrefix (scheme @ rest) p) schemeDrivers = Some (scheme, driver)"
    by (auto simp: list_all_iff)
qed

text \<open>
  (C31) A known scheme, in any letter case, names the driver whatever follows it: ports, suffixes and network
  names of other drivers in the rest do not matter.
\<close>

theorem scheme_names_driver:
  assumes "(scheme, driver) \<in> set schemeDrivers" "scheme \<noteq> ''file:''" "map lower_byte s = scheme"
  shows "inferDriverName (s @ rest) = driver"
proof -
  note f = scheme_find [OF assms(1,2)]
  have low: "lowerScheme (s @ rest) = scheme @ rest" using f(1) assms(3) by (rule lowerScheme_scheme)
  have "s \<noteq> []" using assms(3) f(1) by (auto simp: knownSchemes_def)
  then show ?thesis using f(2,3) [of rest] by (simp add: inferDriverName_def low)
qed

theorem scheme_names_driver_witness:
  "inferDriverName ''PostgreSQL://app@db:3306/data.db'' = ''pgx''"
proof -
  have "map lower_byte ''PostgreSQL://'' = ''postgresql://''" "(''postgresql://'', ''pgx'') \<in> set schemeDrivers" by code_simp+
  then show ?thesis
    using scheme_names_driver [of "''postgresql://''" "''pgx''" "''PostgreSQL://''" "''app@db:3306/data.db''"] by simp
qed

text \<open>
  Leaving the driver to be inferred and naming the driver that is inferred normalize to the same driver and
  data source name, errors included.
\<close>

theorem named_or_inferred:
  assumes "inferDriverName dsn \<noteq> []"
  shows "normalizeDriverAndDSN L [] dsn =
         normalizeDriverAndDSN L (inferDriverName dsn) dsn"
proof -
  have "dsn \<noteq> []" using assms by (auto simp: inferDriverName_def)
  moreover have "lowerScheme dsn \<noteq> []"
    using \<open>dsn \<noteq> []\<close> by (cases rule: lowerScheme_cases [of dsn]) (auto simp: knownSchemes_def)
  ultimately have i: "inferDriverName (lowerScheme dsn) = inferDriverName dsn"
    by (simp add: inferDriverName_def lowerScheme_idem)
  have "inferDriverName dsn \<noteq> ''sqlite3''"
    unfolding inferDriverName_def schemeDrivers_def by (auto simp: Let_def split: if_splits)
  with assms \<open>dsn \<noteq> []\<close> show ?thesis unfolding normalizeDriverAndDSN_def Let_def i by simp
qed

theorem named_or_inferred_witness:
  "normalizeDriverAndDSN sample_libs [] '':memory:'' = normalizeDriverAndDSN sample_libs ''sqlite'' '':memory:''"
proof -
  have "inferDriverName '':memory:'' = ''sqlite''" by code_simp
  then show ?thesis using named_or_inferred [of "'':memory:''" sample_libs] by simp
qed

end
