(* ===== verification/Transact.thy ===== *)
theory Transact
  imports Closures Dsn
begin

section \<open>Running transactions (Transact of db.go)\<close>

text \<open>
  \<open>transactOnce\<close> begins a transaction, runs the closure on it, and commits unless something failed, rolling
  back on every other way out, a panic of the closure included. \<open>Transact\<close> repeats it while it loses to
  lock contention. The closure is a function on transactions that says whether it returned (\<open>Some err\<close>) or
  panicked (\<open>None\<close>); the theorems are about closures whose effect is a run of \<open>tx_step\<close>.
\<close>

subsection \<open>One attempt\<close>

text \<open>What an attempt meets: the answers of the database to everything but the closure's statements.\<close>

record attempt =
  at_conn :: "error option"       \<comment> \<open>checking out a connection\<close>
  at_begin :: "error option"
  at_xact :: "error option"       \<comment> \<open>SET XACT\_ABORT ON\<close>
  at_fn :: "txw \<Rightarrow> txw \<times> error option option"
  at_commit :: "error option"
  at_rollback :: "error option"
  at_rows :: row_answers          \<comment> \<open>of rows still open when the transaction is rolled back\<close>

text \<open>\<open>beginTx\<close>: whether the transaction began on a held connection, or the error.\<close>

definition beginTx :: "bool \<Rightarrow> attempt \<Rightarrow> error + bool" where
  "beginTx hold a =
     (if \<not> hold then (case at_begin a of Some e \<Rightarrow> Inl e | None \<Rightarrow> Inr False)
      else case at_conn a of
        Some e \<Rightarrow> Inl e
      | None \<Rightarrow> (case at_begin a of Some e \<Rightarrow> Inl e | None \<Rightarrow> Inr True))"

definition setXactAbort :: "attempt \<Rightarrow> txw \<Rightarrow> txw \<times> error option" where
  "setXactAbort a w = (log_events [Ran ''SET XACT_ABORT ON'' (at_xact a)] w, at_xact a)"

text \<open>The attempt up to the deferred rollback: the transaction, whether it committed, and the result.\<close>

definition transact_body :: "string \<Rightarrow> attempt \<Rightarrow> txw \<Rightarrow> txw \<times> bool \<times> error option option" where
  "transact_body driverName a w0 =
     (let (w1, xact) = (if driverName = ''mssql'' then setXactAbort a w0 else (w0, None)) in
      case xact of
        Some e \<Rightarrow> (w1, False, Some (Some (Traced e)))
      | None \<Rightarrow>
        (case at_fn a w1 of
           (w2, None) \<Rightarrow> (w2, False, None)
         | (w2, Some (Some e)) \<Rightarrow> (w2, False, Some (Some (Traced e)))
         | (w2, Some None) \<Rightarrow>
           (case tx_err w2 of
              Some e \<Rightarrow> (w2, False, Some (Some (Traced e)))
            | None \<Rightarrow>
              (case batchPending w2 of
                 Some e \<Rightarrow> (w2, False, Some (Some e))
               | None \<Rightarrow>
                 (case tx_Commit (at_commit a) w2 of
                    (w3, Some e) \<Rightarrow> (w3, False, Some (Some (Traced e)))
                  | (w3, None) \<Rightarrow> (w3, True, Some None))))))"

text \<open>The transaction as the attempt leaves it, if it began, and the result; \<open>None\<close> is the closure's panic.\<close>

definition transactOnce :: "string \<Rightarrow> attempt \<Rightarrow> txw option \<times> error option option" where
  "transactOnce driverName a =
     (case beginTx (physicalDriverName driverName = ''pgx'') a of
        Inl e \<Rightarrow> (None, Some (Some (Traced e)))
      | Inr held \<Rightarrow>
        (case transact_body driverName a (tx_start held) of
           (w, committed, res) \<Rightarrow>
             (Some (if committed then w else fst (tx_Rollback (at_rows a) (at_rollback a) w)), res)))"

subsection \<open>The retries\<close>

definition transactMaxAttempts :: nat where
  "transactMaxAttempts = 8"

text \<open>
  The loop of \<open>Transact\<close> with \<open>n\<close> attempts left; \<open>once\<close> is the outcome of each attempt and \<open>msg\<close> the text of
  an error. The answer counts the attempts made.
\<close>

fun transact_loop ::
  "(error \<Rightarrow> string) \<Rightarrow> (nat \<Rightarrow> error option option) \<Rightarrow> nat \<Rightarrow> nat \<Rightarrow> error option \<Rightarrow> nat \<times> error option option" where
  "transact_loop msg once 0 attempts err = (attempts, Some (Trace err))"
| "transact_loop msg once (Suc n) attempts err =
     (case once attempts of
        None \<Rightarrow> (attempts + 1, None)
      | Some err' \<Rightarrow>
        if err' = None \<or> \<not> IsLockContentionError msg err' then (attempts + 1, Some err')
        else transact_loop msg once n (attempts + 1) err')"

definition Transact :: "(error \<Rightarrow> string) \<Rightarrow> string \<Rightarrow> (nat \<Rightarrow> attempt) \<Rightarrow> nat \<times> error option option" where
  "Transact msg driverName env =
     transact_loop msg (\<lambda>i. snd (transactOnce driverName (env i))) transactMaxAttempts 0 None"

text \<open>\<open>retryContention\<close> of an operation safe to repeat, which does not trace the error it gives up with.\<close>

fun retry_loop ::
  "(error \<Rightarrow> string) \<Rightarrow> (nat \<Rightarrow> error option) \<Rightarrow> nat \<Rightarrow> nat \<Rightarrow> error option \<Rightarrow> nat \<times> error option" where
  "retry_loop msg fn 0 attempts err = (attempts, err)"
| "retry_loop msg fn (Suc n) attempts err =
     (if fn attempts = None \<or> \<not> IsLockContentionError msg (fn attempts) then (attempts + 1, fn attempts)
      else retry_loop msg fn n (attempts + 1) (fn attempts))"

definition retryContention :: "(error \<Rightarrow> string) \<Rightarrow> (nat \<Rightarrow> error option) \<Rightarrow> nat \<times> error option" where
  "retryContention msg fn = retry_loop msg fn transactMaxAttempts 0 None"

subsection \<open>A commit\<close>

text \<open>The closure only does what a closure may do.\<close>

definition closure_ok :: "attempt \<Rightarrow> bool" where
  "closure_ok a \<longleftrightarrow> (\<forall>w. tx_step\<^sup>*\<^sup>* w (fst (at_fn a w)))"

lemma steps_winv: "tx_step\<^sup>*\<^sup>* w w' \<Longrightarrow> winv w \<Longrightarrow> winv w'"
  by (induction rule: rtranclp_induct) (use tx_step_winv in blast)+

lemma started_winv: "winv (log_events [Ran q None] (tx_start held))"
proof (rule statement_winv [OF start_winv])
  show "latching (tx_start held) (log_events [Ran q None] (tx_start held))"
    by (rule latching_quiet) (simp_all add: quiet_def is_piped_def)
qed (simp add: tx_start_def)

text \<open>The transaction when the closure is done with it.\<close>

lemma body_closure:
  assumes "closure_ok a" "w1 = tx_start held \<or> w1 = log_events [Ran q None] (tx_start held)"
  shows "winv (fst (at_fn a w1))"
  using assms steps_winv started_winv start_winv unfolding closure_ok_def by blast

lemma body_cases:
  assumes ok: "closure_ok a" and b: "transact_body driverName a (tx_start held) = (w, committed, res)"
  obtains (committed) w2 where "committed" "res = Some None" "winv w2" "tx_err w2 = None" "batchPending w2 = None"
      "w = (log_events [Ended ''COMMIT'' None] w2)\<lparr>tx_done := True\<rparr>"
  | (failed) "\<not> committed" "res \<noteq> Some None" "\<not> tx_done w" "live_ok w"
proof -
  define w1 where "w1 = (if driverName = ''mssql'' then log_events [Ran ''SET XACT_ABORT ON'' (at_xact a)] (tx_start held)
    else tx_start held)"
  show thesis
  proof (cases "driverName = ''mssql'' \<and> at_xact a \<noteq> None")
    case True
    with b failed show thesis by (auto simp: transact_body_def setXactAbort_def tx_start_def live_ok_def)
  next
    case False
    obtain w2 out where fn: "at_fn a w1 = (w2, out)" by fastforce
    have "w1 = tx_start held \<or> w1 = log_events [Ran ''SET XACT_ABORT ON'' None] (tx_start held)"
      using False by (auto simp: w1_def)
    from body_closure [OF ok this] have i2: "winv w2" by (simp add: fn)
    then have l2: "live_ok w2" "live_ok (log_events es w2)" for es by (simp_all add: winv_def live_ok_def)
    have b': "transact_body driverName a (tx_start held) =
      (case out of
         None \<Rightarrow> (w2, False, None)
       | Some (Some e) \<Rightarrow> (w2, False, Some (Some (Traced e)))
       | Some None \<Rightarrow>
         (case tx_err w2 of
            Some e \<Rightarrow> (w2, False, Some (Some (Traced e)))
          | None \<Rightarrow>
            (case batchPending w2 of
               Some e \<Rightarrow> (w2, False, Some (Some e))
             | None \<Rightarrow>
               (case finalize ''COMMIT'' (at_commit a) w2 of
                  (w3, Some e) \<Rightarrow> (w3, False, Some (Some (Traced e)))
                | (w3, None) \<Rightarrow> (w3, True, Some None)))))"
      using False fn by (auto simp: transact_body_def setXactAbort_def w1_def tx_Commit_def Let_def
        split: option.splits)
    show thesis
    proof (cases "out = Some None \<and> tx_err w2 = None \<and> batchPending w2 = None \<and> at_commit a = None")
      case True
      with b b' winvD(3) [OF i2] committed [of w2] i2 show thesis by (auto simp: finalize_def traceErr_def)
    next
      case no: False
      with b b' winvD(3) [OF i2] l2 failed show thesis
        by (auto simp: finalize_def Let_def split: option.splits if_splits)
    qed
  qed
qed

lemma pending_none: "batchPending w = None \<longleftrightarrow> batchMisuse w = None \<and> unsentBatches w \<le> 0 \<and> openBatch w = None"
  by (auto simp: batchPending_def)

lemma complete_batches:
  assumes inv: "winv w" and e: "tx_err w = None" and p: "batchPending w = None" and ne: "items (batches w b) \<noteq> []"
  shows "b_sent (batches w b) \<and> ran_batch (core_of w) b"
proof -
  have s: "c_struct (core_of w)" and c: "c_complete (core_of w)" using inv e by (simp_all add: winv_def c_inv_def)
  from p have "card (unsent (core_of w)) = 0" and o1: "openBatch w = None"
    using s by (simp_all add: pending_none c_struct_def)
  then have "unsent (core_of w) = {}" using unsent_finite [OF s] by simp
  with ne have b: "b_sent (batches w b)" unfolding unsent_def core_sel by auto
  with c ne o1 show ?thesis unfolding c_complete_def core_sel by auto
qed

lemma nothing_piped_failed:
  assumes inv: "winv w" and e: "tx_err w = None" and p: "batchPending w = None"
  shows "Piped q (Some x) \<notin> set (sent w)"
proof -
  have "c_complete (core_of w)" using inv e by (simp add: winv_def c_inv_def)
  moreover have "\<not> owed (core_of w)" using p by (simp add: pending_none owed_def)
  ultimately have "Piped q (Some x) \<notin> set (stmts (sent w))" by (auto simp: c_complete_def piped_failed_def)
  then show ?thesis by (simp add: is_stmt_def)
qed

text \<open>What failed in the history of a transaction about to commit.\<close>

lemma committed_failures:
  assumes inv: "winv w" and e: "tx_err w = None" and p: "batchPending w = None"
    and f: "i < length (sent w)" "failure (sent w ! i) \<noteq> None"
  shows "(\<exists>q e. sent w ! i = RanRow q (Some e)) \<and> (\<forall>err. ReadRow i err \<notin> set (sent w))"
proof -
  have "clean (sent w)" using winvD(4) [OF inv] e by (simp add: latched_def)
  from clean_failure [OF this f] show ?thesis
  proof
    assume "is_piped (sent w ! i)"
    then obtain q x where "sent w ! i = Piped q (Some x)"
      using f(2) by (auto simp: is_piped_def split: event.splits)
    then have "Piped q (Some x) \<in> set (sent w)" using f(1) by (metis nth_mem)
    with nothing_piped_failed [OF inv e p] show ?thesis by blast
  qed
qed

text \<open>
  (C1) A transaction that \<^verbatim>\<open>Transact\<close> commits is whole, whatever the closure did with its errors. Of the
  statements in its history, pipelined ones included, and of the readings of their rows, none failed, with one
  exception: the query of a single row that the closure never read, neither by \<^verbatim>\<open>Scan\<close> nor by \<^verbatim>\<open>Err\<close>, of whose
  error nobody was told (a \<^verbatim>\<open>sql.ErrNoRows\<close> of a single row is not a failure). And every batch the closure queued
  a statement on was sent and ran in full, its statements one after the other in queue order, before the COMMIT
  that ends the history.
\<close>

theorem no_partial_commit:
  assumes "closure_ok a" "transactOnce driverName a = (Some w, Some None)"
  shows "\<exists>h. sent w = h @ [Ended ''COMMIT'' None] \<and>
           (\<forall>i < length h. failure (h ! i) \<noteq> None \<longrightarrow>
              (\<exists>q e. h ! i = RanRow q (Some e)) \<and> (\<forall>err. ReadRow i err \<notin> set h)) \<and>
           (\<forall>b. items (batches w b) \<noteq> [] \<longrightarrow> b_sent (batches w b) \<and>
             (\<exists>pre post es. stmts h = pre @ es @ post \<and>
                (es = ran_texts (texts_of (items (batches w b))) \<or> es = piped (texts_of (items (batches w b))))))"
proof -
  obtain held w3 committed where b: "transact_body driverName a (tx_start held) = (w3, committed, Some None)"
    and w: "w = (if committed then w3 else fst (tx_Rollback (at_rows a) (at_rollback a) w3))"
    using assms(2) by (auto simp: transactOnce_def split: sum.splits prod.splits)
  from assms(1) b show ?thesis
  proof (cases rule: body_cases)
    case (committed w2)
    note committed_failures [OF committed(3-5)]
    moreover have "b_sent (batches w2 b) \<and> ran_batch (core_of w2) b" if "items (batches w2 b) \<noteq> []" for b
      using complete_batches [OF committed(3-5) that] .
    ultimately show ?thesis
      using w committed(1,6) by (intro exI [of _ "sent w2"]) (simp add: ran_batch_def log_events_def)
  qed simp
qed

text \<open>
  The exception is real: a closure that drops the row of a failed query and returns nil has its transaction
  committed.
\<close>

definition unread_attempt :: "error \<Rightarrow> attempt" where
  "unread_attempt e =
     \<lparr>at_conn = None, at_begin = None, at_xact = None,
      at_fn = (\<lambda>w. (fst (tx_QueryRowContext (labelled ''mysql'' ''SELECT a'' ''SELECT a'' None ''SELECT'' []) (Some e) w), Some None)),
      at_commit = None, at_rollback = None,
      at_rows = \<lparr>a_next = False, a_err = None, a_scan = None, a_close = None\<rparr>\<rparr>"

lemma unread_row_commits:
  "closure_ok (unread_attempt e) \<and>
   (\<exists>w. transactOnce ''mysql'' (unread_attempt e) = (Some w, Some None) \<and>
      sent w = [RanRow ''SELECT a'' (Some e), Ended ''COMMIT'' None])"
proof
  show "closure_ok (unread_attempt e)"
    unfolding closure_ok_def unread_attempt_def by (auto intro!: r_into_rtranclp tx_step.query_row)
  have "physicalDriverName ''mysql'' \<noteq> ''pgx''" by code_simp
  then show "\<exists>w. transactOnce ''mysql'' (unread_attempt e) = (Some w, Some None) \<and>
      sent w = [RanRow ''SELECT a'' (Some e), Ended ''COMMIT'' None]"
    by (simp add: transactOnce_def transact_body_def beginTx_def unread_attempt_def tx_QueryRowContext_def
        shortCircuit_def batchRefuses_def tx_start_def instrumentQueryRow_def labelled_def log_events_def
        batchPending_def tx_Commit_def finalize_def traceErr_def Let_def)
qed

lemma abandon_frame:
  assumes "live_ok w"
  shows "tx_done (abandon r a w) = tx_done w" "openBatch w = Some r \<Longrightarrow> openBatch (abandon r a w) = None"
proof -
  have g: "gentle (core_of w) (core_of (supersedeOpen r a w))"
    using reads_supersedeOpen [of w r a] assms by (simp add: reads_def)
  from gentle_fields(2,6) [OF g]
  show "tx_done (abandon r a w) = tx_done w" "openBatch w = Some r \<Longrightarrow> openBatch (abandon r a w) = None"
    by (simp_all add: abandon_def Let_def)
qed

text \<open>An attempt whose closure queues two statements, sends the batch and closes the results unread.\<close>

definition sample_stmt :: "string \<Rightarrow> preparedQuery" where
  "sample_stmt q = labelled ''sqlite'' q q None ''UPDATE'' []"

definition sample_rows :: row_answers where
  "sample_rows = \<lparr>a_next = False, a_err = None, a_scan = None, a_close = None\<rparr>"

definition sample_closure :: "error option \<Rightarrow> txw \<Rightarrow> txw \<times> error option option" where
  "sample_closure second w0 =
     (let b = next_batch w0; r = next_results w0;
          w1 = fst (tx_Batch w0);
          w2 = batch_Queue b (sample_stmt ''UPDATE a'') False w1;
          w3 = batch_Queue b (sample_stmt ''UPDATE b'') False w2;
          w4 = fst (batch_Send b (PipeRTT Canceled) w3);
          answers = (\<lambda>i. Answers None (case second of Some e \<Rightarrow> if i = 1 then Inl e else Inr () | None \<Rightarrow> Inr ())) in
      (fst (results_Close r sample_rows answers w4), Some None))"

definition sample_attempt :: "error option \<Rightarrow> attempt" where
  "sample_attempt second =
     \<lparr>at_conn = None, at_begin = None, at_xact = None, at_fn = sample_closure second, at_commit = None,
      at_rollback = None, at_rows = sample_rows\<rparr>"

lemma sends_never_panics: "\<not> batch_panics b (PipeRTT e) w"
  by (simp add: batch_panics_def batch_Send_def pipeline_def Let_def split: option.split list.split prod.split)

lemma queue_next [simp]: "next_batch (batch_Queue b pq named w) = next_batch w"
  by (simp add: batch_Queue_def Let_def)

lemma sample_ok: "closure_ok (sample_attempt second)"
  unfolding closure_ok_def
proof
  fix w0
  define b w1 w2 w3 where w: "b = next_batch w0" "w1 = fst (tx_Batch w0)"
    "w2 = batch_Queue b (sample_stmt ''UPDATE a'') False w1" "w3 = batch_Queue b (sample_stmt ''UPDATE b'') False w2"
  define w4 where w4: "w4 = fst (batch_Send b (PipeRTT Canceled) w3)"
  define answers :: "nat \<Rightarrow> unit answer"
    where "answers = (\<lambda>i. Answers None (case second of Some e \<Rightarrow> if i = 1 then Inl e else Inr () | None \<Rightarrow> Inr ()))"
  have b: "b < next_batch w1" "b < next_batch w2" "b < next_batch w3" by (simp_all add: w tx_Batch_def)
  have "tx_step w0 w1" unfolding w by (rule tx_step.batch)
  moreover have "tx_step w1 w2" "tx_step w2 w3" using b unfolding w by (auto intro!: tx_step.queue)
  moreover have "tx_step w3 w4" unfolding w4 using b(3) sends_never_panics by (rule tx_step.send)
  moreover have "tx_step w4 (fst (results_Close (next_results w0) sample_rows answers w4))"
    by (rule tx_step.results_close)
  ultimately have "tx_step\<^sup>*\<^sup>* w0 (fst (results_Close (next_results w0) sample_rows answers w4))"
    by (meson converse_rtranclp_into_rtranclp rtranclp.rtrancl_refl)
  then show "tx_step\<^sup>*\<^sup>* w0 (fst (at_fn (sample_attempt second) w0))"
    by (simp add: sample_attempt_def sample_closure_def w w4 answers_def Let_def)
qed

theorem no_partial_commit_witness:
  "\<exists>w h. transactOnce ''sqlite'' (sample_attempt None) = (Some w, Some None) \<and>
     sent w = h @ [Ended ''COMMIT'' None] \<and> (\<forall>i < length h. failure (h ! i) \<noteq> None \<longrightarrow> (\<exists>q e. h ! i = RanRow q (Some e)))"
proof -
  have "snd (transactOnce ''sqlite'' (sample_attempt None)) = Some None"
    "fst (transactOnce ''sqlite'' (sample_attempt None)) \<noteq> None" by code_simp+
  then obtain w where w: "transactOnce ''sqlite'' (sample_attempt None) = (Some w, Some None)"
    by (metis not_None_eq prod.collapse)
  with no_partial_commit [OF sample_ok w] show ?thesis by blast
qed

text \<open>
  (C9) An attempt that does not return nil, because the closure, a statement, a batch or the COMMIT failed or
  because the closure panicked, ends its transaction with a ROLLBACK, with no batch left open.
\<close>

theorem uncommitted_rolls_back:
  assumes "closure_ok a" "transactOnce driverName a = (Some w, res)" "res \<noteq> Some None"
  shows "(\<exists>h. sent w = h @ [Ended ''ROLLBACK'' (at_rollback a)]) \<and> openBatch w = None \<and>
         (tx_done w \<longleftrightarrow> at_rollback a = None)"
proof -
  obtain held w3 committed where b: "transact_body driverName a (tx_start held) = (w3, committed, res)"
    and w: "w = (if committed then w3 else fst (tx_Rollback (at_rows a) (at_rollback a) w3))"
    using assms(2) by (auto simp: transactOnce_def split: sum.splits prod.splits)
  from assms(1) b show ?thesis
  proof (cases rule: body_cases)
    case failed
    with w abandon_frame [of w3] show ?thesis by (cases "openBatch w3") (auto simp: tx_Rollback_def finalize_def Let_def)
  qed (use assms(3) in simp)
qed

theorem uncommitted_rolls_back_witness:
  "\<exists>w res h. transactOnce ''sqlite'' (sample_attempt (Some (MySQLError 1213))) = (Some w, res) \<and> res \<noteq> Some None \<and>
     sent w = h @ [Ended ''ROLLBACK'' None]"
proof -
  let ?a = "sample_attempt (Some (MySQLError 1213))"
  have "snd (transactOnce ''sqlite'' ?a) \<noteq> Some None" "fst (transactOnce ''sqlite'' ?a) \<noteq> None" by code_simp+
  then obtain w res where w: "transactOnce ''sqlite'' ?a = (Some w, res)" "res \<noteq> Some None"
    by (metis not_None_eq prod.collapse)
  moreover have "at_rollback ?a = None" by (simp add: sample_attempt_def)
  ultimately show ?thesis using uncommitted_rolls_back [OF sample_ok w] by metis
qed

subsection \<open>The attempts\<close>

abbreviation contended :: "(error \<Rightarrow> string) \<Rightarrow> error option option \<Rightarrow> bool" where
  "contended msg out \<equiv> (case out of Some (Some e) \<Rightarrow> IsLockContentionError msg (Some e) | _ \<Rightarrow> False)"

lemma loop_spec:
  assumes "transact_loop msg once n k err = (attempts, res)" "n > 0"
  shows "k < attempts \<and> attempts \<le> k + n \<and> (\<forall>i. k \<le> i \<and> i < attempts - 1 \<longrightarrow> contended msg (once i)) \<and>
         (res = once (attempts - 1) \<and> \<not> contended msg res \<or>
          attempts = k + n \<and> contended msg (once (attempts - 1)) \<and> res = map_option Trace (once (attempts - 1)))"
  using assms
proof (induction msg once n k err rule: transact_loop.induct)
  case (2 msg once n k err)
  show ?case
  proof (cases "contended msg (once k)")
    case False
    with 2(2) have "attempts = Suc k \<and> res = once k"
      by (cases "once k"; cases "the (once k)") (auto split: if_splits)
    with False show ?thesis by auto
  next
    case True
    then obtain e where e: "once k = Some (Some e)" "IsLockContentionError msg (Some e)"
      by (auto split: option.splits)
    then have l: "transact_loop msg once n (Suc k) (Some e) = (attempts, res)" using 2(2) by simp
    show ?thesis
    proof (cases "n = 0")
      case True
      with l e show ?thesis by auto
    next
      case False
      with 2(1) [OF e(1)] e l have ih: "Suc k < attempts \<and> attempts \<le> Suc k + n \<and>
         (\<forall>i. Suc k \<le> i \<and> i < attempts - 1 \<longrightarrow> contended msg (once i)) \<and>
         (res = once (attempts - 1) \<and> \<not> contended msg res \<or>
          attempts = Suc k + n \<and> contended msg (once (attempts - 1)) \<and> res = map_option Trace (once (attempts - 1)))"
        by simp
      moreover have "contended msg (once i)" if "k \<le> i" "i < attempts - 1" for i
        using ih e that by (cases "i = k") auto
      ultimately show ?thesis by auto
    qed
  qed
qed simp

text \<open>
  (C10) \<^verbatim>\<open>Transact\<close> makes between one and eight attempts. Every attempt but the last failed on lock contention,
  so at most one attempt commits, and \<^verbatim>\<open>Transact\<close> returns nil exactly when the last one did. Any other outcome
  of the last attempt is returned as it is, a contention only after the eighth, then traced.
\<close>

theorem Transact_attempts:
  "\<exists>n res. Transact msg driverName env = (n, res) \<and> 1 \<le> n \<and> n \<le> 8 \<and>
     (\<forall>i < n - 1. contended msg (snd (transactOnce driverName (env i)))) \<and>
     (res = Some None \<longleftrightarrow> snd (transactOnce driverName (env (n - 1))) = Some None) \<and>
     (if contended msg (snd (transactOnce driverName (env (n - 1))))
      then n = 8 \<and> res = map_option Trace (snd (transactOnce driverName (env 7)))
      else res = snd (transactOnce driverName (env (n - 1))))"
proof -
  obtain n res where t: "Transact msg driverName env = (n, res)" by fastforce
  from loop_spec [OF this [unfolded Transact_def]] t show ?thesis
    by (intro exI [of _ n] exI [of _ res]) (auto simp: transactMaxAttempts_def Trace_def split: option.splits)
qed

text \<open>A transaction that deadlocks on MySQL in its first attempt.\<close>

definition sample_env :: "nat \<Rightarrow> attempt" where
  "sample_env i = sample_attempt (if i = 0 then Some (MySQLError 1213) else None)"

theorem Transact_attempts_witness:
  "\<exists>n res. Transact (\<lambda>_. []) ''mysql'' sample_env = (n, res) \<and> 1 \<le> n \<and> n \<le> 8 \<and>
     (\<forall>i < n - 1. contended (\<lambda>_. []) (snd (transactOnce ''mysql'' (sample_env i))))"
  using Transact_attempts [of "\<lambda>_. []" "''mysql''" sample_env] by blast

text \<open>
  (C11) \<^verbatim>\<open>Transact\<close> gets through contention: if an attempt among the first eight would commit and the attempts
  before it lose to lock contention, it returns nil after exactly that attempt.
\<close>

theorem Transact_gets_through:
  assumes "k < 8" "snd (transactOnce driverName (env k)) = Some None"
    and "\<forall>i < k. contended msg (snd (transactOnce driverName (env i)))"
  shows "Transact msg driverName env = (Suc k, Some None)"
proof -
  obtain n res where t: "Transact msg driverName env = (n, res)" by fastforce
  let ?once = "\<lambda>i. snd (transactOnce driverName (env i))"
  have s: "0 < n" "n \<le> 8" "\<forall>i < n - 1. contended msg (?once i)"
    "res = ?once (n - 1) \<and> \<not> contended msg res \<or> n = 8 \<and> contended msg (?once (n - 1))"
    using loop_spec [OF t [unfolded Transact_def]] by (auto simp: transactMaxAttempts_def)
  have "\<not> contended msg (?once k)" using assms(2) by simp
  then have "\<not> k < n - 1" using s(3) by blast
  moreover have "\<not> n - 1 < k"
    using assms(1,3) s(4) by force
  ultimately have "n - 1 = k" by simp
  with s(1,4) assms(2) t show ?thesis by auto
qed

theorem Transact_gets_through_witness: "Transact (\<lambda>_. []) ''mysql'' sample_env = (2, Some None)"
proof -
  have "snd (transactOnce ''mysql'' (sample_env 1)) = Some None" by code_simp
  moreover have "contended (\<lambda>_. []) (snd (transactOnce ''mysql'' (sample_env 0)))" by code_simp
  ultimately show ?thesis using Transact_gets_through [of 1 "''mysql''" sample_env "\<lambda>_. []"] by simp
qed

end
