(* ===== verification/Buffered_Rows.thy ===== *)
theory Buffered_Rows
  imports Batches
begin

section \<open>Buffered rows implement a cursor\<close>

text \<open>
  \<^verbatim>\<open>rowSource\<close> is what a reader of a batch's rows relies on. Its contract is a cursor over a list of rows;
  the locale states it, and proves of every implementation that the usual loop reads each row once, in
  order. The buffered rows of a pipelined batch implement it while they release each row they leave.
\<close>

datatype 'r cursor = Before "'r list" | At 'r "'r list" | Finished

fun cursor_next :: "'r cursor \<Rightarrow> 'r cursor \<times> bool" where
  "cursor_next (Before (x # xs)) = (At x xs, True)"
| "cursor_next (At _ (x # xs)) = (At x xs, True)"
| "cursor_next _ = (Finished, False)"

definition cursor_scan :: "('r \<Rightarrow> error option) \<Rightarrow> 'r cursor \<Rightarrow> error option" where
  "cursor_scan scan c = (case c of At x _ \<Rightarrow> scan x | _ \<Rightarrow> Some errNoRow)"

fun ahead :: "'r cursor \<Rightarrow> 'r list" where
  "ahead (Before xs) = xs"
| "ahead (At _ xs) = xs"
| "ahead Finished = []"

text \<open>The loop \<^verbatim>\<open>for rows.Next() { rows.Scan(...) }\<close> with what each row's scan answers, for at most \<open>n\<close> calls
  of \<^verbatim>\<open>Next\<close>; \<open>None\<close> if they were not enough.\<close>

fun read_loop :: "nat \<Rightarrow> ('s \<Rightarrow> 's \<times> bool) \<Rightarrow> ('s \<Rightarrow> error option) \<Rightarrow> 's \<Rightarrow> error option list option" where
  "read_loop 0 nxt scan s = None"
| "read_loop (Suc n) nxt scan s =
     (case nxt s of
        (s', False) \<Rightarrow> Some []
      | (s', True) \<Rightarrow> map_option (Cons (scan s')) (read_loop n nxt scan s'))"

locale row_source =
  fixes nxt :: "'s \<Rightarrow> 's \<times> bool"
    and scn :: "('r \<Rightarrow> error option) \<Rightarrow> 's \<Rightarrow> error option"
    and cls :: "'s \<Rightarrow> 's"
    and abs_cursor :: "'s \<Rightarrow> 'r cursor"
  assumes next_abs: "cursor_next (abs_cursor s) = (abs_cursor (fst (nxt s)), snd (nxt s))"
    and scan_abs: "scn scan s = cursor_scan scan (abs_cursor s)"
    and close_abs: "abs_cursor (cls s) = Finished"
begin

lemma next_cases:
  obtains (row) s' x xs where "nxt s = (s', True)" "ahead (abs_cursor s) = x # xs" "abs_cursor s' = At x xs"
  | (stop) s' where "nxt s = (s', False)" "ahead (abs_cursor s) = []"
proof (cases "nxt s")
  case (Pair s' ok)
  with next_abs [of s] row stop show ?thesis
    by (cases "abs_cursor s" rule: cursor_next.cases) auto
qed

lemma read_loop_all:
  "length (ahead (abs_cursor s)) < n \<Longrightarrow> read_loop n nxt (scn scan) s = Some (map scan (ahead (abs_cursor s)))"
proof (induction n arbitrary: s)
  case (Suc n)
  show ?case
  proof (cases rule: next_cases [of s])
    case (row s' x xs)
    with Suc show ?thesis by (simp add: scan_abs cursor_scan_def)
  qed simp
qed simp

lemma closed_scan: "scn scan (cls s) = Some errNoRow"
  by (simp add: scan_abs close_abs cursor_scan_def)

end

definition buffered_cursor :: "bufferedRows \<Rightarrow> raw cursor" where
  "buffered_cursor r =
     (if bf_next r = 0 then Before (bf_rows r)
      else if bf_next r \<le> length (bf_rows r) then At (bf_rows r ! (bf_next r - 1)) (drop (bf_next r) (bf_rows r))
      else Finished)"

lemma buffered_next: "cursor_next (buffered_cursor r) = (buffered_cursor (fst (bf_Next r)), snd (bf_Next r))"
proof (cases "bf_next r < length (bf_rows r)")
  case True
  then have d: "drop (bf_next r) (bf_rows r) = bf_rows r ! bf_next r # drop (Suc (bf_next r)) (bf_rows r)"
    by (rule Cons_nth_drop_Suc [symmetric])
  show ?thesis
  proof (cases "bf_next r")
    case 0
    with True show ?thesis by (cases "bf_rows r") (simp_all add: buffered_cursor_def bf_Next_def)
  next
    case (Suc n)
    with True d show ?thesis by (simp add: buffered_cursor_def bf_Next_def Let_def Suc_leI)
  qed
next
  case False
  then show ?thesis by (cases "bf_next r") (auto simp: buffered_cursor_def bf_Next_def)
qed

interpretation buffered: row_source bf_Next bf_Scan bf_Close buffered_cursor
proof unfold_locales
  fix r scan
  show "cursor_next (buffered_cursor r) = (buffered_cursor (fst (bf_Next r)), snd (bf_Next r))" by (rule buffered_next)
  show "bf_Scan scan r = cursor_scan scan (buffered_cursor r)"
    by (simp add: bf_Scan_def cursor_scan_def buffered_cursor_def)
  show "buffered_cursor (bf_Close r) = Finished" by (simp add: buffered_cursor_def bf_Close_def)
qed

text \<open>
  (C15) The buffered rows of a pipelined batch refine a cursor over the list of rows: \<^verbatim>\<open>Next\<close>, \<^verbatim>\<open>Scan\<close> and
  \<^verbatim>\<open>Close\<close> do what the cursor does, although \<^verbatim>\<open>Next\<close> overwrites every row it leaves with nil.
\<close>

theorem bufferedRows_refine_cursor:
  "cursor_next (buffered_cursor r) = (buffered_cursor (fst (bf_Next r)), snd (bf_Next r)) \<and>
   bf_Scan scan r = cursor_scan scan (buffered_cursor r) \<and> buffered_cursor (bf_Close r) = Finished"
  using buffered.next_abs buffered.scan_abs buffered.close_abs by blast

text \<open>
  Reading buffered rows from the start with \<^verbatim>\<open>for rows.Next() { rows.Scan(...) }\<close> ends after one call of
  \<^verbatim>\<open>Next\<close> per row and one more, and scans every row exactly once, in order; a scan before the first \<^verbatim>\<open>Next\<close>
  or after \<^verbatim>\<open>Close\<close> is an error.
\<close>

theorem bufferedRows_read_in_order:
  "(let r = \<lparr>bf_typeMap = tm, bf_fields = fs, bf_rows = rs, bf_next = 0\<rparr> in
    read_loop (Suc (length rs)) bf_Next (bf_Scan scan) r = Some (map scan rs) \<and>
    bf_Scan scan r = Some errNoRow \<and> bf_Scan scan (bf_Close r) = Some errNoRow)"
  using buffered.read_loop_all [of "\<lparr>bf_typeMap = tm, bf_fields = fs, bf_rows = rs, bf_next = 0\<rparr>" "Suc (length rs)" scan]
    buffered.closed_scan
  by (simp add: Let_def buffered_cursor_def bf_Scan_def)

end
