(* ===== verification/Redaction.thy ===== *)
theory Redaction
  imports Dsn
begin

section \<open>Masking credentials (redactDataSourceName of db.go)\<close>

text \<open>
  Three patterns are replaced: the password of a URL, the password in front of the network of a DSN in the
  MySQL driver's format, and the value of a \<^verbatim>\<open>password\<close> or \<^verbatim>\<open>pwd\<close> parameter. The theorems are
  non-interference: what is quoted in an error does not depend on the password.
\<close>

text \<open>\<^verbatim>\<open>dsnURLCredentialsPattern\<close>: \<^verbatim>\<open>://([^:/@?]*):(.*)@\<close> at the start of the text; the user name and what
  follows the match.\<close>

definition url_credentials_at :: "string \<Rightarrow> (string \<times> string) option" where
  "url_credentials_at s =
     (if \<not> HasPrefix s ''://'' then None
      else
        let t = drop 3 s; user = takeWhile (\<lambda>c. c \<notin> set '':/@?'') t; u = drop (length user) t in
        case u of
          [] \<Rightarrow> None
        | c # v \<Rightarrow>
          if c \<noteq> CHR '':'' then None
          else case after_last (CHR ''@'') v of None \<Rightarrow> None | Some rest \<Rightarrow> Some (user, rest))"

lemma url_credentials_shorter: "url_credentials_at s = Some (user, rest) \<Longrightarrow> length rest < length s"
  by (auto simp: url_credentials_at_def Let_def split: if_splits list.splits option.splits
      dest!: after_last_length arg_cong [of _ _ length])

function redact_url :: "string \<Rightarrow> string" where
  "redact_url s =
     (case url_credentials_at s of
        Some (user, rest) \<Rightarrow> ''://'' @ user @ '':***@'' @ redact_url rest
      | None \<Rightarrow> (case s of [] \<Rightarrow> [] | c # s' \<Rightarrow> c # redact_url s'))"
  by pat_completeness auto
termination
  by (relation "measure length") (auto dest: url_credentials_shorter)

declare redact_url.simps [simp del]

text \<open>\<^verbatim>\<open>dsnMySQLCredentialsPattern\<close>: \<^verbatim>\<open>^([^:@/]+):(.*)@\<close>.\<close>

definition redact_mysql :: "string \<Rightarrow> string" where
  "redact_mysql s =
     (let user = takeWhile (\<lambda>c. c \<notin> set '':@/'') s; u = drop (length user) s in
      case u of
        [] \<Rightarrow> s
      | c # v \<Rightarrow>
        if user = [] \<or> c \<noteq> CHR '':'' then s
        else case after_last (CHR ''@'') v of None \<Rightarrow> s | Some rest \<Rightarrow> user @ '':***@'' @ rest)"

text \<open>\<^verbatim>\<open>dsnPasswordParamPattern\<close>: \<^verbatim>\<open>(?i)(password|pwd)=[^;& ]*\<close> at the start of the text: the key as written, and
  what follows the value.\<close>

definition ends_value :: "char \<Rightarrow> bool" where
  "ends_value c \<longleftrightarrow> c \<in> set '';& ''"

definition key_at :: "string \<Rightarrow> string \<Rightarrow> (string \<times> string) option" where
  "key_at w s =
     (case after_fold (CHR '' '') w s of
        Some (_, c # t) \<Rightarrow>
          if c = CHR ''='' then Some (take (length s - length t - 1) s, dropWhile (\<lambda>c. \<not> ends_value c) t) else None
      | _ \<Rightarrow> None)"

definition password_param_at :: "string \<Rightarrow> (string \<times> string) option" where
  "password_param_at s = (case key_at ''PASSWORD'' s of Some m \<Rightarrow> Some m | None \<Rightarrow> key_at ''PWD'' s)"

lemma key_at_shorter:
  assumes "key_at w s = Some (k, t)"
  shows "length t < length s"
proof -
  from assms obtain p c u where a: "after_fold (CHR '' '') w s = Some (p, c # u)" and t: "t = dropWhile (\<lambda>c. \<not> ends_value c) u"
    by (auto simp: key_at_def split: option.splits list.splits if_splits)
  have "length t \<le> length u" unfolding t by (rule length_dropWhile_le)
  with after_fold_length [OF a] show ?thesis by simp
qed

function redact_params :: "string \<Rightarrow> string" where
  "redact_params s =
     (case password_param_at s of
        Some (key, rest) \<Rightarrow> key @ ''=***'' @ redact_params rest
      | None \<Rightarrow> (case s of [] \<Rightarrow> [] | c # s' \<Rightarrow> c # redact_params s'))"
  by pat_completeness auto
termination
  by (relation "measure length") (auto simp: password_param_at_def dest: key_at_shorter split: option.splits)

declare redact_params.simps [simp del]

definition redactDataSourceName :: "string \<Rightarrow> string" where
  "redactDataSourceName dsn =
     redact_params (if Contains dsn ''://'' then redact_url dsn else redact_mysql dsn)"

subsection \<open>The output does not depend on the password\<close>

lemma url_credentials_scheme: "CHR '':'' \<notin> set p \<Longrightarrow> p \<noteq> [] \<Longrightarrow> url_credentials_at (p @ s) = None"
  by (cases p) (auto simp: url_credentials_at_def HasPrefix_def)

lemma redact_url_scheme: "CHR '':'' \<notin> set p \<Longrightarrow> redact_url (p @ s) = p @ redact_url s"
proof (induction p)
  case (Cons c p)
  then have "url_credentials_at (c # p @ s) = None" using url_credentials_scheme [of "c # p" s] by simp
  with Cons show ?case by (subst redact_url.simps) simp
qed simp

definition after_at :: "string \<Rightarrow> string" where
  "after_at s = (case after_last (CHR ''@'') s of Some t \<Rightarrow> t | None \<Rightarrow> s)"

lemma url_credentials_hit:
  assumes "list_all (\<lambda>c. c \<notin> set '':/@?'') user" "nl \<notin> set pw"
  shows "url_credentials_at (''://'' @ user @ '':'' @ pw @ ''@'' @ rest) = Some (user, after_at rest)"
proof -
  have "takeWhile (\<lambda>c. c \<notin> set '':/@?'') (user @ CHR '':'' # v) = user" for v
    using assms(1) by (induction user) auto
  moreover have "after_last (CHR ''@'') (pw @ CHR ''@'' # rest) = Some (after_at rest)"
    using after_last_skip [OF assms(2), of "CHR ''@''" rest] by (simp add: after_at_def split: option.split)
  ultimately show ?thesis by (simp add: url_credentials_at_def HasPrefix_def Let_def)
qed

lemma Contains_append: "Contains (p @ sub @ s) sub"
proof (induction p)
  case Nil
  have "HasPrefix (sub @ s) sub" by (simp add: HasPrefix_def)
  then show ?case by (cases "sub @ s") (auto simp: Contains_def Index.simps)
qed (auto simp: Contains_def Index.simps)

text \<open>
  (C13) A password in a URL-form DSN does not reach the redacted text. When the scheme holds no colon and the user
  name, which may be empty, none of the bytes \<^verbatim>\<open>: / @ ?\<close>, then two DSNs that differ only in their passwords are
  redacted to the same text, as long as neither password holds a line break; colons, at-signs, slashes and
  question marks may stand in them.
\<close>

theorem redacted_url_hides_password:
  assumes "CHR '':'' \<notin> set scheme" "list_all (\<lambda>c. c \<notin> set '':/@?'') user" "nl \<notin> set pw1" "nl \<notin> set pw2"
  shows "redactDataSourceName (scheme @ ''://'' @ user @ '':'' @ pw1 @ ''@'' @ rest) =
         redactDataSourceName (scheme @ ''://'' @ user @ '':'' @ pw2 @ ''@'' @ rest)"
proof -
  have "redact_url (scheme @ ''://'' @ user @ '':'' @ pw @ ''@'' @ rest) =
      scheme @ ''://'' @ user @ '':***@'' @ redact_url (after_at rest)" if "nl \<notin> set pw" for pw
    unfolding redact_url_scheme [OF assms(1)]
    by (subst redact_url.simps) (simp add: url_credentials_hit [OF assms(2) that, simplified])
  then show ?thesis using assms(3,4) Contains_append [of scheme "''://''"] by (simp add: redactDataSourceName_def)
qed

theorem redacted_url_hides_password_witness:
  "redactDataSourceName ''postgres://app:p@ss/w?rd@db:5432/shop'' =
   redactDataSourceName ''postgres://app:hunter2@db:5432/shop''"
  using redacted_url_hides_password [of "''postgres''" "''app''" "''p@ss/w?rd''" "''hunter2''" "''db:5432/shop''"] by simp

text \<open>
  (C14) A password in a DSN of the MySQL driver's format does not reach the redacted text either: two DSNs that differ
  only in their passwords are redacted to the same text, when the user name is not empty and holds none of
  the bytes \<^verbatim>\<open>: @ /\<close>, neither password holds a line break, and neither DSN holds \<^verbatim>\<open>://\<close>.
\<close>

theorem redacted_mysql_hides_password:
  assumes "user \<noteq> []" "list_all (\<lambda>c. c \<notin> set '':@/'') user" "nl \<notin> set pw1" "nl \<notin> set pw2"
    and "\<not> Contains (user @ '':'' @ pw1 @ ''@'' @ rest) ''://''" "\<not> Contains (user @ '':'' @ pw2 @ ''@'' @ rest) ''://''"
  shows "redactDataSourceName (user @ '':'' @ pw1 @ ''@'' @ rest) = redactDataSourceName (user @ '':'' @ pw2 @ ''@'' @ rest)"
proof -
  have t: "takeWhile (\<lambda>c. c \<notin> set '':@/'') (user @ CHR '':'' # v) = user" for v
    using assms(2) by (induction user) auto
  have "redact_mysql (user @ '':'' @ pw @ ''@'' @ rest) = user @ '':***@'' @ after_at rest" if "nl \<notin> set pw" for pw
  proof -
    have "after_last (CHR ''@'') (pw @ CHR ''@'' # rest) = Some (after_at rest)"
      using after_last_skip [OF that, of "CHR ''@''" rest] by (simp add: after_at_def split: option.split)
    then show ?thesis using assms(1) t by (simp add: redact_mysql_def Let_def)
  qed
  then show ?thesis using assms(3-6) by (simp add: redactDataSourceName_def)
qed

theorem redacted_mysql_hides_password_witness:
  "redactDataSourceName ''root:p@ss:w/rd@tcp(db:3306)/shop'' = redactDataSourceName ''root:hunter2@tcp(db:3306)/shop''"
proof -
  have "\<not> Contains ''root:p@ss:w/rd@tcp(db:3306)/shop'' ''://''" "\<not> Contains ''root:hunter2@tcp(db:3306)/shop'' ''://''"
    by code_simp+
  then show ?thesis
    using redacted_mysql_hides_password [of "''root''" "''p@ss:w/rd''" "''hunter2''" "''tcp(db:3306)/shop''"] by simp
qed

text \<open>
  The restrictions matter. A MySQL password that holds \<^verbatim>\<open>://\<close> makes the DSN look like a URL, whose pattern does
  not match; an empty user name, or one with an at-sign, does not match the MySQL pattern; and a line break is
  not matched by the dot of either. In each case the password is quoted in full.
\<close>

lemma redact_misses_mysql_password:
  "redactDataSourceName ''root:a://b@tcp(127.0.0.1:3306)/shop'' = ''root:a://b@tcp(127.0.0.1:3306)/shop''"
  by code_simp

lemma redact_misses_user:
  "redactDataSourceName '':secret@tcp(db:3306)/shop'' = '':secret@tcp(db:3306)/shop''"
  "redactDataSourceName ''a@b:secret@tcp(db:3306)/shop'' = ''a@b:secret@tcp(db:3306)/shop''"
  by code_simp+

lemma redact_misses_line_break:
  "redactDataSourceName (''postgres://app:se'' @ [nl] @ ''cret@db/shop'') = ''postgres://app:se'' @ [nl] @ ''cret@db/shop''"
  by code_simp

end
