(* ===== verification/Migrations.thy ===== *)
theory Migrations
  imports Transactions "HOL-Library.Multiset"
begin

section \<open>Migrations: the files (Migrate of db.go)\<close>

text \<open>
  What \<^verbatim>\<open>Migrate\<close> makes of the files it is given: which of them it plans to run, in which order, and which
  statements it sends for one of them. The locking protocol is in the next theory.
\<close>

subsection \<open>Comments\<close>

text \<open>The loop of \<^verbatim>\<open>stripLineComments\<close> over the rest of the statement, inside the quote if there is one.\<close>

function strip_loop :: "char option \<Rightarrow> string \<Rightarrow> string" where
  "strip_loop q [] = []"
| "strip_loop (Some q) (ch # s) = ch # strip_loop (if ch = q then None else Some q) s"
| "strip_loop None (ch # s) =
     (if ch = quote1 \<or> ch = quote2 \<or> ch = backtick then ch # strip_loop (Some ch) s
      else if ch = CHR ''-'' \<and> s \<noteq> [] \<and> hd s = CHR ''-'' then
        (case dropWhile (\<lambda>c. c \<noteq> nl) s of [] \<Rightarrow> [] | _ # t \<Rightarrow> nl # strip_loop None t)
      else ch # strip_loop None s)"
  by pat_completeness auto
termination
proof (relation "measure (\<lambda>(q, s). length s)")
  fix ch s x t
  assume "dropWhile (\<lambda>c. c \<noteq> nl) s = x # t"
  then have "length (x # t) \<le> length s" by (metis length_dropWhile_le)
  then show "((None, t), None, ch # s) \<in> measure (\<lambda>(q, s). length s)" by simp
qed auto

definition stripLineComments :: "string \<Rightarrow> string" where
  "stripLineComments stm = strip_loop None stm"

subsection \<open>The statements of a file\<close>

definition trimLines :: "(string \<Rightarrow> string) \<Rightarrow> string \<Rightarrow> string" where
  "trimLines trim s = Join (map trim (Split s [nl])) [nl]"

definition restricted_to :: "string \<Rightarrow> string list option" where
  "restricted_to stm =
     (case Index stm ''-- DRIVER:'' of
        None \<Rightarrow> None
      | Some p \<Rightarrow> (case Cut (drop (p + 10) stm) [nl] of (driverLine, _) \<Rightarrow> Some (Fields driverLine)))"

text \<open>One segment of the file: the statement it sends, if any.\<close>

definition segment_statement :: "string \<Rightarrow> string \<Rightarrow> string option" where
  "segment_statement driverName segment =
     (let stm = TrimSpace segment in
      if stm = [] then None
      else if (case restricted_to stm of None \<Rightarrow> False | Some drivers \<Rightarrow> driverName \<notin> set drivers) then None
      else
        let stm' = TrimSpace (trimLines TrimSpace (stripLineComments stm)) in
        if stm' = [] then None else Some stm')"

definition migrationStatements :: "string \<Rightarrow> string \<Rightarrow> string list" where
  "migrationStatements driverName content =
     List.map_filter (segment_statement driverName)
       (Split (trimLines (\<lambda>l. TrimRightSet l [CHR '' '', CHR 0x09, CHR 0x0D]) content) ('';'' @ [nl]))"

text \<open>The goroutine: it stops at the first statement that fails. \<open>ans\<close> is the database's answer to each.\<close>

fun runStatements :: "(nat \<Rightarrow> error option) \<Rightarrow> nat \<Rightarrow> string list \<Rightarrow> string list \<times> error option" where
  "runStatements ans i [] = ([], None)"
| "runStatements ans i (s # ss) =
     (case ans i of
        Some e \<Rightarrow> ([s], Some e)
      | None \<Rightarrow> (case runStatements ans (i + 1) ss of (sent', err) \<Rightarrow> (s # sent', err)))"

subsection \<open>The migrations table and the watermark\<close>

definition migrationDrivers :: "string list" where
  "migrationDrivers = [''mysql'', ''mariadb'', ''pgx'', ''cockroachdb'', ''mssql'', ''sqlite'']"

definition errMigrationDriver :: "string \<Rightarrow> error" where
  "errMigrationDriver driverName = NewError (''unsupported driver name: '' @ driverName)"

text \<open>The statements are given line by line, each with the tabs it is indented by.\<close>

definition indented :: "(nat \<times> string) list \<Rightarrow> string" where
  "indented ls = Join (map (\<lambda>(tabs, l). replicate tabs (CHR 0x09) @ l) ls) [nl]"

definition mysqlMigrationsTable :: string where
  "mysqlMigrationsTable = indented
     [(0, ''''),
      (2, ''CREATE TABLE IF NOT EXISTS sequel_migrations (''),
      (3, ''seq_name VARCHAR(256) NOT NULL,''),
      (3, ''seq_num INT NOT NULL,''),
      (3, ''completed BOOL NOT NULL DEFAULT FALSE,''),
      (3, ''completed_on DATETIME(3),''),
      (3, ''locked_before DATETIME(3) NOT NULL DEFAULT NOW_UTC(),''),
      (3, ''PRIMARY KEY (seq_name, seq_num)''),
      (2, '')'')]"

definition pgMigrationsTable :: string where
  "pgMigrationsTable = indented
     [(0, ''''),
      (2, ''CREATE TABLE IF NOT EXISTS sequel_migrations (''),
      (3, ''seq_name VARCHAR(256) NOT NULL,''),
      (3, ''seq_num INT NOT NULL,''),
      (3, ''completed BOOL NOT NULL DEFAULT FALSE,''),
      (3, ''completed_on TIMESTAMP(3),''),
      (3, ''locked_before TIMESTAMP(3) NOT NULL DEFAULT NOW_UTC(),''),
      (3, ''PRIMARY KEY (seq_name, seq_num)''),
      (2, '')'')]"

definition mssqlMigrationsTable :: string where
  "mssqlMigrationsTable = indented
     [(0, ''''),
      (2, ''IF OBJECT_ID(N'' @ [quote1] @ ''dbo.sequel_migrations'' @ [quote1] @ '', N'' @ [quote1] @ ''U'' @ [quote1] @ '') IS NULL BEGIN''),
      (3, ''CREATE TABLE sequel_migrations (''),
      (4, ''seq_name VARCHAR(256) NOT NULL,''),
      (4, ''seq_num INT NOT NULL,''),
      (4, ''completed BIT NOT NULL DEFAULT 0,''),
      (4, ''completed_on DATETIME2(3),''),
      (4, ''locked_before DATETIME2(3) NOT NULL DEFAULT NOW_UTC(),''),
      (4, ''PRIMARY KEY (seq_name, seq_num)''),
      (3, '')''),
      (2, ''END'')]"

definition sqliteMigrationsTable :: string where
  "sqliteMigrationsTable = indented
     [(0, ''''),
      (2, ''CREATE TABLE IF NOT EXISTS sequel_migrations (''),
      (3, ''seq_name TEXT NOT NULL,''),
      (3, ''seq_num INTEGER NOT NULL,''),
      (3, ''completed INTEGER NOT NULL DEFAULT 0,''),
      (3, ''completed_on TEXT,''),
      (3, ''locked_before TEXT NOT NULL DEFAULT NOW_UTC(),''),
      (3, ''PRIMARY KEY (seq_name, seq_num)''),
      (2, '')'')]"

definition migrationsTableStmt :: "string \<Rightarrow> string option" where
  "migrationsTableStmt driverName =
     (if driverName \<in> {''mysql'', ''mariadb''} then Some mysqlMigrationsTable
      else if driverName \<in> {''pgx'', ''cockroachdb''} then Some pgMigrationsTable
      else if driverName = ''mssql'' then Some mssqlMigrationsTable
      else if driverName = ''sqlite'' then Some sqliteMigrationsTable
      else None)"

text \<open>\<open>exec\<close> answers the CREATE, \<open>probeErr\<close> the query that sees whether the table is there after all.\<close>

definition createMigrationsTable :: "string \<Rightarrow> (string \<Rightarrow> error option) \<Rightarrow> error option \<Rightarrow> error option" where
  "createMigrationsTable driverName exec probeErr =
     (case migrationsTableStmt driverName of
        None \<Rightarrow> Some (errMigrationDriver driverName)
      | Some stm \<Rightarrow>
        (case exec stm of
           None \<Rightarrow> None
         | Some e \<Rightarrow> if probeErr \<noteq> None then Some (Traced e) else None))"

text \<open>
  Reading the watermark: the table is made when it is not known to be there, and once more when a read fails
  although it was taken as made. \<open>create\<close> and \<open>read\<close> answer the two turns of the loop; the answer tells whether
  the table is now known to be there.
\<close>

definition read_turn ::
  "string \<Rightarrow> (nat \<Rightarrow> (string \<Rightarrow> error option) \<times> error option) \<Rightarrow> (nat \<Rightarrow> error + int option) \<Rightarrow> nat \<Rightarrow> bool \<Rightarrow>
   bool \<times> (error + (error + int option))" where
  "read_turn driverName create read i ready =
     (case (if ready then None else createMigrationsTable driverName (fst (create i)) (snd (create i))) of
        Some e \<Rightarrow> (False, Inl (Traced e))
      | None \<Rightarrow> (True, Inr (read i)))"

definition readWatermark ::
  "string \<Rightarrow> (nat \<Rightarrow> (string \<Rightarrow> error option) \<times> error option) \<Rightarrow> (nat \<Rightarrow> error + int option) \<Rightarrow> bool \<Rightarrow>
   bool \<times> (error + int)" where
  "readWatermark driverName create read ready =
     (if driverName \<notin> set migrationDrivers then (ready, Inl (errMigrationDriver driverName))
      else
        let (ready1, out) = (case read_turn driverName create read 0 ready of
              (r, Inr (Inl e)) \<Rightarrow> if ready then read_turn driverName create read 1 False else (r, Inr (Inl e))
            | ro \<Rightarrow> ro) in
        (ready1, case out of
           Inl e \<Rightarrow> Inl e
         | Inr (Inl e) \<Rightarrow> Inl (Traced e)
         | Inr (Inr w) \<Rightarrow> Inr (case w of None \<Rightarrow> 0 | Some n \<Rightarrow> n)))"

subsection \<open>The plan\<close>

text \<open>\<open>read\<close> is \<^verbatim>\<open>fs.ReadFile\<close>. The plan is the numbers to run, in the order of the directory, with the content
  and the name of each.\<close>

definition sequenceNumber :: "string \<Rightarrow> int option" where
  "sequenceNumber name = (if HasSuffix name ''.sql'' then Atoi (fst (Cut name ''.'')) else None)"

fun planFiles ::
  "(string \<Rightarrow> error + string) \<Rightarrow> int \<Rightarrow> string list \<Rightarrow> error + int list \<times> (int \<rightharpoonup> string) \<times> (int \<rightharpoonup> string)" where
  "planFiles read watermark [] = Inr ([], Map.empty, Map.empty)"
| "planFiles read watermark (name # names) =
     (case sequenceNumber name of
        None \<Rightarrow> planFiles read watermark names
      | Some seqNum \<Rightarrow>
        if seqNum \<le> watermark then planFiles read watermark names
        else case read name of
          Inl e \<Rightarrow> Inl (Wrapped (''unable to read file '' @ name) e)
        | Inr content \<Rightarrow>
          (case planFiles read watermark names of
             Inl e \<Rightarrow> Inl e
           | Inr (ns, contents, fileNames) \<Rightarrow>
               Inr (seqNum # ns,
                    (if contents seqNum = None then contents(seqNum \<mapsto> content) else contents),
                    (if fileNames seqNum = None then fileNames(seqNum \<mapsto> name) else fileNames))))"

definition planMigrations ::
  "(string \<Rightarrow> error + string) \<Rightarrow> int \<Rightarrow> string list \<Rightarrow> error + int list \<times> (int \<rightharpoonup> string) \<times> (int \<rightharpoonup> string)" where
  "planMigrations read watermark names =
     (case planFiles read watermark names of
        Inl e \<Rightarrow> Inl e
      | Inr (ns, contents, fileNames) \<Rightarrow> Inr (sort ns, contents, fileNames))"

subsection \<open>Stripping comments\<close>

lemma strip_hd: "hd s \<noteq> CHR ''-'' \<Longrightarrow> strip_loop None s = [] \<or> hd (strip_loop None s) = hd s"
  by (cases s) auto

lemma strip_idem: "strip_loop q (strip_loop q s) = strip_loop q s"
proof (induction q s rule: strip_loop.induct)
  case (3 ch s)
  show ?case
  proof (cases "ch = quote1 \<or> ch = quote2 \<or> ch = backtick")
    case True
    with 3(1) show ?thesis by auto
  next
    case plain: False
    show ?thesis
    proof (cases "ch = CHR ''-'' \<and> s \<noteq> [] \<and> hd s = CHR ''-''")
      case True
      with plain 3(2) show ?thesis by (auto split: list.split)
    next
      case False
      with plain 3(3) strip_hd [of s] show ?thesis
        by (cases "strip_loop None s"; cases "ch = CHR ''-''"; cases s) auto
    qed
  qed
qed simp_all

lemma no_line_breaks:
  "dropWhile (\<lambda>c. c \<noteq> nl) s = [] \<Longrightarrow> nl \<notin> set s"
  "dropWhile (\<lambda>c. c \<noteq> nl) s = x # t \<Longrightarrow> x = nl \<and> filter ((=) nl) s = nl # filter ((=) nl) t"
  by (induction s) (auto split: if_splits)

lemma strip_lines: "filter ((=) nl) (strip_loop q s) = filter ((=) nl) s"
proof (induction q s rule: strip_loop.induct)
  case (3 ch s)
  show ?case
  proof (cases "(ch \<noteq> quote1 \<and> ch \<noteq> quote2 \<and> ch \<noteq> backtick) \<and> ch = CHR ''-'' \<and> s \<noteq> [] \<and> hd s = CHR ''-''")
    case True
    show ?thesis
    proof (cases "dropWhile (\<lambda>c. c \<noteq> nl) s")
      case Nil
      have "filter ((=) nl) s = []" using no_line_breaks(1) [OF Nil] unfolding filter_empty_conv by blast
      with True Nil show ?thesis by (simp del: dropWhile_eq_Nil_conv)
    next
      case (Cons x t)
      have "filter ((=) nl) (strip_loop None t) = filter ((=) nl) t" using 3(2) True Cons by blast
      with True Cons no_line_breaks(2) [OF Cons] show ?thesis by simp
    qed
  next
    case False
    with 3(1,3) show ?thesis by (cases "ch = quote1 \<or> ch = quote2 \<or> ch = backtick") (auto simp del: dropWhile_eq_Nil_conv)
  qed
qed auto

text \<open>
  Removing the comments of a migration keeps its lines apart (the line breaks are those of the file) and
  is done after one pass: what is left has no comment that a second pass would find.
\<close>

theorem stripLineComments_stable:
  "stripLineComments (stripLineComments stm) = stripLineComments stm \<and>
   filter ((=) nl) (stripLineComments stm) = filter ((=) nl) stm"
  by (simp add: stripLineComments_def strip_idem strip_lines)

subsection \<open>The plan\<close>

definition planned :: "(string \<Rightarrow> error + string) \<Rightarrow> string list \<Rightarrow> (int \<rightharpoonup> string) \<Rightarrow> (int \<rightharpoonup> string) \<Rightarrow> int \<Rightarrow> bool" where
  "planned read names contents fileNames n \<longleftrightarrow>
     (\<exists>name \<in> set names. fileNames n = Some name \<and> sequenceNumber name = Some n \<and> read name = Inr (the (contents n)))"

lemma planned_Cons: "planned read names contents fileNames n \<Longrightarrow> planned read (name # names) contents fileNames n"
  by (auto simp: planned_def)

lemma planFiles_spec:
  assumes "planFiles read watermark names = Inr (ns, contents, fileNames)"
  shows "ns = filter (\<lambda>n. watermark < n) (List.map_filter sequenceNumber names) \<and>
    dom contents = set ns \<and> dom fileNames = set ns \<and> (\<forall>n \<in> set ns. planned read names contents fileNames n)"
  using assms
proof (induction names arbitrary: ns contents fileNames)
  case (Cons name names)
  show ?case
  proof (cases "\<exists>n. sequenceNumber name = Some n \<and> watermark < n")
    case False
    then have "planFiles read watermark names = Inr (ns, contents, fileNames)"
      "filter (\<lambda>n. watermark < n) (List.map_filter sequenceNumber (name # names)) =
       filter (\<lambda>n. watermark < n) (List.map_filter sequenceNumber names)"
      using Cons(2) by (auto simp: List.map_filter_simps split: option.splits)
    with Cons(1) planned_Cons show ?thesis by auto
  next
    case True
    then obtain n where n: "sequenceNumber name = Some n" "watermark < n" by blast
    with Cons(2) obtain c ns1 cs1 fs1 where r: "read name = Inr c"
      and rest: "planFiles read watermark names = Inr (ns1, cs1, fs1)" and ns: "ns = n # ns1"
      and cs: "contents = (if cs1 n = None then cs1(n \<mapsto> c) else cs1)"
      and fs: "fileNames = (if fs1 n = None then fs1(n \<mapsto> name) else fs1)"
      by (auto split: sum.splits)
    note ih = Cons(1) [OF rest]
    then have same: "cs1 n = None \<longleftrightarrow> n \<notin> set ns1" "fs1 n = None \<longleftrightarrow> n \<notin> set ns1" by (metis domIff)+
    have "planned read (name # names) contents fileNames m" if "m \<in> set ns" for m
    proof (cases "m \<in> set ns1")
      case True
      with ih have "planned read names cs1 fs1 m" by blast
      moreover have "contents m = cs1 m" "fileNames m = fs1 m" using True same cs fs by auto
      ultimately show ?thesis by (auto simp: planned_def)
    next
      case False
      with that ns same cs fs n r show ?thesis by (auto simp: planned_def)
    qed
    moreover have "dom contents = set ns" "dom fileNames = set ns" using ih same cs fs ns by auto
    moreover have "ns = filter (\<lambda>n. watermark < n) (List.map_filter sequenceNumber (name # names))"
      using ih n ns by (simp add: List.map_filter_simps)
    ultimately show ?thesis by blast
  qed
qed (simp add: List.map_filter_simps)

text \<open>
  (C25) The plan is the numbers of the \<^verbatim>\<open>.sql\<close> files above the watermark, in ascending order, and what is run for a
  number is the content of a file of that number: no migration at or below the watermark runs again, and
  none above it is left out of the plan.
\<close>

theorem plan_is_ascending:
  assumes "planMigrations read watermark names = Inr (ns, contents, fileNames)"
  shows "sorted ns \<and> mset ns = mset (filter (\<lambda>n. watermark < n) (List.map_filter sequenceNumber names)) \<and>
    (\<forall>n \<in> set ns. watermark < n \<and> (\<exists>name \<in> set names. fileNames n = Some name \<and> sequenceNumber name = Some n \<and>
      read name = Inr (the (contents n))))"
proof -
  obtain ns1 where p: "planFiles read watermark names = Inr (ns1, contents, fileNames)" and ns: "ns = sort ns1"
    using assms by (auto simp: planMigrations_def split: sum.splits)
  from planFiles_spec [OF p] ns show ?thesis by (auto simp: planned_def)
qed

definition sample_files :: "string \<Rightarrow> error + string" where
  "sample_files name = (if name = ''1.sql'' then Inr ''CREATE TABLE a'' else if name = ''01.sql'' then Inr ''CREATE TABLE b''
     else if name = ''2.add.sql'' then Inr ''CREATE TABLE c'' else Inl (NewError name))"

theorem plan_is_ascending_witness:
  "case planMigrations sample_files 0 [''2.add.sql'', ''1.sql'', ''README''] of
     Inr (ns, contents, fileNames) \<Rightarrow> ns = [1, 2] \<and> sorted ns
   | Inl e \<Rightarrow> False"
proof (cases "planMigrations sample_files 0 [''2.add.sql'', ''1.sql'', ''README'']")
  case (Inl e)
  have "\<not> isl (planMigrations sample_files 0 [''2.add.sql'', ''1.sql'', ''README''])" by code_simp
  with Inl show ?thesis by simp
next
  case (Inr x)
  then obtain ns contents fileNames where x: "planMigrations sample_files 0 [''2.add.sql'', ''1.sql'', ''README''] = Inr (ns, contents, fileNames)"
    by (cases x) auto
  have "fst (projr (planMigrations sample_files 0 [''2.add.sql'', ''1.sql'', ''README''])) = [1, 2]" by code_simp
  with x plan_is_ascending [OF x] show ?thesis by simp
qed

text \<open>Of two files with the same number only the later one in the directory is kept.\<close>

lemma same_number_drops_a_file:
  "map_sum id (\<lambda>(ns, contents, _). (ns, map contents ns)) (planMigrations sample_files 0 [''01.sql'', ''1.sql'']) =
   Inr ([1, 1], [Some ''CREATE TABLE a'', Some ''CREATE TABLE a''])"
  by code_simp

end
