(* ===== verification/Migration_Files.thy ===== *)
theory Migration_Files
  imports Migrations
begin

section \<open>Migrations: what is sent for a file\<close>

text \<open>
  The statements sent for a file hold no comment that stripping would find, although their lines are trimmed after
  the comments are taken out; and they are sent in order up to the first that fails.
\<close>

subsection \<open>Text without comments\<close>

text \<open>The quote a text ends in, read from the quote \<open>q\<close>.\<close>

definition next_quote :: "char option \<Rightarrow> char \<Rightarrow> char option" where
  "next_quote q c =
     (case q of
        Some x \<Rightarrow> if c = x then None else q
      | None \<Rightarrow> if c = quote1 \<or> c = quote2 \<or> c = backtick then Some c else None)"

definition quote_after :: "char option \<Rightarrow> string \<Rightarrow> char option" where
  "quote_after q s = fold (\<lambda>c q. next_quote q c) s q"

primrec uncommented :: "char option \<Rightarrow> string \<Rightarrow> bool" where
  "uncommented q [] = True"
| "uncommented q (c # s) =
     (\<not> (q = None \<and> c = CHR ''-'' \<and> s \<noteq> [] \<and> hd s = CHR ''-'') \<and> uncommented (next_quote q c) s)"

lemma uncommented_strip: "uncommented q s \<Longrightarrow> strip_loop q s = s"
  by (induction s arbitrary: q) (auto simp: next_quote_def split: option.splits if_splits)

lemma strip_uncommented: "uncommented q (strip_loop q s)"
proof (induction q s rule: strip_loop.induct)
  case (3 ch s)
  show ?case
  proof (cases "ch = quote1 \<or> ch = quote2 \<or> ch = backtick")
    case True
    with 3(1) show ?thesis by (auto simp: next_quote_def)
  next
    case plain: False
    show ?thesis
    proof (cases "ch = CHR ''-'' \<and> s \<noteq> [] \<and> hd s = CHR ''-''")
      case True
      with plain 3(2) show ?thesis by (auto simp: next_quote_def split: list.split)
    next
      case False
      with plain 3(3) strip_hd [of s] show ?thesis by (cases s) (auto simp: next_quote_def)
    qed
  qed
qed (auto simp: next_quote_def)

subsection \<open>Trimming\<close>

text \<open>White space neither opens nor closes a quote, nor makes a comment.\<close>

definition quiet :: "string \<Rightarrow> bool" where
  "quiet s \<longleftrightarrow> list_all (\<lambda>c. c \<notin> {quote1, quote2, backtick, CHR ''-''}) s"

definition known_quote :: "char option \<Rightarrow> bool" where
  "known_quote q \<longleftrightarrow> q \<in> {None, Some quote1, Some quote2, Some backtick}"

lemma known_next: "known_quote q \<Longrightarrow> known_quote (next_quote q c)"
  by (auto simp: known_quote_def next_quote_def)

lemma known_after: "known_quote q \<Longrightarrow> known_quote (quote_after q s)"
  unfolding quote_after_def by (induction s arbitrary: q) (simp_all add: known_next)

lemma quiet_next: "known_quote q \<Longrightarrow> c \<notin> {quote1, quote2, backtick, CHR ''-''} \<Longrightarrow> next_quote q c = q"
  by (auto simp: known_quote_def next_quote_def)

lemma quiet_after: "known_quote q \<Longrightarrow> quiet a \<Longrightarrow> quote_after q a = q"
  unfolding quote_after_def quiet_def by (induction a) (simp_all add: quiet_next)

lemma quote_after_append [simp]: "quote_after q (s @ t) = quote_after (quote_after q s) t"
  by (simp add: quote_after_def)

lemma uncommented_prefix: "uncommented q (s @ t) \<Longrightarrow> uncommented q s"
  by (induction s arbitrary: q) auto

lemma uncommented_after_quiet: "known_quote q \<Longrightarrow> quiet a \<Longrightarrow> uncommented q (a @ s) \<Longrightarrow> uncommented q s"
  unfolding quiet_def by (induction a) (simp_all add: quiet_next)

lemma uncommented_line: "uncommented q (s @ nl # t) \<longleftrightarrow> uncommented q s \<and> uncommented (quote_after q s) (nl # t)"
  by (induction s arbitrary: q) (auto simp: quote_after_def hd_append)

definition trimmed :: "string \<Rightarrow> string \<Rightarrow> bool" where
  "trimmed s s' \<longleftrightarrow> (\<exists>a b. s = a @ s' @ b \<and> quiet a \<and> quiet b)"

lemma quiet_append [simp]: "quiet (a @ b) \<longleftrightarrow> quiet a \<and> quiet b"
  by (simp add: quiet_def)

lemma trimmed_uncommented: "known_quote q \<Longrightarrow> trimmed s s' \<Longrightarrow> uncommented q s \<Longrightarrow> uncommented q s'"
  unfolding trimmed_def by (auto dest: uncommented_after_quiet uncommented_prefix)

lemma trimmed_after: "known_quote q \<Longrightarrow> trimmed s s' \<Longrightarrow> quote_after q s = quote_after q s'"
  unfolding trimmed_def by (auto simp: quiet_after known_after)

lemma space_at_front:
  assumes "0 < space_at encs s"
  shows "take (space_at encs s) s \<in> set encs"
proof -
  obtain w where "find (\<lambda>w. HasPrefix s w) encs = Some w" "space_at encs s = length w"
    using assms by (auto simp: space_at_def split: option.splits)
  then show ?thesis by (auto simp: find_Some_iff HasPrefix_def)
qed

lemma trim_front_split:
  assumes "\<And>w. w \<in> set encs \<Longrightarrow> quiet w"
  shows "\<exists>a. s = a @ trim_front encs s \<and> quiet a"
  using assms
proof (induction encs s rule: trim_front.induct)
  case (1 encs s)
  show ?case
  proof (cases "0 < space_at encs s \<and> space_at encs s \<le> length s")
    case True
    then obtain a where a: "drop (space_at encs s) s = a @ trim_front encs (drop (space_at encs s) s)" "quiet a"
      using 1 by blast
    let ?w = "take (space_at encs s) s"
    have "quiet ?w" using 1(2) space_at_front True by blast
    moreover have "s = (?w @ a) @ trim_front encs s"
      using True a(1) by (subst trim_front.simps) (metis append.assoc append_take_drop_id)
    ultimately show ?thesis using a(2) by (metis quiet_append)
  next
    case False
    then have "trim_front encs s = s" by (subst trim_front.simps) auto
    then show ?thesis by (intro exI [of _ "[]"]) (simp add: quiet_def)
  qed
qed

lemma spaces_quiet: "list_all quiet spaceEncodings" "list_all quiet (map rev spaceEncodings)"
  by code_simp+

lemma TrimSpace_trimmed: "trimmed s (TrimSpace s)"
proof -
  obtain a where a: "s = a @ TrimLeftSpace s" "quiet a"
    using trim_front_split [of spaceEncodings s] spaces_quiet(1) unfolding TrimLeftSpace_def list_all_iff by blast
  let ?t = "TrimLeftSpace s"
  obtain b where b: "rev ?t = b @ trim_front (map rev spaceEncodings) (rev ?t)" "quiet b"
    using trim_front_split [of "map rev spaceEncodings" "rev ?t"] spaces_quiet(2) unfolding list_all_iff by blast
  then have "?t = TrimSpace s @ rev b" unfolding TrimSpace_def TrimRightSpace_def by (metis rev_append rev_rev_ident)
  moreover have "quiet (rev b)" using b(2) by (simp add: quiet_def)
  ultimately show ?thesis unfolding trimmed_def using a by (metis append.assoc)
qed

text \<open>Trimmed text has no white space at either end.\<close>

lemma space_at_0: "[] \<notin> set encs \<Longrightarrow> space_at encs s = 0 \<longleftrightarrow> (\<forall>w \<in> set encs. \<not> HasPrefix s w)"
  unfolding space_at_def by (auto simp: find_None_iff find_Some_iff split: option.split) (metis nth_mem)

lemma space_at_le: "space_at encs s \<le> length s"
  by (auto simp: space_at_def find_Some_iff HasPrefix_def split: option.split dest: arg_cong [of _ _ length])

lemma trim_front_done: "space_at encs (trim_front encs s) = 0"
proof (induction encs s rule: trim_front.induct)
  case (1 encs s)
  show ?case
  proof (cases "space_at encs s = 0")
    case True
    then have "trim_front encs s = s" by (subst trim_front.simps) simp
    with True show ?thesis by simp
  next
    case False
    with 1 space_at_le [of encs s] show ?thesis by (subst trim_front.simps) simp
  qed
qed

lemma trim_front_id: "space_at encs s = 0 \<Longrightarrow> trim_front encs s = s"
  by (subst trim_front.simps) simp

lemma TrimSpace_idem: "TrimSpace (TrimSpace s) = TrimSpace s"
proof -
  let ?t = "TrimLeftSpace s" and ?u = "TrimSpace s"
  have ne: "[] \<notin> set spaceEncodings" by (simp add: spaceEncodings_def)
  have "\<exists>b. rev ?t = b @ trim_front (map rev spaceEncodings) (rev ?t)"
    using trim_front_split [of "map rev spaceEncodings" "rev ?t"] spaces_quiet(2) unfolding list_all_iff by blast
  then obtain b where "?t = ?u @ rev b" unfolding TrimSpace_def TrimRightSpace_def by (metis rev_append rev_rev_ident)
  moreover have "space_at spaceEncodings ?t = 0" unfolding TrimLeftSpace_def by (rule trim_front_done)
  ultimately have "space_at spaceEncodings ?u = 0" unfolding space_at_0 [OF ne] by (auto simp: HasPrefix_def)
  then have "TrimLeftSpace ?u = ?u" by (simp add: TrimLeftSpace_def trim_front_id)
  moreover have "TrimRightSpace ?u = ?u"
    unfolding TrimSpace_def TrimRightSpace_def by (simp add: trim_front_id trim_front_done)
  ultimately show ?thesis by (simp add: TrimSpace_def)
qed

subsection \<open>Lines\<close>

lemma Index_at: "Index s sub = Some i \<Longrightarrow> s = take i s @ sub @ drop (i + length sub) s"
proof (induction s arbitrary: i)
  case (Cons c s)
  show ?case
  proof (cases "HasPrefix (c # s) sub")
    case True
    then have "take (length sub) (c # s) = sub" by (simp add: HasPrefix_def)
    then have "c # s = sub @ drop (length sub) (c # s)" by (metis append_take_drop_id)
    moreover have "i = 0" using Cons(2) True by (simp only: Index.simps if_True option.inject)
    ultimately show ?thesis by simp
  next
    case False
    with Cons(2) have "map_option Suc (Index s sub) = Some i" by (simp only: Index.simps if_False)
    then obtain j where "Index s sub = Some j" "i = Suc j" by auto
    with Cons(1) show ?thesis by simp
  qed
qed (auto split: if_splits)

lemma Split_not_Nil: "sep \<noteq> [] \<Longrightarrow> Split s sep \<noteq> []"
  by (subst Split.simps) (auto split: option.split)

lemma Join_Split: "sep \<noteq> [] \<Longrightarrow> Join (Split s sep) sep = s"
proof (induction s sep rule: Split.induct)
  case (1 s sep)
  show ?case
  proof (cases "Index s sep")
    case None
    with 1(2) show ?thesis by (subst Split.simps) simp
  next
    case (Some i)
    show ?thesis
    proof (cases "s = []")
      case False
      let ?r = "drop (i + length sep) s"
      obtain y ys where y: "Split ?r sep = y # ys" using Split_not_Nil [OF 1(2)] by (metis list.exhaust)
      have "Join (Split ?r sep) sep = ?r" using 1 Some False by blast
      then have "Join (take i s # Split ?r sep) sep = take i s @ sep @ ?r" by (simp add: y)
      then show ?thesis using 1(2) Some False Index_at [OF Some] by (subst Split.simps) simp
    qed (use 1(2) Some in \<open>subst Split.simps, simp\<close>)
  qed
qed

lemma uncommented_trimmed_lines:
  assumes "known_quote q" "\<And>l. trimmed l (trim l)" "uncommented q (Join ls [nl])"
  shows "uncommented q (Join (map trim ls) [nl])"
  using assms(1,3)
proof (induction ls "[nl]" arbitrary: q rule: Join.induct)
  case (2 x)
  with trimmed_uncommented [OF 2(1) assms(2)] show ?case by simp
next
  case (3 x y ys)
  have x: "uncommented q (trim x)" "quote_after q (trim x) = quote_after q x"
    using 3(3) trimmed_uncommented [OF 3(2) assms(2)] trimmed_after [OF 3(2) assms(2)] by (auto simp: uncommented_line)
  have "next_quote (quote_after q x) nl = quote_after q x" by (rule quiet_next [OF known_after [OF 3(2)]]) simp
  then have "uncommented (quote_after q x) (Join (map trim (y # ys)) [nl])"
    using 3(1) [OF known_after [OF 3(2)]] 3(3) by (simp add: uncommented_line)
  with x \<open>next_quote _ _ = _\<close> show ?case by (simp add: uncommented_line)
qed simp

lemma segment_statement_clean:
  assumes "segment_statement driverName segment = Some stm"
  shows "stm \<noteq> []" "TrimSpace stm = stm" "stripLineComments stm = stm"
proof -
  let ?l = "trimLines TrimSpace (stripLineComments (TrimSpace segment))"
  have s: "stm = TrimSpace ?l" "stm \<noteq> []" using assms by (auto simp: segment_statement_def Let_def split: if_splits)
  then show "stm \<noteq> []" "TrimSpace stm = stm" by (simp_all add: TrimSpace_idem)
  have k: "known_quote None" by (simp add: known_quote_def)
  have "uncommented None (stripLineComments (TrimSpace segment))" unfolding stripLineComments_def by (rule strip_uncommented)
  then have "uncommented None ?l"
    unfolding trimLines_def by (intro uncommented_trimmed_lines k TrimSpace_trimmed) (simp add: Join_Split)
  then have "uncommented None stm" unfolding s(1) by (rule trimmed_uncommented [OF k TrimSpace_trimmed])
  then show "stripLineComments stm = stm" unfolding stripLineComments_def by (rule uncommented_strip)
qed

subsection \<open>Running a file\<close>

lemma runStatements_spec:
  "runStatements ans i ss = (out, err) \<Longrightarrow>
   case err of
     None \<Rightarrow> out = ss \<and> (\<forall>j < length ss. ans (i + j) = None)
   | Some e \<Rightarrow> \<exists>before stm rest. ss = before @ stm # rest \<and> out = before @ [stm] \<and>
       ans (i + length before) = Some e \<and> (\<forall>j < length before. ans (i + j) = None)"
proof (induction ans i ss arbitrary: out rule: runStatements.induct)
  case (2 ans i s ss)
  show ?case
  proof (cases "ans i")
    case ok: None
    with 2(2) obtain out1 where r: "runStatements ans (i + 1) ss = (out1, err)" "out = s # out1" by (auto split: prod.splits)
    note ih = 2(1) [OF ok r(1)]
    have later: "\<forall>j < Suc n. ans (i + j) = None" if "\<forall>j < n. ans (i + 1 + j) = None" for n
      using that ok by (auto simp: less_Suc_eq_0_disj)
    show ?thesis
    proof (cases err)
      case None
      with ih later [of "length ss"] r(2) show ?thesis by simp
    next
      case (Some e)
      with ih obtain before stm rest where b: "ss = before @ stm # rest" "out1 = before @ [stm]"
        "ans (i + 1 + length before) = Some e" "\<forall>j < length before. ans (i + 1 + j) = None" by auto
      have "ans (i + length (s # before)) = Some e" "\<forall>j < length (s # before). ans (i + j) = None"
        using b(3) later [OF b(4)] by simp_all
      with Some r(2) b(1,2) show ?thesis unfolding Some option.case
        by (intro exI [of _ "s # before"] exI [of _ stm] exI [of _ rest] conjI) simp_all
    qed
  next
    case (Some e)
    with 2(2) have "err = Some e" "out = [s]" by auto
    with Some show ?thesis by (auto intro!: exI [of _ "[]"])
  qed
qed simp

text \<open>
  (C38) The statements of a migration run one after the other, in the order of the file, up to the first that fails:
  what is sent is a beginning of the list of statements that ends with the failure, or all of it. None is empty,
  none begins or ends with white space, and none holds a \<^verbatim>\<open>--\<close> comment outside of quotes, although its lines are
  trimmed after stripping those. (Comments of other forms are the database's business and stay.)
\<close>

theorem migration_runs_its_statements:
  assumes "statements = migrationStatements driverName content" "runStatements ans 0 statements = (out, err)"
  shows "(case err of
       None \<Rightarrow> out = statements \<and> (\<forall>j < length statements. ans j = None)
     | Some e \<Rightarrow> \<exists>before stm rest. statements = before @ stm # rest \<and> out = before @ [stm] \<and>
         ans (length before) = Some e \<and> (\<forall>j < length before. ans j = None)) \<and>
    (\<forall>stm \<in> set statements. stm \<noteq> [] \<and> TrimSpace stm = stm \<and> stripLineComments stm = stm)"
proof -
  have "stm \<noteq> [] \<and> TrimSpace stm = stm \<and> stripLineComments stm = stm" if "stm \<in> set statements" for stm
    using that segment_statement_clean unfolding assms(1) by (auto simp: migrationStatements_def List.map_filter_def)
  with runStatements_spec [OF assms(2)] show ?thesis unfolding add_0 by blast
qed

definition sample_file :: string where
  "sample_file = Join [''-- the shop'', ''CREATE TABLE a (x INT);'', ''-- DRIVER: sqlite'', ''PRAGMA x;'',
     ''  INSERT INTO a -- one'', '' VALUES (1)''] [nl]"

lemma sample_statements:
  "migrationStatements ''mysql'' sample_file = [''CREATE TABLE a (x INT)'', ''INSERT INTO a'' @ [nl] @ ''VALUES (1)'']"
  by code_simp

theorem migration_runs_its_statements_witness:
  "runStatements (\<lambda>j. if j = 0 then Some ErrNoRows else None) 0 (migrationStatements ''mysql'' sample_file) =
     ([''CREATE TABLE a (x INT)''], Some ErrNoRows) \<and>
   stripLineComments ''CREATE TABLE a (x INT)'' = ''CREATE TABLE a (x INT)''"
proof -
  let ?ans = "\<lambda>j :: nat. if j = 0 then Some ErrNoRows else None"
  have r: "runStatements ?ans 0 (migrationStatements ''mysql'' sample_file) = ([''CREATE TABLE a (x INT)''], Some ErrNoRows)"
    by (simp add: sample_statements)
  from migration_runs_its_statements [OF refl r] r show ?thesis by (simp add: sample_statements)
qed

end
