(* ===== verification/Migration_Lock.thy ===== *)
theory Migration_Lock
  imports Migrations
begin

section \<open>Migrations: the lock (Migrate of db.go)\<close>

text \<open>
  Several processes may call \<^verbatim>\<open>Migrate\<close> for one sequence at once. They share the table \<^verbatim>\<open>sequel_migrations\<close>, a row
  per migration with \<^verbatim>\<open>completed\<close> and \<^verbatim>\<open>locked_before\<close>; each statement on it is one step. A runner works through
  its plan: it inserts the row of the next migration, looks whether it is completed, tries to take its lock
  for 15 seconds, runs the file while it renews the lock every 5 seconds, and marks the row or releases the
  lock. Times are milliseconds of the database's clock.

  A step of the clock is \<^emph>\<open>timely\<close> if it does not pass the end of the lease of a runner at work, which is what
  the renewals are for; the relation takes that as an argument, so that each theorem says whether it needs it.
\<close>

record mig_row =
  mr_completed :: bool
  mr_locked :: int

datatype phase =
    Inserting | Checking | Locking
  | Running | Marking | Releasing error
  | Returned "error option"

record runner =
  rn_todo :: "int list"
  rn_phase :: phase
  rn_lease :: int

record mig =
  mg_clock :: int
  mg_table :: "int \<rightharpoonup> mig_row"
  mg_runners :: "nat \<Rightarrow> runner"
  mg_marked :: "int list"

definition lease :: int where
  "lease = 15000"

text \<open>The head of the loop.\<close>

definition next_phase :: "int list \<Rightarrow> phase" where
  "next_phase todo = (if todo = [] then Returned None else Inserting)"

text \<open>A runner at work on its migration.\<close>

definition at_work :: "runner \<Rightarrow> bool" where
  "at_work rn \<longleftrightarrow> (case rn_phase rn of Running \<Rightarrow> True | Marking \<Rightarrow> True | Releasing _ \<Rightarrow> True | _ \<Rightarrow> False)"

abbreviation set_phase :: "nat \<Rightarrow> phase \<Rightarrow> mig \<Rightarrow> mig" where
  "set_phase i p s \<equiv> s\<lparr>mg_runners := (mg_runners s)(i := (mg_runners s i)\<lparr>rn_phase := p\<rparr>)\<rparr>"

abbreviation move_on :: "nat \<Rightarrow> int list \<Rightarrow> mig \<Rightarrow> mig" where
  "move_on i ns s \<equiv> s\<lparr>mg_runners := (mg_runners s)(i := (mg_runners s i)\<lparr>rn_todo := ns, rn_phase := next_phase ns\<rparr>)\<rparr>"

abbreviation set_row :: "int \<Rightarrow> mig_row \<Rightarrow> mig \<Rightarrow> mig" where
  "set_row n row s \<equiv> s\<lparr>mg_table := (mg_table s)(n \<mapsto> row)\<rparr>"

inductive mig_step :: "bool \<Rightarrow> mig \<Rightarrow> mig \<Rightarrow> bool" for timely where
  insert_new: "\<lbrakk>rn_phase (mg_runners s i) = Inserting; rn_todo (mg_runners s i) = n # ns; mg_table s n = None\<rbrakk> \<Longrightarrow>
    mig_step timely s (set_phase i Checking (set_row n \<lparr>mr_completed = False, mr_locked = mg_clock s\<rparr> s))"
| insert_old: "\<lbrakk>rn_phase (mg_runners s i) = Inserting; rn_todo (mg_runners s i) = n # ns; mg_table s n = Some row\<rbrakk> \<Longrightarrow>
    mig_step timely s (set_phase i Checking s)"
| check_completed: "\<lbrakk>rn_phase (mg_runners s i) = Checking; rn_todo (mg_runners s i) = n # ns; mg_table s n = Some row;
    mr_completed row\<rbrakk> \<Longrightarrow> mig_step timely s (move_on i ns s)"
| check_open: "\<lbrakk>rn_phase (mg_runners s i) = Checking; rn_todo (mg_runners s i) = n # ns; mg_table s n = Some row;
    \<not> mr_completed row\<rbrakk> \<Longrightarrow> mig_step timely s (set_phase i Locking s)"
| lock_taken: "\<lbrakk>rn_phase (mg_runners s i) = Locking; rn_todo (mg_runners s i) = n # ns; mg_table s n = Some row;
    mr_locked row \<le> mg_clock s; \<not> mr_completed row\<rbrakk> \<Longrightarrow>
    mig_step timely s (set_row n (row\<lparr>mr_locked := mg_clock s + lease\<rparr>)
      (s\<lparr>mg_runners := (mg_runners s)(i := (mg_runners s i)\<lparr>rn_phase := Running, rn_lease := mg_clock s + lease\<rparr>)\<rparr>))"
| lock_busy: "\<lbrakk>rn_phase (mg_runners s i) = Locking; rn_todo (mg_runners s i) = n # ns; mg_table s n = Some row;
    mg_clock s < mr_locked row \<or> mr_completed row\<rbrakk> \<Longrightarrow> mig_step timely s (set_phase i Inserting s)"
| renewed: "\<lbrakk>rn_phase (mg_runners s i) = Running; rn_todo (mg_runners s i) = n # ns; mg_table s n = Some row\<rbrakk> \<Longrightarrow>
    mig_step timely s (set_row n (row\<lparr>mr_locked := mg_clock s + lease\<rparr>)
      (s\<lparr>mg_runners := (mg_runners s)(i := (mg_runners s i)\<lparr>rn_lease := mg_clock s + lease\<rparr>)\<rparr>))"
| run_ok: "rn_phase (mg_runners s i) = Running \<Longrightarrow> mig_step timely s (set_phase i Marking s)"
| run_failed: "rn_phase (mg_runners s i) = Running \<Longrightarrow> mig_step timely s (set_phase i (Releasing e) s)"
| released: "\<lbrakk>rn_phase (mg_runners s i) = Releasing e; rn_todo (mg_runners s i) = n # ns; mg_table s n = Some row\<rbrakk> \<Longrightarrow>
    mig_step timely s (set_row n (row\<lparr>mr_locked := mg_clock s\<rparr>) (set_phase i (Returned (Some e)) s))"
| release_failed: "rn_phase (mg_runners s i) = Releasing e \<Longrightarrow> mig_step timely s (set_phase i (Returned (Some e)) s)"
| marked: "\<lbrakk>rn_phase (mg_runners s i) = Marking; rn_todo (mg_runners s i) = n # ns; mg_table s n = Some row\<rbrakk> \<Longrightarrow>
    mig_step timely s (set_row n (row\<lparr>mr_completed := True, mr_locked := mg_clock s\<rparr>)
      (move_on i ns (s\<lparr>mg_marked := n # mg_marked s\<rparr>)))"
| statement_failed: "rn_phase (mg_runners s i) \<in> {Inserting, Checking, Locking, Marking} \<Longrightarrow>
    mig_step timely s (set_phase i (Returned (Some e)) s)"
| tick: "\<lbrakk>mg_clock s \<le> t; timely \<longrightarrow> (\<forall>i. at_work (mg_runners s i) \<longrightarrow> t < rn_lease (mg_runners s i))\<rbrakk> \<Longrightarrow>
    mig_step timely s (s\<lparr>mg_clock := t\<rparr>)"

text \<open>Every runner starts at the head of its loop, with its own plan, on whatever the table already holds.\<close>

definition mig_start :: "int \<Rightarrow> (int \<rightharpoonup> mig_row) \<Rightarrow> (nat \<Rightarrow> int list) \<Rightarrow> mig" where
  "mig_start t table plan =
     \<lparr>mg_clock = t, mg_table = table,
      mg_runners = (\<lambda>i. \<lparr>rn_todo = plan i, rn_phase = next_phase (plan i), rn_lease = 0\<rparr>), mg_marked = []\<rparr>"

definition is_completed :: "mig \<Rightarrow> int \<Rightarrow> bool" where
  "is_completed s n \<longleftrightarrow> (case mg_table s n of None \<Rightarrow> False | Some row \<Rightarrow> mr_completed row)"

subsection \<open>Order\<close>

text \<open>What a runner has gone past is completed, and stays so.\<close>

definition order_inv :: "(nat \<Rightarrow> int list) \<Rightarrow> mig \<Rightarrow> bool" where
  "order_inv plan s \<longleftrightarrow>
     (\<forall>i. (\<exists>past. plan i = past @ rn_todo (mg_runners s i) \<and> (\<forall>m \<in> set past. is_completed s m)) \<and>
          (rn_phase (mg_runners s i) = Returned None \<longrightarrow> rn_todo (mg_runners s i) = []))"

lemma completed_mono: "mig_step timely s s' \<Longrightarrow> is_completed s m \<Longrightarrow> is_completed s' m"
  by (induction rule: mig_step.induct) (auto simp: is_completed_def split: option.splits)

lemma order_step:
  assumes "order_inv plan s" "\<And>m. is_completed s m \<Longrightarrow> is_completed s' m"
    "\<And>i. rn_todo (mg_runners s' i) = rn_todo (mg_runners s i) \<or>
       (\<exists>n. rn_todo (mg_runners s i) = n # rn_todo (mg_runners s' i) \<and> is_completed s' n)"
    "\<And>i. rn_phase (mg_runners s' i) = Returned None \<Longrightarrow> rn_todo (mg_runners s' i) = []"
  shows "order_inv plan s'"
  unfolding order_inv_def
proof (intro allI conjI impI)
  fix i
  obtain past where p: "plan i = past @ rn_todo (mg_runners s i)" "\<forall>m \<in> set past. is_completed s m"
    using assms(1) unfolding order_inv_def by blast
  show "\<exists>past. plan i = past @ rn_todo (mg_runners s' i) \<and> (\<forall>m \<in> set past. is_completed s' m)"
  proof (cases "rn_todo (mg_runners s' i) = rn_todo (mg_runners s i)")
    case True
    with p assms(2) show ?thesis by (intro exI [of _ past]) auto
  next
    case False
    then obtain n where "rn_todo (mg_runners s i) = n # rn_todo (mg_runners s' i)" "is_completed s' n"
      using assms(3) [of i] by blast
    with p assms(2) show ?thesis by (intro exI [of _ "past @ [n]"]) auto
  qed
qed (rule assms(4))

lemma next_phase_returned: "next_phase ns = Returned None \<longleftrightarrow> ns = []"
  by (simp add: next_phase_def)

lemma order_inv_step: "mig_step timely s s' \<Longrightarrow> order_inv plan s \<Longrightarrow> order_inv plan s'"
proof (rule order_step)
  assume st: "mig_step timely s s'" and inv: "order_inv plan s"
  then have r: "rn_phase (mg_runners s i) = Returned None \<Longrightarrow> rn_todo (mg_runners s i) = []" for i
    unfolding order_inv_def by blast
  fix i
  from st show "rn_todo (mg_runners s' i) = rn_todo (mg_runners s i) \<or>
       (\<exists>n. rn_todo (mg_runners s i) = n # rn_todo (mg_runners s' i) \<and> is_completed s' n)"
    by cases (auto simp: is_completed_def)
  from st r show "rn_phase (mg_runners s' i) = Returned None \<Longrightarrow> rn_todo (mg_runners s' i) = []"
    by cases (auto simp: next_phase_returned split: if_splits)
qed (assumption, metis completed_mono)

lemma order_inv_start: "order_inv plan (mig_start t table plan)"
  by (simp add: order_inv_def mig_start_def next_phase_returned)

lemma order_reachable: "(mig_step timely)\<^sup>*\<^sup>* (mig_start t table plan) s \<Longrightarrow> order_inv plan s"
  by (induction rule: rtranclp_induct) (use order_inv_start order_inv_step in blast)+

text \<open>
  (C8) Migrations run in order: while a runner is at work on a migration, every migration of its plan with a
  smaller number is completed, whatever the other runners do and however late its renewals are.
\<close>

theorem migrations_in_order:
  assumes "(mig_step timely)\<^sup>*\<^sup>* (mig_start t table plan) s" "sorted (plan i)"
    and "at_work (mg_runners s i)" "rn_todo (mg_runners s i) = n # ns"
  shows "\<forall>m \<in> set (plan i). m < n \<longrightarrow> is_completed s m"
proof -
  obtain past where p: "plan i = past @ n # ns" "\<forall>m \<in> set past. is_completed s m"
    using order_reachable [OF assms(1)] assms(4) unfolding order_inv_def by metis
  with assms(2) show ?thesis by (fastforce simp: sorted_append)
qed

text \<open>
  (C24) When \<^verbatim>\<open>Migrate\<close> returns nil, every migration of its plan is completed.
\<close>

theorem migrate_completes_plan:
  assumes "(mig_step timely)\<^sup>*\<^sup>* (mig_start t table plan) s" "rn_phase (mg_runners s i) = Returned None"
  shows "\<forall>m \<in> set (plan i). is_completed s m"
proof -
  obtain past where p: "plan i = past @ rn_todo (mg_runners s i)" "\<forall>m \<in> set past. is_completed s m"
    "rn_todo (mg_runners s i) = []"
    using order_reachable [OF assms(1)] assms(2) unfolding order_inv_def by metis
  then show ?thesis by simp
qed

subsection \<open>Exclusion\<close>

text \<open>Under timely steps, a runner at work holds the lock of its row, which is not completed.\<close>

definition holds :: "mig \<Rightarrow> nat \<Rightarrow> int \<Rightarrow> bool" where
  "holds s i n \<longleftrightarrow> at_work (mg_runners s i) \<and> rn_todo (mg_runners s i) \<noteq> [] \<and> hd (rn_todo (mg_runners s i)) = n"

definition lock_inv :: "mig \<Rightarrow> bool" where
  "lock_inv s \<longleftrightarrow>
     (\<forall>i. at_work (mg_runners s i) \<longrightarrow> rn_todo (mg_runners s i) \<noteq> [] \<and> mg_clock s < rn_lease (mg_runners s i)) \<and>
     (\<forall>i n. holds s i n \<longrightarrow> (\<exists>row. mg_table s n = Some row \<and> \<not> mr_completed row \<and> mr_locked row = rn_lease (mg_runners s i))) \<and>
     (\<forall>i j n. holds s i n \<and> holds s j n \<longrightarrow> i = j) \<and>
     distinct (mg_marked s) \<and> (\<forall>n \<in> set (mg_marked s). is_completed s n)"

lemma lock_invD:
  assumes "lock_inv s" "at_work (mg_runners s i)"
  obtains n ns row where "rn_todo (mg_runners s i) = n # ns" "holds s i n" "mg_table s n = Some row" "\<not> mr_completed row"
    "mr_locked row = rn_lease (mg_runners s i)" "mg_clock s < rn_lease (mg_runners s i)"
proof -
  obtain n ns where t: "rn_todo (mg_runners s i) = n # ns" using assms unfolding lock_inv_def by (meson neq_Nil_conv)
  moreover have "holds s i n" using t assms(2) by (simp add: holds_def)
  moreover have "mg_clock s < rn_lease (mg_runners s i)" using assms unfolding lock_inv_def by blast
  ultimately show thesis using assms(1) that unfolding lock_inv_def by blast
qed

text \<open>A step that takes no lock: runners at work after it were so before, on the same lease.\<close>

lemma lock_inv_leave:
  assumes inv: "lock_inv s" and t: "mg_table s' = mg_table s" "mg_clock s' = mg_clock s" "mg_marked s' = mg_marked s"
    and w: "\<And>j. at_work (mg_runners s' j) \<Longrightarrow> at_work (mg_runners s j) \<and>
      rn_todo (mg_runners s' j) = rn_todo (mg_runners s j) \<and> rn_lease (mg_runners s' j) = rn_lease (mg_runners s j)"
  shows "lock_inv s'"
proof -
  have h: "holds s' j n \<Longrightarrow> holds s j n \<and> rn_lease (mg_runners s' j) = rn_lease (mg_runners s j)" for j n
    using w [of j] by (simp add: holds_def)
  have "is_completed s' n = is_completed s n" for n by (simp add: is_completed_def t)
  with inv h w t show ?thesis unfolding lock_inv_def by (metis (no_types, lifting))
qed

text \<open>A step that changes one row, which at most the runner \<open>i\<close> of the step holds before and after.\<close>

lemma lock_inv_row:
  assumes inv: "lock_inv s" and c: "mg_clock s' = mg_clock s"
    and t: "\<And>m. m \<noteq> n \<Longrightarrow> mg_table s' m = mg_table s m"
    and others: "\<And>j. j \<noteq> i \<Longrightarrow> mg_runners s' j = mg_runners s j \<and> \<not> holds s j n"
    and own: "at_work (mg_runners s' i) \<Longrightarrow> holds s' i n \<and> mg_clock s < rn_lease (mg_runners s' i) \<and>
      (\<exists>row. mg_table s' n = Some row \<and> \<not> mr_completed row \<and> mr_locked row = rn_lease (mg_runners s' i))"
    and m: "distinct (mg_marked s')" "\<forall>k \<in> set (mg_marked s'). is_completed s' k"
  shows "lock_inv s'"
proof -
  have a: "at_work (mg_runners s' j) \<Longrightarrow> rn_todo (mg_runners s' j) \<noteq> [] \<and> mg_clock s' < rn_lease (mg_runners s' j)" for j
    using inv own others [of j] c unfolding lock_inv_def holds_def by (cases "j = i") auto
  have i: "holds s' i k \<Longrightarrow> k = n" for k using own by (auto simp: holds_def)
  have h: "holds s' j k \<Longrightarrow> holds s j k \<and> k \<noteq> n \<and> mg_runners s' j = mg_runners s j" if "j \<noteq> i" for j k
    using others [OF that] by (auto simp: holds_def)
  have r: "\<exists>row. mg_table s' k = Some row \<and> \<not> mr_completed row \<and> mr_locked row = rn_lease (mg_runners s' j)"
    if "holds s' j k" for j k
  proof (cases "j = i")
    case True
    with that i own show ?thesis by (auto simp: holds_def)
  next
    case False
    from h [OF this that] t [of k] inv show ?thesis unfolding lock_inv_def by metis
  qed
  have "holds s' j k \<Longrightarrow> holds s' j' k \<Longrightarrow> j = j'" for j j' k
    using inv h i unfolding lock_inv_def by metis
  with a r m show ?thesis unfolding lock_inv_def by blast
qed

lemma at_work_phase [simp]:
  "rn_phase rn = Running \<Longrightarrow> at_work rn" "rn_phase rn = Marking \<Longrightarrow> at_work rn" "rn_phase rn = Releasing e \<Longrightarrow> at_work rn"
  "rn_phase rn = Inserting \<Longrightarrow> \<not> at_work rn" "rn_phase rn = Checking \<Longrightarrow> \<not> at_work rn"
  "rn_phase rn = Locking \<Longrightarrow> \<not> at_work rn" "rn_phase rn = Returned r \<Longrightarrow> \<not> at_work rn"
  by (simp_all add: at_work_def)

lemma next_phase_idle [simp]: "\<not> at_work (rn\<lparr>rn_todo := ns, rn_phase := next_phase ns\<rparr>)"
  by (simp add: next_phase_def at_work_def)

lemma only_holder: "lock_inv s \<Longrightarrow> holds s i n \<Longrightarrow> j \<noteq> i \<Longrightarrow> \<not> holds s j n"
  unfolding lock_inv_def by blast

lemma marks_kept:
  assumes "lock_inv s" "mg_marked s' = mg_marked s" "\<And>m. is_completed s m \<Longrightarrow> is_completed s' m"
  shows "distinct (mg_marked s')" "\<forall>k \<in> set (mg_marked s'). is_completed s' k"
  using assms unfolding lock_inv_def by auto

lemma lock_inv_step:
  assumes st: "mig_step True s s'" and inv: "lock_inv s"
  shows "lock_inv s'"
  using st
proof cases
  case (insert_new i n ns)
  have free: "\<not> holds s j n" for j using inv insert_new(4) unfolding lock_inv_def by fastforce
  show ?thesis
  proof (rule lock_inv_row [OF inv, where n = n and i = i])
    show "distinct (mg_marked s')" "\<forall>k \<in> set (mg_marked s'). is_completed s' k"
      using marks_kept [OF inv, of s'] completed_mono [OF st] insert_new(1) by auto
  qed (use insert_new free in auto)
next
  case (lock_taken i n ns row)
  have free: "\<not> holds s j n" for j
  proof
    assume h: "holds s j n"
    then have "at_work (mg_runners s j)" by (simp add: holds_def)
    from lock_invD [OF inv this] h lock_taken(4,5) show False by (metis holds_def linorder_not_le list.sel(1) option.inject)
  qed
  show ?thesis
  proof (rule lock_inv_row [OF inv, where n = n and i = i])
    show "distinct (mg_marked s')" "\<forall>k \<in> set (mg_marked s'). is_completed s' k"
      using marks_kept [OF inv, of s'] completed_mono [OF st] lock_taken(1) by auto
  qed (use lock_taken free in \<open>auto simp: holds_def lease_def\<close>)
next
  case (renewed i n ns row)
  have h: "holds s i n" using renewed by (simp add: holds_def)
  then have open_row: "\<not> mr_completed row" using inv renewed(4) unfolding lock_inv_def by fastforce
  show ?thesis
  proof (rule lock_inv_row [OF inv, where n = n and i = i])
    show "distinct (mg_marked s')" "\<forall>k \<in> set (mg_marked s'). is_completed s' k"
      using marks_kept [OF inv, of s'] completed_mono [OF st] renewed(1) by auto
    show "mg_runners s' j = mg_runners s j \<and> \<not> holds s j n" if "j \<noteq> i" for j
      using that renewed(1) only_holder [OF inv h] by simp
  qed (use renewed open_row in \<open>auto simp: holds_def lease_def\<close>)
next
  case (released i e n ns row)
  have h: "holds s i n" using released by (simp add: holds_def)
  show ?thesis
  proof (rule lock_inv_row [OF inv, where n = n and i = i])
    show "distinct (mg_marked s')" "\<forall>k \<in> set (mg_marked s'). is_completed s' k"
      using marks_kept [OF inv, of s'] completed_mono [OF st] released(1) by auto
    show "mg_runners s' j = mg_runners s j \<and> \<not> holds s j n" if "j \<noteq> i" for j
      using that released(1) only_holder [OF inv h] by simp
  qed (use released in auto)
next
  case (marked i n ns row)
  have h: "holds s i n" using marked by (simp add: holds_def)
  then have "\<not> is_completed s n" using inv unfolding lock_inv_def is_completed_def by fastforce
  then have new: "n \<notin> set (mg_marked s)" using inv unfolding lock_inv_def by blast
  show ?thesis
  proof (rule lock_inv_row [OF inv, where n = n and i = i])
    show "distinct (mg_marked s')" using new inv marked(1) by (simp add: lock_inv_def)
    show "\<forall>k \<in> set (mg_marked s'). is_completed s' k"
      using inv completed_mono [OF st] marked(1) by (auto simp: lock_inv_def is_completed_def)
    show "mg_runners s' j = mg_runners s j \<and> \<not> holds s j n" if "j \<noteq> i" for j
      using that marked(1) only_holder [OF inv h] by simp
  qed (use marked in auto)
next
  case (tick t)
  then show ?thesis using inv unfolding lock_inv_def holds_def is_completed_def by auto
qed (rule lock_inv_leave [OF inv]; auto split: if_splits)+

lemma lock_inv_start: "lock_inv (mig_start t table plan)"
proof -
  have "\<not> at_work (mg_runners (mig_start t table plan) i)" for i
    by (simp add: mig_start_def at_work_def next_phase_def)
  then show ?thesis unfolding lock_inv_def holds_def by (simp add: mig_start_def)
qed

lemma lock_reachable: "(mig_step True)\<^sup>*\<^sup>* (mig_start t table plan) s \<Longrightarrow> lock_inv s"
  by (induction rule: rtranclp_induct) (use lock_inv_start lock_inv_step in blast)+

text \<open>
  (C7) As long as leases are renewed in time, two runners are never at work on the same migration, and no
  migration is marked completed twice: each runs to completion at most once among all the processes.
\<close>

theorem one_runner_per_migration:
  assumes "(mig_step True)\<^sup>*\<^sup>* (mig_start t table plan) s"
  shows "distinct (mg_marked s) \<and>
    (\<forall>i j. at_work (mg_runners s i) \<and> at_work (mg_runners s j) \<and>
       hd (rn_todo (mg_runners s i)) = hd (rn_todo (mg_runners s j)) \<longrightarrow> i = j)"
proof -
  note inv = lock_reachable [OF assms]
  have "i = j" if w: "at_work (mg_runners s i)" "at_work (mg_runners s j)"
    and h: "hd (rn_todo (mg_runners s i)) = hd (rn_todo (mg_runners s j))" for i j
  proof -
    have "rn_todo (mg_runners s i) \<noteq> []" "rn_todo (mg_runners s j) \<noteq> []" using inv w unfolding lock_inv_def by blast+
    then have "holds s i (hd (rn_todo (mg_runners s i)))" "holds s j (hd (rn_todo (mg_runners s i)))"
      using w h by (simp_all add: holds_def)
    then show ?thesis using inv unfolding lock_inv_def by blast
  qed
  moreover have "distinct (mg_marked s)" using inv by (simp add: lock_inv_def)
  ultimately show ?thesis by blast
qed

subsection \<open>A run\<close>

text \<open>One runner with two migrations to go, the first of which another process completed meanwhile.\<close>

definition sample_plan :: "nat \<Rightarrow> int list" where
  "sample_plan i = (if i = 0 then [1, 2] else [])"

definition sample_table :: "int \<rightharpoonup> mig_row" where
  "sample_table = [1 \<mapsto> \<lparr>mr_completed = True, mr_locked = 0\<rparr>]"

definition sample_mig :: "int list \<Rightarrow> phase \<Rightarrow> int \<Rightarrow> (int \<rightharpoonup> mig_row) \<Rightarrow> int list \<Rightarrow> mig" where
  "sample_mig todo p l table marks =
     (mig_start 0 table sample_plan)\<lparr>mg_runners := (mg_runners (mig_start 0 table sample_plan))(0 :=
        \<lparr>rn_todo = todo, rn_phase = p, rn_lease = l\<rparr>), mg_marked := marks\<rparr>"

abbreviation row_at :: "bool \<Rightarrow> int \<Rightarrow> mig_row" where
  "row_at done t \<equiv> \<lparr>mr_completed = done, mr_locked = t\<rparr>"

definition sample_working :: mig where
  "sample_working = sample_mig [2] Running 15000 (sample_table(2 \<mapsto> row_at False 15000)) []"

definition sample_finished :: mig where
  "sample_finished = sample_mig [] (Returned None) 15000 (sample_table(2 \<mapsto> row_at True 0)) [2]"

lemma sample_start: "mig_start 0 sample_table sample_plan = sample_mig [1, 2] Inserting 0 sample_table []"
  by (simp add: sample_mig_def mig_start_def sample_plan_def next_phase_def fun_eq_iff)

lemma sample_steps:
  "mig_step timely (sample_mig [1, 2] Inserting 0 sample_table []) (sample_mig [1, 2] Checking 0 sample_table [])"
  "mig_step timely (sample_mig [1, 2] Checking 0 sample_table []) (sample_mig [2] Inserting 0 sample_table [])"
  "mig_step timely (sample_mig [2] Inserting 0 sample_table []) (sample_mig [2] Checking 0 (sample_table(2 \<mapsto> row_at False 0)) [])"
  "mig_step timely (sample_mig [2] Checking 0 (sample_table(2 \<mapsto> row_at False 0)) [])
     (sample_mig [2] Locking 0 (sample_table(2 \<mapsto> row_at False 0)) [])"
  "mig_step timely (sample_mig [2] Locking 0 (sample_table(2 \<mapsto> row_at False 0)) []) sample_working"
  "mig_step timely sample_working (sample_mig [2] Marking 15000 (sample_table(2 \<mapsto> row_at False 15000)) [])"
  "mig_step timely (sample_mig [2] Marking 15000 (sample_table(2 \<mapsto> row_at False 15000)) []) sample_finished"
  using mig_step.insert_old [of "sample_mig [1, 2] Inserting 0 sample_table []" 0 1 "[2]" "row_at True 0" timely]
    mig_step.check_completed [of "sample_mig [1, 2] Checking 0 sample_table []" 0 1 "[2]" "row_at True 0" timely]
    mig_step.insert_new [of "sample_mig [2] Inserting 0 sample_table []" 0 2 "[]" timely]
    mig_step.check_open [of "sample_mig [2] Checking 0 (sample_table(2 \<mapsto> row_at False 0)) []" 0 2 "[]" "row_at False 0" timely]
    mig_step.lock_taken [of "sample_mig [2] Locking 0 (sample_table(2 \<mapsto> row_at False 0)) []" 0 2 "[]" "row_at False 0" timely]
    mig_step.run_ok [of sample_working 0 timely]
    mig_step.marked [of "sample_mig [2] Marking 15000 (sample_table(2 \<mapsto> row_at False 15000)) []" 0 2 "[]" "row_at False 15000" timely]
  by (simp_all add: sample_working_def sample_finished_def sample_mig_def mig_start_def sample_table_def next_phase_def lease_def)

lemma mig_sample_reachable:
  "(mig_step timely)\<^sup>*\<^sup>* (mig_start 0 sample_table sample_plan) sample_working"
  "(mig_step timely)\<^sup>*\<^sup>* (mig_start 0 sample_table sample_plan) sample_finished"
  unfolding sample_start using sample_steps [of timely]
  by (meson converse_rtranclp_into_rtranclp rtranclp.rtrancl_refl)+

theorem migrations_in_order_witness: "at_work (mg_runners sample_working 0) \<and> is_completed sample_working 1"
proof -
  have w: "at_work (mg_runners sample_working 0)" "rn_todo (mg_runners sample_working 0) = [2]" "sorted (sample_plan 0)"
    by (simp_all add: sample_working_def sample_mig_def at_work_def sample_plan_def)
  with migrations_in_order [OF mig_sample_reachable(1) w(3,1,2)] show ?thesis by (simp add: sample_plan_def)
qed

theorem migrate_completes_plan_witness: "is_completed sample_finished 1 \<and> is_completed sample_finished 2"
proof -
  have "rn_phase (mg_runners sample_finished 0) = Returned None" by (simp add: sample_finished_def sample_mig_def)
  from migrate_completes_plan [OF mig_sample_reachable(2) this] show ?thesis by (simp add: sample_plan_def)
qed

theorem one_runner_per_migration_witness: "distinct (mg_marked sample_finished) \<and> mg_marked sample_finished = [2]"
  using one_runner_per_migration [OF mig_sample_reachable(2)] by (simp add: sample_finished_def sample_mig_def)

subsection \<open>A release that is not the owner's\<close>

text \<open>
  Without timely renewals a runner may lose its lease and still be at work; when its file then fails, the
  statement that releases the lock names only the migration. If another runner has taken the lock by then,
  the release gives that runner's lock away although its lease is running.
\<close>

definition three :: "int \<Rightarrow> int \<Rightarrow> phase \<times> int \<Rightarrow> phase \<times> int \<Rightarrow> phase \<times> int \<Rightarrow> mig" where
  "three t l r0 r1 r2 =
     \<lparr>mg_clock = t, mg_table = [1 \<mapsto> row_at False l],
      mg_runners = (\<lambda>i. if i = 0 then \<lparr>rn_todo = [1], rn_phase = fst r0, rn_lease = snd r0\<rparr>
        else if i = 1 then \<lparr>rn_todo = [1], rn_phase = fst r1, rn_lease = snd r1\<rparr>
        else if i = 2 then \<lparr>rn_todo = [1], rn_phase = fst r2, rn_lease = snd r2\<rparr>
        else \<lparr>rn_todo = [], rn_phase = Returned None, rn_lease = 0\<rparr>), mg_marked = []\<rparr>"

lemma three_start: "mig_start 0 [1 \<mapsto> row_at False 0] (\<lambda>i. if i \<le> 2 then [1] else []) =
    three 0 0 (Inserting, 0) (Inserting, 0) (Inserting, 0)"
  by (auto simp: three_def mig_start_def next_phase_def fun_eq_iff)

lemma step_eq: "mig_step timely s s1 \<Longrightarrow> s1 = s' \<Longrightarrow> mig_step timely s s'"
  by simp

text \<open>Each runner up to its attempt at the lock; then the steps that matter.\<close>

lemma three_steps:
  "mig_step False (three t l (Inserting, x) r1 r2) (three t l (Checking, x) r1 r2)"
  "mig_step False (three t l r0 (Inserting, x) r2) (three t l r0 (Checking, x) r2)"
  "mig_step False (three t l r0 r1 (Inserting, x)) (three t l r0 r1 (Checking, x))"
  "mig_step False (three t l (Checking, x) r1 r2) (three t l (Locking, x) r1 r2)"
  "mig_step False (three t l r0 (Checking, x) r2) (three t l r0 (Locking, x) r2)"
  "mig_step False (three t l r0 r1 (Checking, x)) (three t l r0 r1 (Locking, x))"
  "mig_step False (three 0 0 (Locking, x) r1 r2) (three 0 15000 (Running, 15000) r1 r2)"
  "mig_step False (three 0 15000 r0 r1 r2) (three 15000 15000 r0 r1 r2)"
  "mig_step False (three 15000 15000 r0 (Locking, x) r2) (three 15000 30000 r0 (Running, 30000) r2)"
  "mig_step False (three t l (Running, x) r1 r2) (three t l (Releasing e, x) r1 r2)"
  "mig_step False (three 15000 30000 (Releasing e, x) r1 r2) (three 15000 15000 (Returned (Some e), x) r1 r2)"
  "mig_step False (three 15000 15000 r0 r1 (Locking, x)) (three 15000 30000 r0 r1 (Running, 30000))"
  subgoal by (rule step_eq, rule mig_step.insert_old [where i = 0]) (auto simp: three_def lease_def fun_eq_iff)
  subgoal by (rule step_eq, rule mig_step.insert_old [where i = 1]) (auto simp: three_def lease_def fun_eq_iff)
  subgoal by (rule step_eq, rule mig_step.insert_old [where i = 2]) (auto simp: three_def lease_def fun_eq_iff)
  subgoal by (rule step_eq, rule mig_step.check_open [where i = 0]) (auto simp: three_def lease_def fun_eq_iff)
  subgoal by (rule step_eq, rule mig_step.check_open [where i = 1]) (auto simp: three_def lease_def fun_eq_iff)
  subgoal by (rule step_eq, rule mig_step.check_open [where i = 2]) (auto simp: three_def lease_def fun_eq_iff)
  subgoal by (rule step_eq, rule mig_step.lock_taken [where i = 0]) (auto simp: three_def lease_def fun_eq_iff)
  subgoal by (rule step_eq, rule mig_step.tick [where t = 15000]) (auto simp: three_def lease_def fun_eq_iff)
  subgoal by (rule step_eq, rule mig_step.lock_taken [where i = 1]) (auto simp: three_def lease_def fun_eq_iff)
  subgoal by (rule step_eq, rule mig_step.run_failed [where i = 0]) (auto simp: three_def lease_def fun_eq_iff)
  subgoal by (rule step_eq, rule mig_step.released [where i = 0]) (auto simp: three_def lease_def fun_eq_iff)
  subgoal by (rule step_eq, rule mig_step.lock_taken [where i = 2]) (auto simp: three_def lease_def fun_eq_iff)
  done

lemma stale_release_frees_lock:
  "\<exists>s. (mig_step False)\<^sup>*\<^sup>* (mig_start 0 [1 \<mapsto> row_at False 0] (\<lambda>i. if i \<le> 2 then [1] else [])) s \<and>
     at_work (mg_runners s 1) \<and> at_work (mg_runners s 2) \<and> mg_clock s < rn_lease (mg_runners s 1)"
proof -
  let ?e = "NewError ''failed''" and ?r = "(mig_step False)\<^sup>*\<^sup>*"
  let ?s1 = "three 0 0 (Locking, 0) (Locking, 0) (Locking, 0)"
  let ?s2 = "three 15000 15000 (Running, 15000) (Locking, 0) (Locking, 0)"
  let ?s3 = "three 15000 15000 (Returned (Some ?e), 15000) (Running, 30000) (Locking, 0)"
  let ?s4 = "three 15000 30000 (Returned (Some ?e), 15000) (Running, 30000) (Running, 30000)"
  note reach = converse_rtranclp_into_rtranclp [where r = "mig_step False"] r_into_rtranclp [where r = "mig_step False"]
  have "?r (three 0 0 (Inserting, 0) (Inserting, 0) (Inserting, 0)) ?s1"
    by (rule reach(1) [OF three_steps(1)], rule reach(1) [OF three_steps(2)], rule reach(1) [OF three_steps(3)],
        rule reach(1) [OF three_steps(4)], rule reach(1) [OF three_steps(5)], rule reach(2) [OF three_steps(6)])
  moreover have "?r ?s1 ?s2" by (rule reach(1) [OF three_steps(7)], rule reach(2) [OF three_steps(8)])
  moreover have "?r ?s2 ?s3"
    by (rule reach(1) [OF three_steps(9)], rule reach(1) [OF three_steps(10)], rule reach(2) [OF three_steps(11)])
  moreover have "?r ?s3 ?s4" by (rule reach(2) [OF three_steps(12)])
  ultimately have "?r (three 0 0 (Inserting, 0) (Inserting, 0) (Inserting, 0)) ?s4" by (meson rtranclp_trans)
  moreover have "at_work (mg_runners ?s4 1) \<and> at_work (mg_runners ?s4 2) \<and> mg_clock ?s4 < rn_lease (mg_runners ?s4 1)"
    by (simp add: three_def at_work_def)
  ultimately show ?thesis unfolding three_start by blast
qed

end
