(* ===== verification/Dsn_Database.thy ===== *)
theory Dsn_Database
  imports Redaction
begin

section \<open>The database and the server in a data source name (db.go)\<close>

text \<open>
  Reading the database out of a data source name, replacing it, and the address of the server. The drivers'
  parsers and \<^verbatim>\<open>net/url\<close> are the parameter \<open>libs\<close>; the SQLite branches need no library, and the lemmas are about them.
\<close>

definition errEmptyDSN :: error where
  "errEmptyDSN = NewError ''empty dsn''"

definition errParsingDSN :: "string \<Rightarrow> error \<Rightarrow> error" where
  "errParsingDSN dsn e = Wrapped (''error parsing data source name '' @ redactDataSourceName dsn) e"

definition errUnsupportedDriver :: "string \<Rightarrow> error" where
  "errUnsupportedDriver driverName = NewError (''unsupported driver name '' @ driverName)"

text \<open>\<^verbatim>\<open>url.Values.Get\<close>.\<close>

definition values_Get :: "url_values \<Rightarrow> string \<Rightarrow> string" where
  "values_Get q k = (case q k of Some (v # _) \<Rightarrow> v | _ \<Rightarrow> [])"

definition databaseNameFromDataSourceName :: "libs \<Rightarrow> string \<Rightarrow> string \<Rightarrow> error + string" where
  "databaseNameFromDataSourceName L driverName dsn =
     (if dsn = [] then Inl errEmptyDSN
      else if driverName \<in> {''mysql'', ''mariadb''} then
        (case mysql_ParseDSN L (trimMySQLScheme dsn) of
           Inl e \<Rightarrow> Inl (errParsingDSN dsn e)
         | Inr cfg \<Rightarrow> Inr (my_DBName cfg))
      else if driverName \<in> {''pgx'', ''cockroachdb''} then
        (case pgx_ParseConfig L dsn of
           Inl e \<Rightarrow> Inl (errParsingDSN dsn e)
         | Inr _ \<Rightarrow>
           (case url_Parse L dsn of
              Inl e \<Rightarrow> Inl (errParsingDSN dsn e)
            | Inr u \<Rightarrow> Inr (TrimPrefix (u_Path u) ''/'')))
      else if driverName = ''mssql'' then
        (case msdsn_Parse L dsn of
           Some e \<Rightarrow> Inl (errParsingDSN dsn e)
         | None \<Rightarrow>
           (case url_Parse L dsn of
              Inl e \<Rightarrow> Inl (errParsingDSN dsn e)
            | Inr u \<Rightarrow> Inr (values_Get (url_ParseQuery L (u_RawQuery u)) ''database'')))
      else if driverName = ''sqlite'' then
        (let path = TrimPrefix dsn ''file:'' in
         Inr (case Index path ''?'' of Some i \<Rightarrow> take i path | None \<Rightarrow> path))
      else Inl (errUnsupportedDriver driverName))"

definition setDatabaseInDataSourceName :: "libs \<Rightarrow> string \<Rightarrow> string \<Rightarrow> string \<Rightarrow> error + string" where
  "setDatabaseInDataSourceName L driverName dsn databaseName =
     (if dsn = [] then Inl errEmptyDSN
      else if driverName \<in> {''mysql'', ''mariadb''} then
        (case mysql_ParseDSN L (trimMySQLScheme dsn) of
           Inl e \<Rightarrow> Inl (errParsingDSN dsn e)
         | Inr cfg \<Rightarrow> Inr (mysql_FormatDSN L (cfg\<lparr>my_DBName := databaseName\<rparr>)))
      else if driverName \<in> {''pgx'', ''cockroachdb''} then
        (case pgx_ParseConfig L dsn of
           Inl e \<Rightarrow> Inl (errParsingDSN dsn e)
         | Inr _ \<Rightarrow>
           (case url_Parse L dsn of
              Inl e \<Rightarrow> Inl (errParsingDSN dsn e)
            | Inr u \<Rightarrow> Inr (url_String L (u\<lparr>u_Path := ''/'' @ databaseName\<rparr>))))
      else if driverName = ''mssql'' then
        (case msdsn_Parse L dsn of
           Some e \<Rightarrow> Inl (errParsingDSN dsn e)
         | None \<Rightarrow>
           (case url_Parse L dsn of
              Inl e \<Rightarrow> Inl (errParsingDSN dsn e)
            | Inr u \<Rightarrow>
              let q = url_ParseQuery L (u_RawQuery u);
                  q' = (if databaseName = [] then q(''database'' := None) else q(''database'' \<mapsto> [databaseName])) in
              Inr (url_String L (u\<lparr>u_RawQuery := url_Encode L q'\<rparr>))))
      else if driverName = ''sqlite'' then
        (if HasPrefix dsn ''file:'' then
           (let rest = drop 5 dsn in
            case Index rest ''?'' of
              Some i \<Rightarrow> Inr (''file:'' @ databaseName @ drop i rest)
            | None \<Rightarrow> Inr (''file:'' @ databaseName))
         else Inr databaseName)
      else Inl (errUnsupportedDriver driverName))"

text \<open>\<^verbatim>\<open>strconv.Itoa\<close> of a port is \<open>Itoa\<close>.\<close>

definition serverAddress :: "libs \<Rightarrow> string \<Rightarrow> string \<Rightarrow> string" where
  "serverAddress L driverName dsn =
     (if driverName \<in> {''mysql'', ''mariadb''} then
        (case mysql_ParseDSN L (trimMySQLScheme dsn) of
           Inl _ \<Rightarrow> [] | Inr cfg \<Rightarrow> my_Net cfg @ ''('' @ my_Addr cfg @ '')'')
      else if driverName \<in> {''pgx'', ''cockroachdb''} then
        (case pgx_ParseConfig L (toPostgresScheme dsn) of
           Inl _ \<Rightarrow> [] | Inr cfg \<Rightarrow> pg_Host cfg @ '':'' @ Itoa (int (pg_Port cfg)))
      else if driverName = ''mssql'' then
        (case url_Parse L dsn of Inl _ \<Rightarrow> [] | Inr u \<Rightarrow> u_Host u)
      else [])"

text \<open>The name under which a pool is reported.\<close>

definition databaseAttr :: "libs \<Rightarrow> string \<Rightarrow> string \<Rightarrow> string" where
  "databaseAttr L driver dsn =
     (if driver \<in> {''pgx'', ''cockroachdb''} \<and> \<not> HasPrefix dsn ''postgres://'' \<and> \<not> HasPrefix dsn ''postgresql://'' then
        (case pgx_ParseConfig L dsn of
           Inr cfg \<Rightarrow> if pg_Database cfg \<noteq> [] then pg_Database cfg else driver
         | Inl _ \<Rightarrow> driver)
      else case databaseNameFromDataSourceName L driver dsn of
        Inr name \<Rightarrow> if name \<noteq> [] then name else driver
      | Inl _ \<Rightarrow> driver)"

subsection \<open>Names of SQLite databases\<close>

definition name_byte :: "char \<Rightarrow> bool" where
  "name_byte c \<longleftrightarrow> is_lower c \<or> is_digit c \<or> c = CHR ''_''"

definition plain_name :: "string \<Rightarrow> bool" where
  "plain_name n \<longleftrightarrow> n \<noteq> [] \<and> list_all name_byte n"

lemma plain_bytes: "plain_name n \<Longrightarrow> c \<in> set n \<Longrightarrow> c \<noteq> CHR ''?'' \<and> c \<noteq> CHR '':'' \<and> c \<noteq> CHR ''/'' \<and> c \<noteq> nl"
  by (auto simp: plain_name_def list_all_iff name_byte_def is_lower_def is_digit_def byte_in_def)

lemma Index_skip: "b \<notin> set n \<Longrightarrow> Index (n @ t) [b] = map_option ((+) (length n)) (Index t [b])"
  by (induction n) (auto simp: option.map_comp comp_def option.map_ident_strong intro!: option.map_cong)

lemma sqlite_path:
  assumes n: "plain_name n" and t: "t = [] \<or> (\<exists>t'. t = CHR ''?'' # t')"
  shows "(case Index (n @ t) ''?'' of Some i \<Rightarrow> take i (n @ t) | None \<Rightarrow> n @ t) = n"
proof -
  have "CHR ''?'' \<notin> set n" using plain_bytes [OF n] by blast
  then show ?thesis using t by (auto simp: Index_skip)
qed

text \<open>What \<open>setDatabaseInDataSourceName\<close> makes of a SQLite name.\<close>

lemma sqlite_set_form:
  assumes "setDatabaseInDataSourceName L ''sqlite'' dsn n = Inr dsn'"
  obtains (name_only) "dsn' = n"
  | (in_file) t where "dsn' = ''file:'' @ n @ t" "t = [] \<or> (\<exists>t'. t = CHR ''?'' # t')"
proof (cases "HasPrefix dsn ''file:''")
  case True
  show thesis
  proof (cases "Index (drop 5 dsn) ''?''")
    case None
    with in_file [of "[]"] assms True show thesis by (auto simp: setDatabaseInDataSourceName_def split: if_splits)
  next
    case (Some i)
    then have "i < length (drop 5 dsn)" "drop 5 dsn ! i = CHR ''?''" using Index_byte_Some by blast+
    then have "drop i (drop 5 dsn) = CHR ''?'' # drop (Suc i) (drop 5 dsn)" by (metis Cons_nth_drop_Suc)
    with in_file [of "drop i (drop 5 dsn)"] assms True Some show thesis
      by (auto simp: setDatabaseInDataSourceName_def split: if_splits)
  qed
next
  case False
  with assms name_only show thesis by (auto simp: setDatabaseInDataSourceName_def split: if_splits)
qed

end
