(* ===== verification/Testing_Names.thy ===== *)
theory Testing_Names
  imports Dsn_Database
begin

section \<open>Names of testing databases (CreateTestingDatabase of db.go)\<close>

text \<open>
  The name of a testing database is spliced, unquoted, into CREATE and DROP statements, and it is the only sign
  by which sequel knows later that it may drop a database.
\<close>

subsection \<open>Runes\<close>

text \<open>The width of the first rune of a text, as Go decodes UTF-8: one byte when the encoding is not valid.\<close>

definition cont_byte :: "string \<Rightarrow> nat \<Rightarrow> nat \<Rightarrow> nat \<Rightarrow> bool" where
  "cont_byte s i lo hi \<longleftrightarrow> i < length s \<and> byte_in lo hi (s ! i)"

definition rune_len :: "string \<Rightarrow> nat" where
  "rune_len s =
     (if s = [] then 0
      else
        let b = hd s; cont = (\<lambda>i. cont_byte s i 128 191) in
        if byte_in 194 223 b \<and> cont 1 then 2
        else if b = CHR 0xE0 \<and> cont_byte s 1 160 191 \<and> cont 2 then 3
        else if (byte_in 225 236 b \<or> byte_in 238 239 b) \<and> cont 1 \<and> cont 2 then 3
        else if b = CHR 0xED \<and> cont_byte s 1 128 159 \<and> cont 2 then 3
        else if b = CHR 0xF0 \<and> cont_byte s 1 144 191 \<and> cont 2 \<and> cont 3 then 4
        else if byte_in 241 243 b \<and> cont 1 \<and> cont 2 \<and> cont 3 then 4
        else if b = CHR 0xF4 \<and> cont_byte s 1 128 143 \<and> cont 2 \<and> cont 3 then 4
        else 1)"

text \<open>\<^verbatim>\<open>[^a-z0-9_]\<close> replaced by an underscore, rune by rune.\<close>

function sanitize :: "string \<Rightarrow> string" where
  "sanitize s =
     (if s = [] then []
      else if name_byte (hd s) then hd s # sanitize (tl s)
      else CHR ''_'' # sanitize (drop (rune_len s) s))"
  by pat_completeness auto
termination
proof (relation "measure length")
  fix s :: string
  assume "s \<noteq> []"
  then have "rune_len s > 0" by (simp add: rune_len_def Let_def)
  with \<open>s \<noteq> []\<close> show "(drop (rune_len s) s, s) \<in> measure length" by simp
qed auto

declare sanitize.simps [simp del]

subsection \<open>The name\<close>

definition maxTestingDatabaseName :: nat where
  "maxTestingDatabaseName = 63"

text \<open>The token of the process; \<open>draws\<close> are the random numbers below 36, one for each of its six letters.\<close>

definition newTestingProcessToken :: "(nat \<Rightarrow> nat) \<Rightarrow> string" where
  "newTestingProcessToken draws =
     (let alphabet = ''abcdefghijklmnopqrstuvwxyz0123456789'' in map (\<lambda>i. alphabet ! draws i) [0..<6])"

text \<open>\<^verbatim>\<open>Format("15")\<close> of an hour.\<close>

definition two_digits :: "nat \<Rightarrow> string" where
  "two_digits h = [digit_char (h div 10 mod 10), digit_char (h mod 10)]"

definition testingDatabaseName ::
  "libs \<Rightarrow> nat \<Rightarrow> string \<Rightarrow> string \<Rightarrow> string \<Rightarrow> string" where
  "testingDatabaseName L hour token baseDatabaseName uniqueTestID =
     (let base = (if baseDatabaseName \<noteq> [] then ToLower (unicode_ToLower L) baseDatabaseName @ ''_'' else []);
          name = sanitize (''testing_'' @ two_digits hour @ ''_'' @ token @ ''_'' @ base @ ToLower (unicode_ToLower L) uniqueTestID) in
      if length name > maxTestingDatabaseName
      then take (maxTestingDatabaseName - 9) name @ ''_'' @ take 8 (hashStr name)
      else name)"

text \<open>\<^verbatim>\<open>leftoverTestingDatabasePattern\<close>: \<^verbatim>\<open>^testing_[0-2][0-9]_[a-z0-9_]*$\<close>.\<close>

definition leftoverTestingDatabase :: "string \<Rightarrow> bool" where
  "leftoverTestingDatabase s \<longleftrightarrow>
     HasPrefix s ''testing_'' \<and> length s \<ge> 11 \<and> s ! 8 \<in> set ''012'' \<and> is_digit (s ! 9) \<and> s ! 10 = CHR ''_'' \<and>
     list_all name_byte (drop 11 s)"

text \<open>The sweep: the databases on the server, less those of the last, this and the next hour.\<close>

definition leftovers :: "nat \<Rightarrow> string list \<Rightarrow> string list" where
  "leftovers hour databases =
     filter (\<lambda>name. leftoverTestingDatabase name \<and>
       \<not> HasPrefix name (''testing_'' @ two_digits ((hour + 23) mod 24) @ ''_'') \<and>
       \<not> HasPrefix name (''testing_'' @ two_digits hour @ ''_'') \<and>
       \<not> HasPrefix name (''testing_'' @ two_digits ((hour + 1) mod 24) @ ''_'')) databases"

subsection \<open>Well-formed names\<close>

lemma sanitize_keep: "list_all name_byte p \<Longrightarrow> sanitize (p @ s) = p @ sanitize s"
proof (induction p)
  case (Cons c p)
  then show ?case by (subst sanitize.simps) simp
qed simp

lemma name_underscore [simp]: "name_byte (CHR ''_'')"
  by (simp add: name_byte_def)

lemma sanitize_bytes: "list_all name_byte (sanitize s)"
proof (induction s rule: sanitize.induct)
  case (1 s)
  then show ?case by (subst sanitize.simps) simp
qed

lemma digit_name_byte: "d < 10 \<Longrightarrow> name_byte (digit_char d)"
  by (simp add: name_byte_def digit_char_digit)

definition name_head :: "nat \<Rightarrow> string \<Rightarrow> string" where
  "name_head hour token = ''testing_'' @ two_digits hour @ ''_'' @ token @ ''_''"

lemma name_head_bytes: "list_all name_byte token \<Longrightarrow> list_all name_byte (name_head hour token)"
  by (simp add: name_head_def two_digits_def digit_name_byte) (simp add: name_byte_def is_lower_def byte_in_def)

lemma newTestingProcessToken_ok:
  assumes "\<And>i. draws i < 36"
  shows "list_all name_byte (newTestingProcessToken draws)" "length (newTestingProcessToken draws) = 6"
proof -
  have "list_all (\<lambda>n. name_byte (''abcdefghijklmnopqrstuvwxyz0123456789'' ! n)) [0..<36]" by code_simp
  then have "name_byte (''abcdefghijklmnopqrstuvwxyz0123456789'' ! n)" if "n < 36" for n
    using that by (simp only: list_all_iff set_upt atLeastLessThan_iff) simp
  with assms show "list_all name_byte (newTestingProcessToken draws)"
    unfolding newTestingProcessToken_def Let_def list_all_iff by simp
qed (simp add: newTestingProcessToken_def)

lemma hash_bytes: "list_all name_byte (hashStr x)"
proof -
  have "list_all name_byte ''0123456789abcdef''" by code_simp
  with hashStr_hex [of x] show ?thesis unfolding list_all_iff by blast
qed

lemma name_shape:
  assumes "list_all name_byte token" "length token = 6"
  obtains rest where "testingDatabaseName L hour token base testID = name_head hour token @ rest"
    "list_all name_byte rest" "length rest \<le> 45"
proof -
  define body where "body = sanitize ((if base \<noteq> [] then ToLower (unicode_ToLower L) base @ ''_'' else []) @ ToLower (unicode_ToLower L) testID)"
  have n: "sanitize (''testing_'' @ two_digits hour @ ''_'' @ token @ ''_'' @
      (if base \<noteq> [] then ToLower (unicode_ToLower L) base @ ''_'' else []) @ ToLower (unicode_ToLower L) testID) = name_head hour token @ body"
    using sanitize_keep [OF name_head_bytes [OF assms(1)]] by (simp add: name_head_def body_def)
  have l: "length (name_head hour token) = 18" using assms(2) by (simp add: name_head_def two_digits_def)
  have b: "list_all name_byte body" unfolding body_def by (rule sanitize_bytes)
  show thesis
  proof (cases "length body \<le> 45")
    case True
    with n l b that [of body] show thesis
      by (simp add: testingDatabaseName_def maxTestingDatabaseName_def Let_def del: append_assoc)
  next
    case False
    let ?h = "hashStr (name_head hour token @ body)"
    have "take 54 (name_head hour token @ body) = name_head hour token @ take 36 body" using l by simp
    then have "testingDatabaseName L hour token base testID = name_head hour token @ (take 36 body @ ''_'' @ take 8 ?h)"
      using False n l by (simp add: testingDatabaseName_def maxTestingDatabaseName_def Let_def del: append_assoc)
    moreover have "list_all name_byte (take 36 body @ ''_'' @ take 8 ?h)"
      using b hash_bytes [of "name_head hour token @ body"] by (auto simp: list_all_iff name_byte_def dest: in_set_takeD)
    moreover have "length (take 36 body @ ''_'' @ take 8 ?h) \<le> 45" by simp
    ultimately show thesis by (rule that)
  qed
qed

lemma name_head_parts:
  assumes "length token = 6"
  shows "HasPrefix (name_head hour token @ rest) ''testing_''" "(name_head hour token @ rest) ! 8 = digit_char (hour div 10 mod 10)"
    "(name_head hour token @ rest) ! 9 = digit_char (hour mod 10)" "(name_head hour token @ rest) ! 10 = CHR ''_''"
    "drop 11 (name_head hour token @ rest) = token @ ''_'' @ rest" "length (name_head hour token) = 18"
  using assms by (simp_all add: name_head_def two_digits_def HasPrefix_def)

lemma low_digits: "digit_char 0 = CHR ''0''" "digit_char 1 = CHR ''1''" "digit_char 2 = CHR ''2''"
  by code_simp+

lemma minted_name:
  assumes "hour < 24" "list_all name_byte token" "length token = 6"
    and "name = testingDatabaseName L hour token base testID"
  shows "leftoverTestingDatabase name" "plain_name name" "length name \<le> 63" "HasPrefix name (''testing_'' @ two_digits hour @ ''_'')"
proof -
  obtain rest where n: "name = name_head hour token @ rest" and r: "list_all name_byte rest" "length rest \<le> 45"
    using name_shape [OF assms(2,3), of L hour base testID] assms(4) by blast
  have "hour div 10 mod 10 \<in> {0, 1, 2}" using assms(1) by auto
  then have d: "digit_char (hour div 10 mod 10) \<in> set ''012''" using low_digits by auto
  show "leftoverTestingDatabase name"
    unfolding leftoverTestingDatabase_def n name_head_parts [OF assms(3)]
    using d assms(2) r(1) name_head_parts(1,6) [OF assms(3)] by (simp add: digit_char_digit)
  show "HasPrefix name (''testing_'' @ two_digits hour @ ''_'')" by (simp add: n name_head_def HasPrefix_def two_digits_def)
  show "length name \<le> 63" using n r(2) name_head_parts(6) [OF assms(3)] by simp
  show "plain_name name" using n r(1) name_head_bytes [OF assms(2), of hour] by (auto simp: plain_name_def name_head_def)
qed

text \<open>
  (C29) Every testing database name sequel mints is one it will recognize as its own, at most 63 bytes of lower-case
  letters, digits and underscores, whatever the base database and the test are called; and its sweep never
  takes one minted in the same hour.
\<close>

theorem testing_name_wellformed:
  assumes "hour < 24" "\<And>i. draws i < 36"
    and "name = testingDatabaseName L hour (newTestingProcessToken draws) base testID"
  shows "leftoverTestingDatabase name \<and> plain_name name \<and> length name \<le> 63 \<and> name \<notin> set (leftovers hour databases)"
  using minted_name [OF assms(1) newTestingProcessToken_ok [OF assms(2)] assms(3)] by (simp add: leftovers_def)

theorem testing_name_wellformed_witness:
  "leftoverTestingDatabase (testingDatabaseName sample_libs 15 (newTestingProcessToken (\<lambda>i. 7 * i mod 36)) ''Shop'' ''TestOrders/empty cart'')"
  using testing_name_wellformed [of 15 "\<lambda>i. 7 * i mod 36" _ sample_libs "''Shop''" "''TestOrders/empty cart''"] by simp

text \<open>
  Two processes with different tokens never mint the same name, even for the same test in the same hour, even
  when the names are shortened.
\<close>

theorem testing_names_per_process:
  assumes "list_all name_byte token1" "length token1 = 6" "list_all name_byte token2" "length token2 = 6"
    and "token1 \<noteq> token2"
  shows "testingDatabaseName L hour1 token1 base1 test1 \<noteq> testingDatabaseName L hour2 token2 base2 test2"
proof
  assume eq: "testingDatabaseName L hour1 token1 base1 test1 = testingDatabaseName L hour2 token2 base2 test2"
  obtain r1 where 1: "testingDatabaseName L hour1 token1 base1 test1 = name_head hour1 token1 @ r1"
    using name_shape [OF assms(1,2), of L] by blast
  obtain r2 where 2: "testingDatabaseName L hour2 token2 base2 test2 = name_head hour2 token2 @ r2"
    using name_shape [OF assms(3,4), of L] by blast
  have "token1 @ ''_'' @ r1 = token2 @ ''_'' @ r2"
    using arg_cong [OF eq, of "drop 11"] unfolding 1 2 name_head_parts(5) [OF assms(2)] name_head_parts(5) [OF assms(4)] .
  with assms(2,4,5) show False by simp
qed

theorem testing_names_per_process_witness:
  "testingDatabaseName sample_libs 15 ''k3x9q1'' [] ''TestOrders'' \<noteq>
   testingDatabaseName sample_libs 15 ''aaaaaa'' [] ''TestOrders''"
proof -
  have "list_all name_byte ''k3x9q1''" "list_all name_byte ''aaaaaa''"
    by (simp_all add: name_byte_def is_lower_def is_digit_def byte_in_def)
  then show ?thesis using testing_names_per_process [of "''k3x9q1''" "''aaaaaa''" sample_libs] by simp
qed

end
