(* ===== verification/Pools.thy ===== *)
theory Pools
  imports Testing_Names
begin

section \<open>Handles and pools (Open, OpenSingleton and Close of db.go)\<close>

text \<open>
  \<^verbatim>\<open>Open\<close> makes a handle of its own; \<^verbatim>\<open>OpenSingleton\<close> shares one handle per data source name and counts its
  openers. A testing database counts the open handles on it and is dropped with the last. The state holds the
  handles, addressed by numbers, and the package's maps; the mutexes make each operation one step. The
  errors of the drivers are arguments.
\<close>

record handle =
  hd_open :: bool
  hd_driver :: string
  hd_dsn :: string
  hd_key :: "string option"
  hd_refs :: nat
  hd_limits :: "(nat \<times> nat) option"

record pools =
  singletonsMap :: "string \<rightharpoonup> nat"
  handles :: "nat \<Rightarrow> handle"
  next_handle :: nat
  testingDBRefs :: "string \<rightharpoonup> int"
  testingDBKeys :: "string \<rightharpoonup> string"
  testingDSNs :: "string \<rightharpoonup> string"
  testingAnchors :: "string set"
  dropped :: "string list"

subsection \<open>Connection limits\<close>

text \<open>The least \<open>k\<close> with \<open>n \<le> k * k\<close>, which is what the floating-point \<^verbatim>\<open>math.Ceil(math.Sqrt(n))\<close> is for counts
  below \<open>2 ^ 52\<close>.\<close>

fun ceil_sqrt_from :: "nat \<Rightarrow> nat \<Rightarrow> nat \<Rightarrow> nat" where
  "ceil_sqrt_from 0 k n = k"
| "ceil_sqrt_from (Suc fuel) k n = (if n \<le> k * k then k else ceil_sqrt_from fuel (k + 1) n)"

definition ceil_sqrt :: "nat \<Rightarrow> nat" where
  "ceil_sqrt n = ceil_sqrt_from n 0 n"

text \<open>The limits on open and on idle connections.\<close>

definition adjustConnectionLimits :: "handle \<Rightarrow> handle" where
  "adjustConnectionLimits h =
     (let maxIdle = ceil_sqrt (hd_refs h); maxOpen = maxIdle * 2 + 2 in h\<lparr>hd_limits := Some (maxOpen, maxIdle)\<rparr>)"

subsection \<open>Testing databases\<close>

definition testingDatabaseNameOf :: "libs \<Rightarrow> string \<Rightarrow> string \<Rightarrow> string option" where
  "testingDatabaseNameOf L driverName dsn =
     (if \<not> Contains dsn ''testing_'' then None
      else case databaseNameFromDataSourceName L driverName dsn of
        Inl _ \<Rightarrow> None
      | Inr name \<Rightarrow> if leftoverTestingDatabase name then Some name else None)"

definition testingDatabaseKey :: "libs \<Rightarrow> string \<Rightarrow> string \<Rightarrow> string \<Rightarrow> string" where
  "testingDatabaseKey L driverName dsn databaseName =
     physicalDriverName driverName @ ''|'' @ serverAddress L driverName dsn @ ''|'' @ databaseName"

definition refs_of :: "pools \<Rightarrow> string \<Rightarrow> int" where
  "refs_of s key = (case testingDBRefs s key of None \<Rightarrow> 0 | Some n \<Rightarrow> n)"

text \<open>\<open>anchorErr\<close> is the outcome of opening and pinging the anchor connection of a SQLite database.\<close>

definition retainTestingDatabase ::
  "libs \<Rightarrow> string \<Rightarrow> string \<Rightarrow> error option \<Rightarrow> pools \<Rightarrow> pools \<times> error option" where
  "retainTestingDatabase L driverName dsn anchorErr s =
     (case testingDatabaseNameOf L driverName dsn of
        None \<Rightarrow> (s, None)
      | Some name \<Rightarrow>
        let key = testingDatabaseKey L driverName dsn name; n = refs_of s key;
            s1 = s\<lparr>testingDBRefs := (testingDBRefs s)(key \<mapsto> n + 1)\<rparr> in
        if n = 0 \<and> driverName = ''sqlite'' then
          (case anchorErr of
             Some e \<Rightarrow> (s, Some (Traced e))
           | None \<Rightarrow> (s1\<lparr>testingAnchors := insert key (testingAnchors s1)\<rparr>, None))
        else (s1, None))"

text \<open>The bookkeeping half of \<open>maybeDropTestingDatabase\<close>: the name of the database when its last handle is gone.\<close>

definition releaseTestingDatabase :: "libs \<Rightarrow> string \<Rightarrow> string \<Rightarrow> pools \<Rightarrow> pools \<times> string option" where
  "releaseTestingDatabase L driverName dsn s =
     (case testingDatabaseNameOf L driverName dsn of
        None \<Rightarrow> (s, None)
      | Some name \<Rightarrow>
        let key = testingDatabaseKey L driverName dsn name; n = refs_of s key - 1 in
        if n \<le> 0 then
          (s\<lparr>testingDBRefs := (testingDBRefs s)(key := None),
             testingAnchors := testingAnchors s - {key},
             testingDSNs := (case testingDBKeys s key of
                 None \<Rightarrow> testingDSNs s | Some cacheKey \<Rightarrow> (testingDSNs s)(cacheKey := None)),
             testingDBKeys := (testingDBKeys s)(key := None)\<rparr>, Some name)
        else (s\<lparr>testingDBRefs := (testingDBRefs s)(key \<mapsto> n)\<rparr>, None))"

subsection \<open>Opening\<close>

definition Open ::
  "libs \<Rightarrow> error option \<Rightarrow> error option \<Rightarrow> string \<Rightarrow> string \<Rightarrow> pools \<Rightarrow> pools \<times> (error + nat)" where
  "Open L sqlErr anchorErr driverName0 dsn0 s =
     (case normalizeDriverAndDSN L driverName0 dsn0 of
        Inl e \<Rightarrow> (s, Inl (Traced e))
      | Inr (driverName, dsn) \<Rightarrow>
        (case sqlErr of
           Some e \<Rightarrow> (s, Inl (Traced e))
         | None \<Rightarrow>
           (case retainTestingDatabase L driverName dsn anchorErr s of
              (s1, Some e) \<Rightarrow> (s1, Inl (Traced e))
            | (s1, None) \<Rightarrow>
              (s1\<lparr>handles := (handles s1)(next_handle s1 := \<lparr>hd_open = True, hd_driver = driverName, hd_dsn = dsn,
                    hd_key = None, hd_refs = 1, hd_limits = None\<rparr>), next_handle := next_handle s1 + 1\<rparr>,
               Inr (next_handle s1)))))"

definition OpenSingleton ::
  "libs \<Rightarrow> error option \<Rightarrow> error option \<Rightarrow> string \<Rightarrow> string \<Rightarrow> pools \<Rightarrow> pools \<times> (error + nat)" where
  "OpenSingleton L sqlErr anchorErr driverName0 dsn0 s =
     (case normalizeDriverAndDSN L driverName0 dsn0 of
        Inl e \<Rightarrow> (s, Inl (Traced e))
      | Inr (driverName, dsn) \<Rightarrow>
        let key = hashStr (driverName @ ''|'' @ dsn);
            (s1, h) = (case singletonsMap s key of
               Some h \<Rightarrow> (s, h)
             | None \<Rightarrow> (s\<lparr>handles := (handles s)(next_handle s := \<lparr>hd_open = False, hd_driver = driverName, hd_dsn = dsn,
                            hd_key = Some key, hd_refs = 0, hd_limits = None\<rparr>), next_handle := next_handle s + 1,
                          singletonsMap := (singletonsMap s)(key \<mapsto> next_handle s)\<rparr>, next_handle s)) in
        if hd_open (handles s1 h) then
          (s1\<lparr>handles := (handles s1)(h := adjustConnectionLimits ((handles s1 h)\<lparr>hd_refs := hd_refs (handles s1 h) + 1\<rparr>))\<rparr>, Inr h)
        else case sqlErr of
          Some e \<Rightarrow> (s1, Inl (Traced e))
        | None \<Rightarrow>
          (case retainTestingDatabase L driverName dsn anchorErr s1 of
             (s2, Some e) \<Rightarrow> (s2, Inl (Traced e))
           | (s2, None) \<Rightarrow>
             (s2\<lparr>handles := (handles s2)(h := adjustConnectionLimits ((handles s2 h)\<lparr>hd_open := True, hd_refs := 1\<rparr>))\<rparr>, Inr h)))"

subsection \<open>Closing\<close>

text \<open>\<open>Close\<close> up to the DROP: the name of the testing database to drop, if this was its last handle.\<close>

definition closeHandle :: "libs \<Rightarrow> nat \<Rightarrow> pools \<Rightarrow> pools \<times> string option" where
  "closeHandle L h s =
     (let x = handles s h in
      if \<not> hd_open x \<or> hd_refs x = 0 then (s, None)
      else if hd_refs x - 1 = 0 then
        releaseTestingDatabase L (hd_driver x) (hd_dsn x)
          (s\<lparr>handles := (handles s)(h := x\<lparr>hd_refs := 0, hd_open := False\<rparr>)\<rparr>)
      else (s\<lparr>handles := (handles s)(h := adjustConnectionLimits (x\<lparr>hd_refs := hd_refs x - 1\<rparr>))\<rparr>, None))"

text \<open>
  The DROP runs on a handle to the server without a database, opened and closed around it. Its data source
  name names no database, so closing it is \<open>closeHandle\<close>.
\<close>

definition dropDatabase :: "libs \<Rightarrow> error option \<Rightarrow> string \<Rightarrow> string \<Rightarrow> string \<Rightarrow> pools \<Rightarrow> pools" where
  "dropDatabase L masterErr driverName dsn name s =
     (case setDatabaseInDataSourceName L driverName dsn [] of
        Inl _ \<Rightarrow> s
      | Inr masterDSN \<Rightarrow>
        (case OpenSingleton L masterErr None driverName masterDSN s of
           (s1, Inl _) \<Rightarrow> s1
         | (s1, Inr m) \<Rightarrow> fst (closeHandle L m (s1\<lparr>dropped := testingDatabaseKey L driverName dsn name # dropped s1\<rparr>))))"

text \<open>\<open>closeErr\<close> is what closing the driver's pool answers, \<open>masterErr\<close> what opening the one for the DROP does.\<close>

definition Close :: "libs \<Rightarrow> error option \<Rightarrow> error option \<Rightarrow> nat \<Rightarrow> pools \<Rightarrow> pools \<times> error option" where
  "Close L closeErr masterErr h s =
     (let x = handles s h; err = (if hd_open x \<and> hd_refs x = 1 then closeErr else None) in
      case closeHandle L h s of
        (s1, None) \<Rightarrow> (s1, Trace err)
      | (s1, Some name) \<Rightarrow>
        (if hd_driver x = ''sqlite'' then s1 else dropDatabase L masterErr (hd_driver x) (hd_dsn x) name s1, Trace err))"

end
