(* ===== verification/Pool_Inv.thy ===== *)
theory Pool_Inv
  imports Pools
begin

section \<open>Testing databases live as long as their handles\<close>

text \<open>
  The count kept for a testing database is the number of open handles on it, in every state the operations
  reach; so the database is dropped with the last handle and not before. A singleton's limits follow the
  number of its openers.
\<close>

definition tkey :: "libs \<Rightarrow> string \<Rightarrow> string \<Rightarrow> string option" where
  "tkey L driverName dsn = map_option (testingDatabaseKey L driverName dsn) (testingDatabaseNameOf L driverName dsn)"

abbreviation hkey :: "libs \<Rightarrow> handle \<Rightarrow> string option" where
  "hkey L x \<equiv> tkey L (hd_driver x) (hd_dsn x)"

definition open_on :: "libs \<Rightarrow> pools \<Rightarrow> string \<Rightarrow> nat set" where
  "open_on L s key = {h. h < next_handle s \<and> hd_open (handles s h) \<and> hkey L (handles s h) = Some key}"

definition limits_for :: "nat \<Rightarrow> nat \<times> nat" where
  "limits_for n = (ceil_sqrt n * 2 + 2, ceil_sqrt n)"

text \<open>
  The shared handles are found by the hashes of their data source names. \<open>K\<close> stands for the names in play, each with
  its driver, as they are hashed: those that are opened as shared handles, those of the servers the testing
  databases are dropped on included. What is relied on is that SHA-256 tells the names in play apart.
\<close>

definition in_play :: "libs \<Rightarrow> (string \<times> string) set \<Rightarrow> string \<Rightarrow> string \<Rightarrow> bool" where
  "in_play L K driverName dsn \<longleftrightarrow>
     (case normalizeDriverAndDSN L driverName dsn of Inl _ \<Rightarrow> True | Inr name \<Rightarrow> name \<in> K)"

text \<open>
  What is relied on of the libraries: a data source name whose database was taken out names no testing database
  when it is opened.
\<close>

definition master_is_plain :: "libs \<Rightarrow> string \<Rightarrow> string \<Rightarrow> bool" where
  "master_is_plain L driverName base \<longleftrightarrow>
     (case setDatabaseInDataSourceName L driverName base [] of
        Inl _ \<Rightarrow> True
      | Inr m \<Rightarrow> (case normalizeDriverAndDSN L driverName m of Inl _ \<Rightarrow> True | Inr (d, x) \<Rightarrow> testingDatabaseNameOf L d x = None))"

text \<open>The server of a testing database is in play, under a plain name; a SQLite database has none.\<close>

definition master_in_play :: "libs \<Rightarrow> (string \<times> string) set \<Rightarrow> string \<Rightarrow> string \<Rightarrow> bool" where
  "master_in_play L K driverName dsn \<longleftrightarrow>
     driverName = ''sqlite'' \<or> master_is_plain L driverName dsn \<and>
       (case setDatabaseInDataSourceName L driverName dsn [] of Inl _ \<Rightarrow> True | Inr m \<Rightarrow> in_play L K driverName m)"

text \<open>A handle of its own is found by no hash, but the server its testing database would be dropped on is.\<close>

definition drop_in_play :: "libs \<Rightarrow> (string \<times> string) set \<Rightarrow> string \<Rightarrow> string \<Rightarrow> bool" where
  "drop_in_play L K driverName dsn \<longleftrightarrow>
     (case normalizeDriverAndDSN L driverName dsn of Inl _ \<Rightarrow> True | Inr (d, x) \<Rightarrow> master_in_play L K d x)"

definition no_collision :: "libs \<Rightarrow> (string \<times> string) set \<Rightarrow> bool" where
  "no_collision L K \<longleftrightarrow>
     inj_on (\<lambda>(d, x). hashStr (d @ ''|'' @ x)) K \<and> (\<forall>(d, x) \<in> K. master_in_play L K d x)"

definition handle_ok :: "libs \<Rightarrow> (string \<times> string) set \<Rightarrow> pools \<Rightarrow> nat \<Rightarrow> bool" where
  "handle_ok L K s h \<longleftrightarrow>
     (let x = handles s h in
      (hd_open x \<longleftrightarrow> hd_refs x > 0) \<and> (hd_open x \<longrightarrow> h < next_handle s) \<and>
      (hd_open x \<and> hd_key x \<noteq> None \<longrightarrow> hd_limits x = Some (limits_for (hd_refs x))) \<and>
      (hd_open x \<longrightarrow> CHR ''|'' \<notin> set (hd_driver x) \<and> master_in_play L K (hd_driver x) (hd_dsn x)) \<and>
      (\<forall>k. hd_open x \<and> hd_driver x = ''sqlite'' \<and> hkey L x = Some k \<longrightarrow> k \<in> testingAnchors s))"

definition pool_inv :: "libs \<Rightarrow> (string \<times> string) set \<Rightarrow> pools \<Rightarrow> bool" where
  "pool_inv L K s \<longleftrightarrow>
     (\<forall>k. refs_of s k = int (card (open_on L s k))) \<and>
     (\<forall>h. handle_ok L K s h) \<and>
     (\<forall>k h. singletonsMap s k = Some h \<longrightarrow> h < next_handle s \<and> hd_key (handles s h) \<noteq> None \<and>
        (hd_driver (handles s h), hd_dsn (handles s h)) \<in> K \<and> hashStr (hd_driver (handles s h) @ ''|'' @ hd_dsn (handles s h)) = k)"

lemma open_on_finite [simp]: "finite (open_on L s k)"
  by (simp add: open_on_def)

lemma refs_nonneg: "pool_inv L K s \<Longrightarrow> refs_of s k \<ge> 0"
  by (simp add: pool_inv_def)

lemma bar_split:
  "CHR ''|'' \<notin> set a \<Longrightarrow> CHR ''|'' \<notin> set c \<Longrightarrow> a @ ''|'' @ b = c @ ''|'' @ d \<longleftrightarrow> a = c \<and> b = d"
proof (induction a arbitrary: c)
  case Nil
  then show ?case by (cases c) auto
next
  case (Cons x a)
  then show ?case by (cases c) auto
qed

text \<open>A SQLite testing database shares its key with SQLite handles only.\<close>

lemma sqlite_key:
  assumes "tkey L d x = Some k" "tkey L d' x' = Some k" "CHR ''|'' \<notin> set d" "CHR ''|'' \<notin> set d'" "d' = ''sqlite''"
  shows "d = ''sqlite''"
proof -
  have b: "CHR ''|'' \<notin> set (physicalDriverName d)" "CHR ''|'' \<notin> set (physicalDriverName d')"
    using assms(3,4) by (simp_all add: physicalDriverName_def)
  obtain n where k: "k = physicalDriverName d @ ''|'' @ (serverAddress L d x @ ''|'' @ n)"
    using assms(1) by (auto simp: tkey_def testingDatabaseKey_def)
  obtain n' where k': "k = physicalDriverName d' @ ''|'' @ (serverAddress L d' x' @ ''|'' @ n')"
    using assms(2) by (auto simp: tkey_def testingDatabaseKey_def)
  from k k' have "physicalDriverName d @ ''|'' @ (serverAddress L d x @ ''|'' @ n) =
      physicalDriverName d' @ ''|'' @ (serverAddress L d' x' @ ''|'' @ n')" by simp
  then have "physicalDriverName d = physicalDriverName d'" unfolding bar_split [OF b] by blast
  then show ?thesis using assms(5) by (simp add: physicalDriverName_def split: if_splits)
qed

subsection \<open>The counts\<close>

lemma retain_spec:
  assumes "retainTestingDatabase L d x a s = (s', None)"
  shows "s' = s\<lparr>testingDBRefs := testingDBRefs s', testingAnchors := testingAnchors s'\<rparr>"
    "refs_of s' k = refs_of s k + (if tkey L d x = Some k then 1 else 0)"
    "testingAnchors s \<subseteq> testingAnchors s'"
    "tkey L d x = Some k \<Longrightarrow> d = ''sqlite'' \<Longrightarrow> refs_of s k = 0 \<Longrightarrow> k \<in> testingAnchors s'"
  using assms
  by (auto simp: retainTestingDatabase_def tkey_def refs_of_def Let_def split: option.splits if_splits)

lemma retain_failed: "retainTestingDatabase L d x a s = (s', Some e) \<Longrightarrow> s' = s"
  by (auto simp: retainTestingDatabase_def Let_def split: option.splits if_splits)

lemma release_spec:
  assumes "releaseTestingDatabase L d x s = (s', out)"
  shows "handles s' = handles s" "next_handle s' = next_handle s" "singletonsMap s' = singletonsMap s" "dropped s' = dropped s"
    "refs_of s' k = (if tkey L d x = Some k then max 0 (refs_of s k - 1) else refs_of s k)"
    "k \<in> testingAnchors s \<Longrightarrow> \<not> (tkey L d x = Some k \<and> refs_of s k \<le> 1) \<Longrightarrow> k \<in> testingAnchors s'"
    "out = (case tkey L d x of None \<Rightarrow> None | Some k \<Rightarrow> if refs_of s k \<le> 1 then testingDatabaseNameOf L d x else None)"
  using assms
  by (auto simp: releaseTestingDatabase_def tkey_def refs_of_def Let_def split: option.splits if_splits)

subsection \<open>Opening and closing a handle\<close>

text \<open>A handle is opened: the count of its database goes up with the set of handles on it.\<close>

lemma pool_inv_opened:
  assumes inv: "pool_inv L K s" and cl: "\<not> hd_open (handles s h)" and h: "h < next_handle s \<or> h = next_handle s"
    and r: "retainTestingDatabase L d x a s = (s1, None)"
    and y: "hd_open y" "hd_refs y > 0" "hd_driver y = d" "hd_dsn y = x" "CHR ''|'' \<notin> set d" "master_in_play L K d x"
      "hd_key y \<noteq> None \<longrightarrow> hd_limits y = Some (limits_for (hd_refs y))"
    and single: "\<forall>k. singletonsMap s k = Some h \<longrightarrow> hd_key y \<noteq> None \<and> (d, x) \<in> K \<and> hashStr (d @ ''|'' @ x) = k"
    and s': "s' = s1\<lparr>handles := (handles s1)(h := y), next_handle := max (next_handle s1) (Suc h)\<rparr>"
  shows "pool_inv L K s'"
proof -
  note spec = retain_spec [OF r]
  have f: "handles s1 = handles s" "next_handle s1 = next_handle s" "singletonsMap s1 = singletonsMap s"
    by (subst spec(1), simp)+
  have o1: "open_on L s' k = open_on L s k \<union> (if tkey L d x = Some k then {h} else {})" for k
    using h cl y by (auto simp: open_on_def s' f)
  have "h \<notin> open_on L s k" for k using cl by (simp add: open_on_def)
  then have "refs_of s' k = int (card (open_on L s' k))" for k
    using inv spec(2) [of k] unfolding pool_inv_def o1 by (simp add: refs_of_def s')
  moreover have "handle_ok L K s' j" for j
  proof (cases "j = h")
    case True
    have "k \<in> testingAnchors s1" if k: "tkey L d x = Some k" "d = ''sqlite''" for k
    proof (cases "refs_of s k = 0")
      case False
      moreover have "refs_of s k = int (card (open_on L s k))" using inv by (simp add: pool_inv_def)
      ultimately have "open_on L s k \<noteq> {}" by auto
      then obtain i where i: "i \<in> open_on L s k" by blast
      then have io: "hd_open (handles s i)" "hkey L (handles s i) = Some k" by (simp_all add: open_on_def)
      have ok: "handle_ok L K s i" using inv by (simp add: pool_inv_def)
      then have b: "CHR ''|'' \<notin> set (hd_driver (handles s i))" using io by (simp add: handle_ok_def Let_def)
      have "hd_driver (handles s i) = ''sqlite''" using sqlite_key [OF io(2) k(1) b y(5) k(2)] .
      with ok io have "k \<in> testingAnchors s" by (simp add: handle_ok_def Let_def)
      with spec(3) show ?thesis by blast
    qed (use spec(4) k in blast)
    with True y show ?thesis by (auto simp: handle_ok_def Let_def s' f)
  next
    case False
    have "handle_ok L K s j" using inv by (simp add: pool_inv_def)
    with False spec(3) show ?thesis by (auto simp: handle_ok_def Let_def s' f)
  qed
  moreover have "singletonsMap s' k = Some j \<longrightarrow> j < next_handle s' \<and> hd_key (handles s' j) \<noteq> None \<and>
        (hd_driver (handles s' j), hd_dsn (handles s' j)) \<in> K \<and> hashStr (hd_driver (handles s' j) @ ''|'' @ hd_dsn (handles s' j)) = k" for k j
    using inv single y unfolding pool_inv_def by (auto simp: s' f less_max_iff_disj)
  ultimately show ?thesis unfolding pool_inv_def by blast
qed

text \<open>A change to an open handle that keeps it open.\<close>

lemma pool_inv_changed:
  assumes inv: "pool_inv L K s" and x: "x = handles s h" "hd_open x"
    and y: "hd_open y" "hd_refs y > 0" "hd_driver y = hd_driver x" "hd_dsn y = hd_dsn x" "hd_key y = hd_key x"
      "hd_key x \<noteq> None \<longrightarrow> hd_limits y = Some (limits_for (hd_refs y))"
    and s': "s' = s\<lparr>handles := (handles s)(h := y)\<rparr>"
  shows "pool_inv L K s'"
proof -
  have o1: "open_on L s' k = open_on L s k" for k using x y by (auto simp: open_on_def s')
  have "handle_ok L K s' j" for j
  proof -
    have "handle_ok L K s j" "handle_ok L K s h" using inv by (simp_all add: pool_inv_def)
    with x y show ?thesis by (cases "j = h") (auto simp: handle_ok_def Let_def s')
  qed
  moreover have "refs_of s' k = int (card (open_on L s' k))" for k
    using inv unfolding pool_inv_def o1 by (simp add: refs_of_def s')
  moreover have "singletonsMap s' k = Some j \<longrightarrow> j < next_handle s' \<and> hd_key (handles s' j) \<noteq> None \<and>
        (hd_driver (handles s' j), hd_dsn (handles s' j)) \<in> K \<and> hashStr (hd_driver (handles s' j) @ ''|'' @ hd_dsn (handles s' j)) = k" for k j
    using inv x y unfolding pool_inv_def by (auto simp: s')
  ultimately show ?thesis unfolding pool_inv_def by blast
qed

lemma pool_inv_closed:
  assumes inv: "pool_inv L K s" and x: "x = handles s h" "hd_open x"
    and s1: "s1 = s\<lparr>handles := (handles s)(h := x\<lparr>hd_refs := 0, hd_open := False\<rparr>)\<rparr>"
    and r: "releaseTestingDatabase L (hd_driver x) (hd_dsn x) s1 = (s', out)"
  shows "pool_inv L K s'" "out \<noteq> None \<longleftrightarrow> (\<exists>k. hkey L x = Some k \<and> open_on L s' k = {})"
    "dropped s' = dropped s" "open_on L s' k = open_on L s k - {h}"
proof -
  note spec = release_spec [OF r]
  have h: "h < next_handle s" using inv x by (auto simp: pool_inv_def handle_ok_def Let_def)
  have o1: "open_on L s' k = open_on L s k - {h}" for k using x by (auto simp: open_on_def spec(1,2) s1)
  then show "open_on L s' k = open_on L s k - {h}" .
  have refs: "refs_of s1 k = int (card (open_on L s k))" for k using inv by (simp add: pool_inv_def refs_of_def s1)
  have mem: "h \<in> open_on L s k \<longleftrightarrow> hkey L x = Some k" for k using h x by (simp add: open_on_def)
  have pos: "hkey L x = Some k \<Longrightarrow> card (open_on L s k) > 0" for k using mem [of k] card_gt_0_iff by fastforce
  have cnt: "refs_of s' k = int (card (open_on L s' k))" for k
    unfolding spec(5) refs o1 using mem [of k] pos [of k] by (auto simp: card_Diff_singleton of_nat_diff)
  moreover have "handle_ok L K s' j" for j
  proof (cases "j = h")
    case True
    then show ?thesis by (simp add: handle_ok_def Let_def spec(1) s1)
  next
    case False
    have ok: "handle_ok L K s j" using inv by (simp add: pool_inv_def)
    have "k \<in> testingAnchors s'" if k: "hd_open (handles s j)" "hd_driver (handles s j) = ''sqlite''" "hkey L (handles s j) = Some k" for k
    proof (rule spec(6))
      show "k \<in> testingAnchors s1" using ok k by (simp add: handle_ok_def Let_def s1)
      have "j \<in> open_on L s k" using ok k by (simp add: open_on_def handle_ok_def Let_def)
      then have "hkey L x = Some k \<Longrightarrow> {j, h} \<subseteq> open_on L s k" using mem by simp
      then have "hkey L x = Some k \<Longrightarrow> card (open_on L s k) \<ge> 2"
        using False card_mono [of "open_on L s k" "{j, h}"] by simp
      then show "\<not> (hkey L x = Some k \<and> refs_of s1 k \<le> 1)" unfolding refs by auto
    qed
    with ok False show ?thesis by (auto simp: handle_ok_def Let_def spec(1,2) s1)
  qed
  moreover have "singletonsMap s' k = Some j \<longrightarrow> j < next_handle s' \<and> hd_key (handles s' j) \<noteq> None \<and>
        (hd_driver (handles s' j), hd_dsn (handles s' j)) \<in> K \<and> hashStr (hd_driver (handles s' j) @ ''|'' @ hd_dsn (handles s' j)) = k" for k j
    using inv x unfolding pool_inv_def by (auto simp: spec(1-3) s1)
  ultimately show "pool_inv L K s'" unfolding pool_inv_def by blast
  have "refs_of s1 k \<le> 1 \<longleftrightarrow> open_on L s' k = {}" if "hkey L x = Some k" for k
  proof -
    have "refs_of s1 k \<le> 1 \<longleftrightarrow> refs_of s' k = 0" using pos [OF that] that unfolding spec(5) refs by auto
    then show ?thesis unfolding cnt by simp
  qed
  then show "out \<noteq> None \<longleftrightarrow> (\<exists>k. hkey L x = Some k \<and> open_on L s' k = {})"
    unfolding spec(7) by (auto simp: tkey_def split: option.split)
  show "dropped s' = dropped s" by (simp add: spec(4) s1)
qed

lemma adjusted: "hd_limits (adjustConnectionLimits x) = Some (limits_for (hd_refs x))" "hd_open (adjustConnectionLimits x) = hd_open x"
  "hd_refs (adjustConnectionLimits x) = hd_refs x" "hd_driver (adjustConnectionLimits x) = hd_driver x"
  "hd_dsn (adjustConnectionLimits x) = hd_dsn x" "hd_key (adjustConnectionLimits x) = hd_key x"
  by (simp_all add: adjustConnectionLimits_def limits_for_def Let_def)

lemma closed_above: "pool_inv L K s \<Longrightarrow> \<not> hd_open (handles s (next_handle s))"
  by (auto simp: pool_inv_def handle_ok_def Let_def)

lemma singleton_below: "pool_inv L K s \<Longrightarrow> singletonsMap s k \<noteq> Some (next_handle s)"
  unfolding pool_inv_def by blast

lemma infer_bar: "CHR ''|'' \<notin> set (inferDriverName dsn)"
  unfolding inferDriverName_def schemeDrivers_def by (auto simp: Let_def split: if_splits)

lemma norm_bar: "CHR ''|'' \<notin> set d0 \<Longrightarrow> normalizeDriverAndDSN L d0 x0 = Inr (d, x) \<Longrightarrow> CHR ''|'' \<notin> set d"
  using infer_bar by (auto simp: normalizeDriverAndDSN_def Let_def split: if_splits sum.splits)

lemma Open_inv:
  assumes inv: "pool_inv L K s" and bar: "CHR ''|'' \<notin> set d0"
    and play: "drop_in_play L K d0 x0"
  shows "pool_inv L K (fst (Open L sqlErr anchorErr d0 x0 s))"
proof (cases "\<exists>d x s1. normalizeDriverAndDSN L d0 x0 = Inr (d, x) \<and> sqlErr = None \<and> retainTestingDatabase L d x anchorErr s = (s1, None)")
  case True
  then obtain d x s1 where n: "normalizeDriverAndDSN L d0 x0 = Inr (d, x)" "sqlErr = None" and r: "retainTestingDatabase L d x anchorErr s = (s1, None)"
    by blast
  have e: "next_handle s1 = next_handle s" by (subst retain_spec(1) [OF r]) simp
  let ?y = "\<lparr>hd_open = True, hd_driver = d, hd_dsn = x, hd_key = None, hd_refs = 1, hd_limits = None\<rparr>"
  have "pool_inv L K (s1\<lparr>handles := (handles s1)(next_handle s := ?y), next_handle := max (next_handle s1) (Suc (next_handle s))\<rparr>)"
    by (rule pool_inv_opened [OF inv closed_above [OF inv] _ r _ _ _ _ norm_bar [OF bar n(1)] _ _ _ refl])
       (use singleton_below [OF inv] play n(1) in \<open>simp_all add: drop_in_play_def\<close>)
  then show ?thesis using n r e by (simp add: Open_def)
next
  case False
  then have "fst (Open L sqlErr anchorErr d0 x0 s) = s"
    using retain_failed by (auto simp: Open_def split: sum.split option.split prod.split)
  with inv show ?thesis by simp
qed

text \<open>The handle \<open>OpenSingleton\<close> finds or makes for a data source name.\<close>

definition singleton_for :: "libs \<Rightarrow> string \<Rightarrow> string \<Rightarrow> pools \<Rightarrow> pools \<times> nat" where
  "singleton_for L d x s =
     (let key = hashStr (d @ ''|'' @ x) in
      case singletonsMap s key of
        Some h \<Rightarrow> (s, h)
      | None \<Rightarrow> (s\<lparr>handles := (handles s)(next_handle s := \<lparr>hd_open = False, hd_driver = d, hd_dsn = x,
                     hd_key = Some key, hd_refs = 0, hd_limits = None\<rparr>), next_handle := next_handle s + 1,
                   singletonsMap := (singletonsMap s)(key \<mapsto> next_handle s)\<rparr>, next_handle s))"

lemma OpenSingleton_eq:
  assumes "normalizeDriverAndDSN L d0 x0 = Inr (d, x)" "singleton_for L d x s = (s1, h)"
  shows "OpenSingleton L sqlErr anchorErr d0 x0 s =
    (if hd_open (handles s1 h) then
       (s1\<lparr>handles := (handles s1)(h := adjustConnectionLimits ((handles s1 h)\<lparr>hd_refs := hd_refs (handles s1 h) + 1\<rparr>))\<rparr>, Inr h)
     else case sqlErr of
       Some e \<Rightarrow> (s1, Inl (Traced e))
     | None \<Rightarrow>
       (case retainTestingDatabase L d x anchorErr s1 of
          (s2, Some e) \<Rightarrow> (s2, Inl (Traced e))
        | (s2, None) \<Rightarrow>
          (s2\<lparr>handles := (handles s2)(h := adjustConnectionLimits ((handles s2 h)\<lparr>hd_open := True, hd_refs := 1\<rparr>))\<rparr>, Inr h)))"
  unfolding OpenSingleton_def Let_def using assms(1) assms(2) [unfolded singleton_for_def Let_def] by simp

lemma singleton_for_inv:
  assumes inv: "pool_inv L K s" and env: "no_collision L K" "CHR ''|'' \<notin> set d0" "in_play L K d0 x0" and n: "normalizeDriverAndDSN L d0 x0 = Inr (d, x)" and f: "singleton_for L d x s = (s1, h)"
  shows "pool_inv L K s1" "h < next_handle s1" "hd_driver (handles s1 h) = d" "hd_dsn (handles s1 h) = x" "hd_key (handles s1 h) \<noteq> None"
    "singletonsMap s1 k = Some h \<Longrightarrow> hashStr (d @ ''|'' @ x) = k" "(d, x) \<in> K" "master_in_play L K d x" "open_on L s1 k = open_on L s k" "dropped s1 = dropped s"
proof -
  let ?key = "hashStr (d @ ''|'' @ x)"
  have K: "(d, x) \<in> K" using env(3) n by (simp add: in_play_def)
  then show "(d, x) \<in> K" "master_in_play L K d x" using env(1) by (auto simp: no_collision_def)
  have "pool_inv L K s1 \<and> h < next_handle s1 \<and> hd_driver (handles s1 h) = d \<and> hd_dsn (handles s1 h) = x \<and>
      hd_key (handles s1 h) \<noteq> None \<and> (\<forall>k. open_on L s1 k = open_on L s k) \<and> dropped s1 = dropped s"
  proof (cases "singletonsMap s ?key")
    case (Some i)
    with f have s1: "s1 = s" "h = i" by (simp_all add: singleton_for_def)
    with Some inv have h: "h < next_handle s" "hd_key (handles s h) \<noteq> None" "(hd_driver (handles s h), hd_dsn (handles s h)) \<in> K"
      "hashStr (hd_driver (handles s h) @ ''|'' @ hd_dsn (handles s h)) = ?key" unfolding pool_inv_def by blast+
    then have "(hd_driver (handles s h), hd_dsn (handles s h)) = (d, x)"
      using env(1) K unfolding no_collision_def by (auto dest: inj_onD [where x = "(hd_driver (handles s h), hd_dsn (handles s h))" and y = "(d, x)"])
    with h s1 inv show ?thesis by simp
  next
    case None
    define y where "y = \<lparr>hd_open = False, hd_driver = d, hd_dsn = x, hd_key = Some ?key, hd_refs = 0, hd_limits = None\<rparr>"
    have s1: "s1 = s\<lparr>handles := (handles s)(next_handle s := y), next_handle := next_handle s + 1,
        singletonsMap := (singletonsMap s)(?key \<mapsto> next_handle s)\<rparr>" "h = next_handle s"
      using f None by (auto simp: singleton_for_def y_def Let_def)
    have o1: "open_on L s1 k = open_on L s k" for k by (auto simp: open_on_def s1 y_def less_Suc_eq)
    have "handle_ok L K s1 j" for j
    proof -
      have "handle_ok L K s j" using inv by (simp add: pool_inv_def)
      then show ?thesis by (cases "j = next_handle s") (auto simp: handle_ok_def Let_def s1 y_def)
    qed
    moreover have "refs_of s1 k = int (card (open_on L s1 k))" for k
      using inv unfolding pool_inv_def o1 by (simp add: refs_of_def s1)
    moreover have "singletonsMap s1 k = Some j \<longrightarrow> j < next_handle s1 \<and> hd_key (handles s1 j) \<noteq> None \<and>
        (hd_driver (handles s1 j), hd_dsn (handles s1 j)) \<in> K \<and> hashStr (hd_driver (handles s1 j) @ ''|'' @ hd_dsn (handles s1 j)) = k" for k j
    proof (cases "k = ?key")
      case True
      then show ?thesis using K by (auto simp: s1 y_def)
    next
      case False
      have "singletonsMap s k = Some j \<longrightarrow> j < next_handle s \<and> hd_key (handles s j) \<noteq> None \<and>
        (hd_driver (handles s j), hd_dsn (handles s j)) \<in> K \<and> hashStr (hd_driver (handles s j) @ ''|'' @ hd_dsn (handles s j)) = k"
        using inv unfolding pool_inv_def by blast
      with False show ?thesis by (auto simp: s1)
    qed
    ultimately have "pool_inv L K s1" unfolding pool_inv_def by blast
    then show ?thesis using o1 by (simp add: s1 y_def)
  qed
  then show i: "pool_inv L K s1" and "h < next_handle s1" and d: "hd_driver (handles s1 h) = d" "hd_dsn (handles s1 h) = x"
    and "hd_key (handles s1 h) \<noteq> None" "open_on L s1 k = open_on L s k" "dropped s1 = dropped s" by blast+
  show "singletonsMap s1 k = Some h \<Longrightarrow> hashStr (d @ ''|'' @ x) = k" using i d unfolding pool_inv_def by metis
qed

end
