(* ===== verification/Pool_Steps.thy ===== *)
theory Pool_Steps
  imports Pool_Inv
begin

section \<open>The operations on handles\<close>

text \<open>
  Every sequence of \<^verbatim>\<open>Open\<close>, \<^verbatim>\<open>OpenSingleton\<close> and \<^verbatim>\<open>Close\<close> keeps the invariant, whatever the environment
  answers; the theorems say when a testing database is dropped and how large a shared pool may grow.
\<close>

lemma OpenSingleton_inv:
  assumes inv: "pool_inv L K s" and env: "no_collision L K" "CHR ''|'' \<notin> set d0" "in_play L K d0 x0"
  shows "pool_inv L K (fst (OpenSingleton L sqlErr anchorErr d0 x0 s))"
proof (cases "normalizeDriverAndDSN L d0 x0")
  case (Inr dx)
  obtain d x where n: "normalizeDriverAndDSN L d0 x0 = Inr (d, x)" using Inr by (cases dx) auto
  obtain s1 h where f: "singleton_for L d x s = (s1, h)" by fastforce
  note one = singleton_for_inv [OF inv env n f]
  show ?thesis
  proof (cases "hd_open (handles s1 h)")
    case True
    have "pool_inv L K (s1\<lparr>handles := (handles s1)(h := adjustConnectionLimits ((handles s1 h)\<lparr>hd_refs := hd_refs (handles s1 h) + 1\<rparr>))\<rparr>)"
      by (rule pool_inv_changed [OF one(1) refl True _ _ _ _ _ _ refl]) (use True in \<open>simp_all add: adjusted\<close>)
    with True show ?thesis by (simp add: OpenSingleton_eq [OF n f])
  next
    case closed: False
    show ?thesis
    proof (cases "sqlErr = None \<and> snd (retainTestingDatabase L d x anchorErr s1) = None")
      case True
      then obtain s2 where r: "retainTestingDatabase L d x anchorErr s1 = (s2, None)" by (metis prod.collapse)
      have e: "next_handle s2 = next_handle s1" "handles s2 = handles s1" by (subst retain_spec(1) [OF r], simp)+
      let ?y = "adjustConnectionLimits ((handles s2 h)\<lparr>hd_open := True, hd_refs := 1\<rparr>)"
      have "pool_inv L K (s2\<lparr>handles := (handles s2)(h := ?y), next_handle := max (next_handle s2) (Suc h)\<rparr>)"
        by (rule pool_inv_opened [OF one(1) closed _ r _ _ _ _ norm_bar [OF env(2) n] one(8) _ _ refl])
           (use one(2-7) e in \<open>auto simp: adjusted\<close>)
      moreover have "max (next_handle s2) (Suc h) = next_handle s2" using one(2) e by simp
      ultimately show ?thesis using True r closed by (simp add: OpenSingleton_eq [OF n f])
    next
      case False
      then have "fst (OpenSingleton L sqlErr anchorErr d0 x0 s) = s1"
        using closed retain_failed [of L d x anchorErr s1]
        by (auto simp: OpenSingleton_eq [OF n f] split: option.split prod.split)
      with one(1) show ?thesis by simp
    qed
  qed
qed (use inv in \<open>simp add: OpenSingleton_def\<close>)

text \<open>Opening a handle on something else than a testing database leaves the handles on testing databases alone.\<close>

lemma OpenSingleton_other:
  assumes inv: "pool_inv L K s" and env: "no_collision L K" "CHR ''|'' \<notin> set d0" "in_play L K d0 x0"
    and n: "normalizeDriverAndDSN L d0 x0 = Inr (d, x)" and t: "testingDatabaseNameOf L d x = None"
  obtains s' m where "OpenSingleton L None anchorErr d0 x0 s = (s', Inr m)" "\<And>k. open_on L s' k = open_on L s k"
    "dropped s' = dropped s" "hkey L (handles s' m) = None"
proof -
  obtain s1 h where f: "singleton_for L d x s = (s1, h)" by fastforce
  note one = singleton_for_inv [OF inv env n f]
  define y where "y = adjustConnectionLimits (if hd_open (handles s1 h) then (handles s1 h)\<lparr>hd_refs := hd_refs (handles s1 h) + 1\<rparr>
      else (handles s1 h)\<lparr>hd_open := True, hd_refs := 1\<rparr>)"
  define s' where "s' = s1\<lparr>handles := (handles s1)(h := y)\<rparr>"
  have "retainTestingDatabase L d x anchorErr s1 = (s1, None)" using t by (simp add: retainTestingDatabase_def)
  then have o1: "OpenSingleton L None anchorErr d0 x0 s = (s', Inr h)"
    unfolding OpenSingleton_eq [OF n f] s'_def y_def by simp
  have hk: "tkey L d x = None" using t by (simp add: tkey_def)
  have y: "hd_driver y = d" "hd_dsn y = x" by (simp_all add: y_def adjusted one(3,4))
  have "open_on L s' k = open_on L s1 k" for k using hk one(3,4) y by (auto simp: open_on_def s'_def)
  with o1 that one(9,10) hk y show thesis by (simp add: s'_def)
qed

lemma closeHandle_cases:
  assumes inv: "pool_inv L K s" and c: "closeHandle L h s = (s', out)"
  obtains (idle) "\<not> hd_open (handles s h)" "s' = s" "out = None"
  | (shared) "hd_open (handles s h)" "pool_inv L K s'" "out = None" "\<And>k. open_on L s' k = open_on L s k" "dropped s' = dropped s"
      "hd_refs (handles s h) \<noteq> 1"
  | (last) "hd_open (handles s h)" "pool_inv L K s'" "out \<noteq> None \<longleftrightarrow> (\<exists>k. hkey L (handles s h) = Some k \<and> open_on L s' k = {})"
      "\<And>k. open_on L s' k = open_on L s k - {h}" "dropped s' = dropped s" "hd_refs (handles s h) = 1"
proof (cases "hd_open (handles s h)")
  case False
  then have "s' = s" "out = None" using c by (simp_all add: closeHandle_def Let_def)
  with False show thesis by (rule idle)
next
  case True
  let ?x = "handles s h"
  have pos: "hd_refs ?x > 0" using inv True by (auto simp: pool_inv_def handle_ok_def Let_def)
  show thesis
  proof (cases "hd_refs ?x = 1")
    case one: True
    with c True have r: "releaseTestingDatabase L (hd_driver ?x) (hd_dsn ?x)
        (s\<lparr>handles := (handles s)(h := ?x\<lparr>hd_refs := 0, hd_open := False\<rparr>)\<rparr>) = (s', out)" by (simp add: closeHandle_def Let_def)
    note cl = pool_inv_closed [OF inv refl True refl r]
    show thesis by (rule last [OF True cl(1,2,4,3) one])
  next
    case False
    let ?y = "adjustConnectionLimits (?x\<lparr>hd_refs := hd_refs ?x - 1\<rparr>)"
    have "closeHandle L h s = (s\<lparr>handles := (handles s)(h := ?y)\<rparr>, None)" using pos False True by (simp add: closeHandle_def Let_def)
    with c have s': "s' = s\<lparr>handles := (handles s)(h := ?y)\<rparr>" "out = None" by simp_all
    have "pool_inv L K s'"
      by (rule pool_inv_changed [OF inv refl True _ _ _ _ _ _ s'(1)]) (use True pos False in \<open>simp_all add: adjusted\<close>)
    moreover have "open_on L s' k = open_on L s k" for k using True by (auto simp: open_on_def s' adjusted)
    moreover have "dropped s' = dropped s" by (simp add: s')
    ultimately show thesis using shared True s'(2) False by blast
  qed
qed

lemma closeHandle_inv:
  assumes "pool_inv L K s"
  shows "pool_inv L K (fst (closeHandle L h s))"
proof -
  obtain s' out where c: "closeHandle L h s = (s', out)" by fastforce
  from assms c show ?thesis by (rule closeHandle_cases) (use assms c in simp_all)
qed

lemma pool_inv_dropped [simp]: "pool_inv L K (s\<lparr>dropped := x\<rparr>) = pool_inv L K s" "open_on L (s\<lparr>dropped := x\<rparr>) k = open_on L s k"
  by (simp_all add: pool_inv_def handle_ok_def open_on_def refs_of_def Let_def)

lemma dropDatabase_inv:
  assumes inv: "pool_inv L K s" and env: "no_collision L K" "CHR ''|'' \<notin> set d" "master_in_play L K d x" and d: "d \<noteq> ''sqlite''"
  shows "pool_inv L K (dropDatabase L masterErr d x name s)"
proof (cases "setDatabaseInDataSourceName L d x []")
  case (Inr m)
  obtain s1 r where o1: "OpenSingleton L masterErr None d m s = (s1, r)" by fastforce
  have "in_play L K d m" using env(3) Inr d by (simp add: master_in_play_def)
  with OpenSingleton_inv [OF inv env(1,2), of m masterErr None] have "pool_inv L K s1" using o1 by simp
  then show ?thesis using closeHandle_inv by (cases r) (simp_all add: dropDatabase_def Inr o1)
qed (use inv in \<open>simp add: dropDatabase_def\<close>)

lemma Close_inv:
  assumes inv: "pool_inv L K s" and env: "no_collision L K"
  shows "pool_inv L K (fst (Close L closeErr masterErr h s))"
proof -
  obtain s1 out where c: "closeHandle L h s = (s1, out)" by fastforce
  with closeHandle_inv [OF inv, of h] have i: "pool_inv L K s1" by simp
  show ?thesis
  proof (cases out)
    case (Some name)
    then have "hd_open (handles s h)" using c by (auto simp: closeHandle_def Let_def split: if_splits)
    then have "CHR ''|'' \<notin> set (hd_driver (handles s h))" "master_in_play L K (hd_driver (handles s h)) (hd_dsn (handles s h))"
      using inv by (auto simp: pool_inv_def handle_ok_def Let_def)
    with dropDatabase_inv [OF i env] i show ?thesis by (simp add: Close_def Let_def c Some)
  qed (use i c in \<open>simp add: Close_def Let_def\<close>)
qed

subsection \<open>Sequences of operations\<close>

definition pool_start :: pools where
  "pool_start = \<lparr>singletonsMap = Map.empty,
     handles = (\<lambda>_. \<lparr>hd_open = False, hd_driver = [], hd_dsn = [], hd_key = None, hd_refs = 0, hd_limits = None\<rparr>),
     next_handle = 0, testingDBRefs = Map.empty, testingDBKeys = Map.empty, testingDSNs = Map.empty,
     testingAnchors = {}, dropped = []\<rparr>"

text \<open>Any operation on the names in play, with any answers of the drivers; the name of a driver holds no bar.\<close>

inductive pool_step :: "libs \<Rightarrow> (string \<times> string) set \<Rightarrow> pools \<Rightarrow> pools \<Rightarrow> bool" for L K where
  opened: "CHR ''|'' \<notin> set d \<Longrightarrow> drop_in_play L K d x \<Longrightarrow> pool_step L K s (fst (Open L sqlErr anchorErr d x s))"
| opened_singleton: "CHR ''|'' \<notin> set d \<Longrightarrow> in_play L K d x \<Longrightarrow> pool_step L K s (fst (OpenSingleton L sqlErr anchorErr d x s))"
| closed: "pool_step L K s (fst (Close L closeErr masterErr h s))"

lemma pool_start_inv: "pool_inv L K pool_start"
  by (simp add: pool_inv_def handle_ok_def open_on_def refs_of_def pool_start_def Let_def)

lemma pool_step_inv: "pool_step L K s s' \<Longrightarrow> no_collision L K \<Longrightarrow> pool_inv L K s \<Longrightarrow> pool_inv L K s'"
  by (induction rule: pool_step.induct) (simp_all add: Open_inv OpenSingleton_inv Close_inv)

lemma pool_reachable_inv: "(pool_step L K)\<^sup>*\<^sup>* pool_start s \<Longrightarrow> no_collision L K \<Longrightarrow> pool_inv L K s"
  by (induction rule: rtranclp_induct) (auto simp: pool_start_inv intro: pool_step_inv)

lemma open_on_empty:
  "open_on L s k = {} \<longleftrightarrow> list_all (\<lambda>h. \<not> (hd_open (handles s h) \<and> hkey L (handles s h) = Some k)) [0..<next_handle s]"
  by (auto simp: open_on_def list_all_iff)

lemma retain_dsns: "testingDSNs (fst (retainTestingDatabase L d x a s)) = testingDSNs s"
  by (simp add: retainTestingDatabase_def Let_def split: option.split)

lemma OpenSingleton_dsns: "testingDSNs (fst (OpenSingleton L e a d0 x0 s)) = testingDSNs s"
proof (cases "normalizeDriverAndDSN L d0 x0")
  case (Inr dx)
  obtain d x where n: "normalizeDriverAndDSN L d0 x0 = Inr (d, x)" using Inr by (cases dx) auto
  obtain s1 h where f: "singleton_for L d x s = (s1, h)" by fastforce
  have "testingDSNs s1 = testingDSNs s" using f by (auto simp: singleton_for_def Let_def split: option.splits)
  moreover obtain s2 r where "retainTestingDatabase L d x a s1 = (s2, r)" by fastforce
  moreover from this retain_dsns [of L d x a s1] have "testingDSNs s2 = testingDSNs s1" by simp
  ultimately show ?thesis by (cases r) (simp_all add: OpenSingleton_eq [OF n f] split: option.split)
qed (simp add: OpenSingleton_def)

text \<open>A handle on something else than a testing database is closed without touching the cache.\<close>

lemma closeHandle_other:
  assumes "hkey L (handles s h) = None"
  shows "snd (closeHandle L h s) = None" "testingDSNs (fst (closeHandle L h s)) = testingDSNs s"
  using assms by (auto simp: closeHandle_def releaseTestingDatabase_def tkey_def Let_def)

lemma Close_other: "hkey L (handles s h) = None \<Longrightarrow> testingDSNs (fst (Close L ce me h s)) = testingDSNs s"
  using closeHandle_other [of L s h] by (cases "closeHandle L h s") (simp add: Close_def Let_def)

text \<open>The cache of data source names once the testing database \<open>key\<close> is forgotten.\<close>

definition without_cached :: "pools \<Rightarrow> string \<Rightarrow> (string \<rightharpoonup> string)" where
  "without_cached s key = (case testingDBKeys s key of None \<Rightarrow> testingDSNs s | Some ck \<Rightarrow> (testingDSNs s)(ck := None))"

lemma closeHandle_dsns:
  "closeHandle L h s = (s1, out) \<Longrightarrow> hkey L (handles s h) = Some key \<Longrightarrow>
   testingDSNs s1 = (if out = None then testingDSNs s else without_cached s key)"
  by (auto simp: closeHandle_def releaseTestingDatabase_def tkey_def without_cached_def Let_def split: if_splits option.splits)

text \<open>
  Closing a handle on a testing database: it is dropped exactly when no handle on it is left, if the server can be
  reached under a name without the database; then its data source name is forgotten.
\<close>

lemma close_drops:
  assumes inv: "pool_inv L K s" and env: "no_collision L K" and h: "hd_open (handles s h)"
    and x: "handles s h = x" "hd_driver x \<noteq> ''sqlite''" "testingDatabaseNameOf L (hd_driver x) (hd_dsn x) = Some name"
    and key: "key = testingDatabaseKey L (hd_driver x) (hd_dsn x) name"
    and master: "setDatabaseInDataSourceName L (hd_driver x) (hd_dsn x) [] = Inr m"
      "normalizeDriverAndDSN L (hd_driver x) m = Inr (d', x')" "testingDatabaseNameOf L d' x' = None"
    and s': "s' = fst (Close L closeErr None h s)"
  shows "open_on L s' key = open_on L s key - (if hd_refs x = 1 then {h} else {}) \<and> dropped s' = (if open_on L s' key = {} then [key] else []) @ dropped s \<and>
    testingDSNs s' = (if open_on L s' key = {} then without_cached s key else testingDSNs s)"
proof -
  have hk: "hkey L x = Some key" using x key by (simp add: tkey_def)
  have ok: "CHR ''|'' \<notin> set (hd_driver x)" "h < next_handle s" using inv h x(1) by (auto simp: pool_inv_def handle_ok_def Let_def)
  have "master_in_play L K (hd_driver x) (hd_dsn x)" using inv h x(1) by (auto simp: pool_inv_def handle_ok_def Let_def)
  then have play: "in_play L K (hd_driver x) m" using master(1) x(2) by (simp add: master_in_play_def)
  have mem: "h \<in> open_on L s key" using h x(1) hk ok(2) by (simp add: open_on_def)
  obtain s1 out where c: "closeHandle L h s = (s1, out)" by fastforce
  have cache: "testingDSNs s1 = (if out = None then testingDSNs s else without_cached s key)"
    using closeHandle_dsns [OF c] hk x(1) by simp
  from inv c show ?thesis
  proof (cases rule: closeHandle_cases)
    case shared
    with c s' mem cache x(1) show ?thesis by (auto simp: Close_def Let_def)
  next
    case last
    then have out: "out \<noteq> None \<longleftrightarrow> open_on L s1 key = {}" using hk x(1) by auto
    show ?thesis
    proof (cases out)
      case None
      with c s' last(4,5,6) out cache x(1) show ?thesis by (auto simp: Close_def Let_def)
    next
      case (Some name')
      then have "name' = name" using c x release_spec(7) by (fastforce simp: closeHandle_def Let_def tkey_def split: if_splits option.splits)
      obtain s2 mh where o2: "OpenSingleton L None None (hd_driver x) m s1 = (s2, Inr mh)" "\<And>k. open_on L s2 k = open_on L s1 k"
        "dropped s2 = dropped s1" "hkey L (handles s2 mh) = None"
        using OpenSingleton_other [OF last(2) env ok(1) play master(2,3)] by blast
      have i2: "pool_inv L K s2" using OpenSingleton_inv [OF last(2) env ok(1) play, of None None] o2(1) by simp
      let ?s2 = "s2\<lparr>dropped := key # dropped s2\<rparr>"
      obtain s3 out3 where c3: "closeHandle L mh ?s2 = (s3, out3)" by fastforce
      have e: "s' = s3" using s' c Some x(1,2) master(1) o2(1) c3 key \<open>name' = name\<close>
        by (simp add: Close_def Let_def dropDatabase_def)
      have "pool_inv L K ?s2" using i2 by simp
      have "mh \<notin> open_on L s2 key" using o2(4) by (simp add: open_on_def)
      from \<open>pool_inv L K ?s2\<close> c3 have "open_on L s3 key = open_on L s2 key \<and> dropped s3 = key # dropped s2"
      proof (cases rule: closeHandle_cases)
        case last
        with \<open>mh \<notin> open_on L s2 key\<close> show ?thesis by simp
      qed simp_all
      moreover have "testingDSNs s3 = testingDSNs s1"
        using closeHandle_other(2) [of L ?s2 mh] o2(4) c3 OpenSingleton_dsns [of L None None "hd_driver x" m s1] o2(1) by simp
      ultimately show ?thesis using e o2(2,3) last(4,5,6) out Some cache x(1) by auto
    qed
  qed (use h in simp)
qed

subsection \<open>The server's own handle\<close>

text \<open>Opening a handle that is on no testing database, whatever the driver answers.\<close>

lemma OpenSingleton_plain_on:
  assumes inv: "pool_inv L K s" and env: "no_collision L K" "CHR ''|'' \<notin> set d0" "in_play L K d0 x0"
    and n: "normalizeDriverAndDSN L d0 x0 = Inr (d, x)" and t: "testingDatabaseNameOf L d x = None"
  shows "open_on L (fst (OpenSingleton L e a d0 x0 s)) k = open_on L s k"
proof -
  obtain s1 h where f: "singleton_for L d x s = (s1, h)" by fastforce
  note one = singleton_for_inv [OF inv env n f]
  have hk: "tkey L d x = None" using t by (simp add: tkey_def)
  have "open_on L (s1\<lparr>handles := (handles s1)(h := y)\<rparr>) k = open_on L s1 k" if "hd_driver y = d" "hd_dsn y = x" for y
    using hk one(3,4) that by (auto simp: open_on_def)
  moreover have "retainTestingDatabase L d x a s1 = (s1, None)" using t by (simp add: retainTestingDatabase_def)
  ultimately show ?thesis
    by (simp add: OpenSingleton_eq [OF n f] one(3,4,9) adjusted split: option.split)
qed

text \<open>
  Closing a handle on no testing database, and the DROP, leave the handles on testing databases and the cache of
  their names alone.
\<close>

lemma closeHandle_plain_on:
  assumes "pool_inv L K s" "hkey L (handles s h) = None"
  shows "open_on L (fst (closeHandle L h s)) k = open_on L s k"
proof -
  obtain s' out where c: "closeHandle L h s = (s', out)" by fastforce
  have "h \<notin> open_on L s k" using assms(2) by (simp add: open_on_def)
  with assms(1) c have "open_on L s' k = open_on L s k" by (cases rule: closeHandle_cases) auto
  then show ?thesis by (simp add: c)
qed

lemma OpenSingleton_handle:
  assumes inv: "pool_inv L K s" and env: "no_collision L K" "CHR ''|'' \<notin> set d0" "in_play L K d0 x0"
    and o1: "OpenSingleton L e a d0 x0 s = (s', Inr h)"
  obtains d x where "normalizeDriverAndDSN L d0 x0 = Inr (d, x)" "hkey L (handles s' h) = tkey L d x"
proof (cases "normalizeDriverAndDSN L d0 x0")
  case (Inr dx)
  obtain d x where n: "normalizeDriverAndDSN L d0 x0 = Inr (d, x)" using Inr by (cases dx) auto
  obtain s1 i where f: "singleton_for L d x s = (s1, i)" by fastforce
  note one = singleton_for_inv [OF inv env n f]
  obtain s2 r where t: "retainTestingDatabase L d x a s1 = (s2, r)" by fastforce
  have "handles s2 = handles s1" if "r = None" using retain_spec(1) [OF t [unfolded that]] by (metis pools.simps(2) pools.surjective pools.update_convs)
  then have "h = i \<and> hd_driver (handles s' i) = d \<and> hd_dsn (handles s' i) = x"
    using o1 one(3,4) t by (cases r) (auto simp: OpenSingleton_eq [OF n f] adjusted split: if_splits option.splits)
  with n that show thesis by simp
qed (use o1 in \<open>simp add: OpenSingleton_def\<close>)

text \<open>The handle on the server that \<open>OpenSingleton\<close> opens for a database in play, and what it leaves alone.\<close>

lemma open_master:
  assumes inv: "pool_inv L K s" and env: "no_collision L K" "CHR ''|'' \<notin> set d" "master_in_play L K d x"
    and d: "d \<noteq> ''sqlite''" and m: "setDatabaseInDataSourceName L d x [] = Inr m"
    and o1: "OpenSingleton L e a d m s = (s1, r)"
  shows "pool_inv L K s1" "open_on L s1 k = open_on L s k" "testingDSNs s1 = testingDSNs s"
    "r = Inr h \<Longrightarrow> hkey L (handles s1 h) = None"
proof -
  have p: "in_play L K d m" "master_is_plain L d x" using env(3) d m by (simp_all add: master_in_play_def)
  from OpenSingleton_inv [OF inv env(1,2) p(1), of e a] o1 show "pool_inv L K s1" by simp
  show "testingDSNs s1 = testingDSNs s" using OpenSingleton_dsns [of L e a d m s] o1 by simp
  show "open_on L s1 k = open_on L s k"
  proof (cases "normalizeDriverAndDSN L d m")
    case (Inr n)
    then obtain d' x' where n: "normalizeDriverAndDSN L d m = Inr (d', x')" by (cases n) auto
    with p(2) m have "testingDatabaseNameOf L d' x' = None" by (simp add: master_is_plain_def)
    from OpenSingleton_plain_on [OF inv env(1,2) p(1) n this, of e a k] o1 show ?thesis by simp
  qed (use o1 in \<open>auto simp: OpenSingleton_def\<close>)
  show "hkey L (handles s1 h) = None" if "r = Inr h"
  proof (rule OpenSingleton_handle [OF inv env(1,2) p(1) o1 [unfolded that]])
    fix d' x' assume "normalizeDriverAndDSN L d m = Inr (d', x')" "hkey L (handles s1 h) = tkey L d' x'"
    with p(2) m show ?thesis by (simp add: master_is_plain_def tkey_def)
  qed
qed

lemma dropDatabase_plain:
  assumes inv: "pool_inv L K s" and env: "no_collision L K" "CHR ''|'' \<notin> set d" "master_in_play L K d x"
    and d: "d \<noteq> ''sqlite''"
  shows "open_on L (dropDatabase L e d x name s) k = open_on L s k"
    "testingDSNs (dropDatabase L e d x name s) = testingDSNs s"
proof -
  have "open_on L (dropDatabase L e d x name s) k = open_on L s k \<and> testingDSNs (dropDatabase L e d x name s) = testingDSNs s"
  proof (cases "setDatabaseInDataSourceName L d x []")
    case (Inr m)
    obtain s1 r where o1: "OpenSingleton L e None d m s = (s1, r)" by fastforce
    note om = open_master [OF inv env d Inr o1]
    show ?thesis
    proof (cases r)
      case (Inr h)
      let ?s2 = "s1\<lparr>dropped := testingDatabaseKey L d x name # dropped s1\<rparr>"
      have "pool_inv L K ?s2" "hkey L (handles ?s2 h) = None" using om(1,4) Inr by simp_all
      from closeHandle_plain_on [OF this, of k] closeHandle_other(2) [OF this(2)] om(2,3) show ?thesis
        by (simp add: dropDatabase_def \<open>setDatabaseInDataSourceName L d x [] = Inr m\<close> o1 Inr)
    qed (use om o1 Inr in \<open>simp add: dropDatabase_def\<close>)
  qed (simp add: dropDatabase_def)
  then show "open_on L (dropDatabase L e d x name s) k = open_on L s k"
    "testingDSNs (dropDatabase L e d x name s) = testingDSNs s" by blast+
qed

text \<open>
  A \<open>Close\<close> that takes a name out of the cache leaves no handle on the database the name was remembered for.
\<close>

lemma Close_forgets:
  assumes inv: "pool_inv L K s" and env: "no_collision L K"
    and s': "s' = fst (Close L closeErr masterErr h s)" and f: "testingDSNs s' ck \<noteq> testingDSNs s ck"
  obtains key where "testingDBKeys s key = Some ck" "open_on L s key \<noteq> {}" "open_on L s' key = {}"
proof -
  let ?x = "handles s h"
  obtain s1 out where c: "closeHandle L h s = (s1, out)" by fastforce
  with closeHandle_inv [OF inv, of h] have i: "pool_inv L K s1" by simp
  have same: "open_on L s' k = open_on L s1 k \<and> testingDSNs s' = testingDSNs s1" for k
  proof (cases "out = None \<or> hd_driver ?x = ''sqlite''")
    case True
    then show ?thesis by (auto simp: s' Close_def Let_def c split: option.split)
  next
    case False
    then obtain name where n: "out = Some name" by (cases out) auto
    then have "hd_open ?x" using c by (auto simp: closeHandle_def Let_def split: if_splits)
    then have "CHR ''|'' \<notin> set (hd_driver ?x)" "master_in_play L K (hd_driver ?x) (hd_dsn ?x)"
      using inv by (auto simp: pool_inv_def handle_ok_def Let_def)
    from dropDatabase_plain [OF i env this] False n show ?thesis by (simp add: s' Close_def Let_def c)
  qed
  with f have f1: "testingDSNs s1 ck \<noteq> testingDSNs s ck" by simp
  then obtain key where k: "hkey L ?x = Some key" using closeHandle_other(2) [of L s h] c by (cases "hkey L ?x") auto
  with f1 closeHandle_dsns [OF c] have o2: "out \<noteq> None" "testingDBKeys s key = Some ck"
    by (auto simp: without_cached_def split: if_splits option.splits)
  from inv c show thesis
  proof (cases rule: closeHandle_cases)
    case last
    then have "h \<in> open_on L s key" using k inv by (auto simp: open_on_def pool_inv_def handle_ok_def Let_def)
    moreover have "open_on L s1 key = {}" using last(3) o2(1) k by auto
    ultimately show thesis using that [OF o2(2)] same by auto
  qed (use o2 in simp_all)
qed

subsection \<open>The count of a shared handle\<close>

text \<open>Each operation's effect on the counts the handles keep.\<close>

abbreviation counts :: "pools \<Rightarrow> nat \<Rightarrow> nat" where
  "counts s \<equiv> (\<lambda>h. hd_refs (handles s h))"

definition counted :: "(error + nat) \<Rightarrow> (nat \<Rightarrow> nat) \<Rightarrow> nat \<Rightarrow> nat" where
  "counted out n = (case out of Inl _ \<Rightarrow> n | Inr h \<Rightarrow> n(h := n h + 1))"

lemma closed_zero: "pool_inv L K s \<Longrightarrow> \<not> hd_open (handles s h) \<Longrightarrow> hd_refs (handles s h) = 0"
  by (auto simp: pool_inv_def handle_ok_def Let_def)

lemma retain_handles: "handles (fst (retainTestingDatabase L d x a s)) = handles s" "next_handle (fst (retainTestingDatabase L d x a s)) = next_handle s"
  by (simp_all add: retainTestingDatabase_def Let_def split: option.split)

lemma Open_counts:
  assumes "pool_inv L K s"
  shows "counts (fst (Open L e a d0 x0 s)) = counted (snd (Open L e a d0 x0 s)) (counts s)"
proof -
  have z: "hd_refs (handles s (next_handle s)) = 0" by (rule closed_zero [OF assms closed_above [OF assms]])
  have "handles s1 = handles s \<and> next_handle s1 = next_handle s" if "retainTestingDatabase L d x a s = (s1, r)" for d x s1 r
    using retain_handles [of L d x a s] that by simp
  with z show ?thesis
    by (fastforce simp: Open_def counted_def fun_eq_iff split: sum.split option.split prod.split)
qed

lemma OpenSingleton_counts:
  assumes inv: "pool_inv L K s" and env: "no_collision L K" "CHR ''|'' \<notin> set d0" "in_play L K d0 x0"
  shows "counts (fst (OpenSingleton L e a d0 x0 s)) = counted (snd (OpenSingleton L e a d0 x0 s)) (counts s)"
proof (cases "normalizeDriverAndDSN L d0 x0")
  case (Inr dx)
  obtain d x where n: "normalizeDriverAndDSN L d0 x0 = Inr (d, x)" using Inr by (cases dx) auto
  obtain s1 h where f: "singleton_for L d x s = (s1, h)" by fastforce
  note one = singleton_for_inv [OF inv env n f]
  have c: "counts s1 = counts s"
    using f closed_zero [OF inv closed_above [OF inv]] by (auto simp: singleton_for_def Let_def fun_eq_iff split: option.splits)
  obtain s2 r where t: "retainTestingDatabase L d x a s1 = (s2, r)" by fastforce
  with retain_handles [of L d x a s1] have h2: "handles s2 = handles s1" by simp
  have "hd_refs (handles s1 h) = 0" if "\<not> hd_open (handles s1 h)" using closed_zero [OF one(1) that] .
  moreover have "hd_refs (handles s1 j) = hd_refs (handles s j)" for j using fun_cong [OF c, of j] .
  ultimately show ?thesis
    by (auto simp: OpenSingleton_eq [OF n f] t h2 counted_def adjusted fun_eq_iff split: option.split)
qed (simp add: OpenSingleton_def counted_def)

lemma closeHandle_counts:
  assumes "pool_inv L K s"
  shows "counts (fst (closeHandle L h s)) = (counts s)(h := hd_refs (handles s h) - 1)"
proof -
  have "hd_refs (handles s h) = 0" if "\<not> hd_open (handles s h)" using closed_zero [OF assms that] .
  moreover have "handles (fst (releaseTestingDatabase L d x s1)) = handles s1" for d x s1
    by (simp add: releaseTestingDatabase_def Let_def split: option.split)
  ultimately show ?thesis by (auto simp: closeHandle_def adjusted fun_eq_iff Let_def)
qed

text \<open>The handle the DROP runs on is opened and closed again.\<close>

lemma dropDatabase_counts:
  assumes inv: "pool_inv L K s" and env: "no_collision L K" "CHR ''|'' \<notin> set d" "master_in_play L K d x"
    and d: "d \<noteq> ''sqlite''"
  shows "counts (dropDatabase L e d x name s) = counts s"
proof (cases "setDatabaseInDataSourceName L d x []")
  case (Inr m)
  obtain s1 r where o1: "OpenSingleton L e None d m s = (s1, r)" by fastforce
  note om = open_master [OF inv env d Inr o1]
  have p: "in_play L K d m" using env(3) d Inr by (simp add: master_in_play_def)
  have c: "counts s1 = counted r (counts s)" using OpenSingleton_counts [OF inv env(1,2) p, of e None] o1 by simp
  show ?thesis
  proof (cases r)
    case (Inr h)
    let ?s2 = "s1\<lparr>dropped := testingDatabaseKey L d x name # dropped s1\<rparr>"
    have "pool_inv L K ?s2" using om(1) by simp
    from closeHandle_counts [OF this, of h] c have "counts (fst (closeHandle L h ?s2)) = counts s"
      using Inr by (auto simp: counted_def fun_eq_iff)
    then show ?thesis
      by (simp add: dropDatabase_def \<open>setDatabaseInDataSourceName L d x [] = Inr m\<close> o1 Inr)
  qed (use c o1 Inr in \<open>simp add: dropDatabase_def counted_def\<close>)
qed (simp add: dropDatabase_def)

lemma Close_counts:
  assumes inv: "pool_inv L K s" and env: "no_collision L K"
  shows "counts (fst (Close L closeErr masterErr h s)) = (counts s)(h := hd_refs (handles s h) - 1)"
proof -
  let ?x = "handles s h"
  obtain s1 out where c: "closeHandle L h s = (s1, out)" by fastforce
  with closeHandle_inv [OF inv, of h] closeHandle_counts [OF inv, of h]
  have i: "pool_inv L K s1" "counts s1 = (counts s)(h := hd_refs ?x - 1)" by simp_all
  show ?thesis
  proof (cases "out = None \<or> hd_driver ?x = ''sqlite''")
    case True
    with i(2) show ?thesis by (auto simp: Close_def Let_def c split: option.split)
  next
    case False
    then obtain name where n: "out = Some name" by (cases out) auto
    then have "hd_open ?x" using c by (auto simp: closeHandle_def Let_def split: if_splits)
    then have "CHR ''|'' \<notin> set (hd_driver ?x)" "master_in_play L K (hd_driver ?x) (hd_dsn ?x)"
      using inv by (auto simp: pool_inv_def handle_ok_def Let_def)
    from dropDatabase_counts [OF i(1) env this] False n i(2) show ?thesis by (simp add: Close_def Let_def c)
  qed
qed

subsection \<open>Limits\<close>

lemma ceil_sqrt_from_least:
  assumes "n \<le> (k + fuel) * (k + fuel)" "k = 0 \<or> (k - 1) * (k - 1) < n"
  shows "n \<le> ceil_sqrt_from fuel k n * ceil_sqrt_from fuel k n \<and>
    (ceil_sqrt_from fuel k n = 0 \<or> (ceil_sqrt_from fuel k n - 1) * (ceil_sqrt_from fuel k n - 1) < n)"
  using assms by (induction fuel arbitrary: k) auto

lemma ceil_sqrt_least: "n \<le> ceil_sqrt n * ceil_sqrt n" "j < ceil_sqrt n \<Longrightarrow> j * j < n"
proof -
  have f: "n \<le> ceil_sqrt n * ceil_sqrt n \<and> (ceil_sqrt n = 0 \<or> (ceil_sqrt n - 1) * (ceil_sqrt n - 1) < n)"
    unfolding ceil_sqrt_def by (rule ceil_sqrt_from_least) auto
  then show "n \<le> ceil_sqrt n * ceil_sqrt n" by blast
  assume "j < ceil_sqrt n"
  then have "j * j \<le> (ceil_sqrt n - 1) * (ceil_sqrt n - 1)" by (intro mult_le_mono) auto
  with f \<open>j < ceil_sqrt n\<close> show "j * j < n" by auto
qed

subsection \<open>Samples\<close>

text \<open>Two handles on one testing database: the first \<open>Close\<close> keeps it, the second drops it.\<close>

definition two_handles :: pools where
  "two_handles =
     (let dsn = ''app@tcp(db)/testing_09_a'' in
      fst (Open sample_libs None None ''mysql'' dsn (fst (Open sample_libs None None ''mysql'' dsn pool_start))))"

lemma sample_database:
  "normalizeDriverAndDSN sample_libs ''mysql'' ''app@tcp(db)/testing_09_a'' = Inr (''mysql'', ''app@tcp(db)/testing_09_a'')"
  "testingDatabaseNameOf sample_libs ''mysql'' ''app@tcp(db)/testing_09_a'' = Some ''testing_09_a''"
  "testingDatabaseKey sample_libs ''mysql'' ''app@tcp(db)/testing_09_a'' ''testing_09_a'' = ''mysql|tcp(127.0.0.1:3306)|testing_09_a''"
  "setDatabaseInDataSourceName sample_libs ''mysql'' ''app@tcp(db)/testing_09_a'' [] = Inr ''app@tcp(db)/''"
  "normalizeDriverAndDSN sample_libs ''mysql'' ''app@tcp(db)/'' = Inr (''mysql'', ''app@tcp(db)/'')"
  "testingDatabaseNameOf sample_libs ''mysql'' ''app@tcp(db)/'' = None"
  by code_simp+

lemma sample_database_master: "setDatabaseInDataSourceName sample_libs ''mysql'' ''app@tcp(db)/'' [] = Inr ''app@tcp(db)/''"
  by code_simp

text \<open>The one name that is hashed: that of the server.\<close>

definition sample_names :: "(string \<times> string) set" where
  "sample_names = {(''mysql'', ''app@tcp(db)/'')}"

lemma sample_play:
  "drop_in_play sample_libs sample_names ''mysql'' ''app@tcp(db)/testing_09_a''"
  "in_play sample_libs sample_names ''mysql'' ''app@tcp(db)/''"
  "master_in_play sample_libs sample_names ''mysql'' ''app@tcp(db)/''"
  by (simp_all add: drop_in_play_def master_in_play_def master_is_plain_def in_play_def sample_names_def sample_database
      sample_database_master)

lemma sample_no_collision: "no_collision sample_libs sample_names"
  unfolding no_collision_def using sample_play(3) by (simp add: sample_names_def)

lemma two_handles_reachable: "(pool_step sample_libs sample_names)\<^sup>*\<^sup>* pool_start two_handles"
proof -
  let ?dsn = "''app@tcp(db)/testing_09_a''"
  have s: "pool_step sample_libs sample_names s (fst (Open sample_libs None None ''mysql'' ?dsn s))" for s
    by (rule pool_step.opened [OF _ sample_play(1)]) simp
  show ?thesis unfolding two_handles_def Let_def by (rule rtranclp.rtrancl_into_rtrancl, rule r_into_rtranclp, rule s, rule s)
qed

definition sample_handle :: "nat \<Rightarrow> handle" where
  "sample_handle n = \<lparr>hd_open = n > 0, hd_driver = ''mysql'', hd_dsn = ''app@tcp(db)/testing_09_a'', hd_key = None, hd_refs = n, hd_limits = None\<rparr>"

lemma two_handles_eq:
  "two_handles = pool_start\<lparr>handles := (handles pool_start)(0 := sample_handle 1, 1 := sample_handle 1), next_handle := 2,
     testingDBRefs := [''mysql|tcp(127.0.0.1:3306)|testing_09_a'' \<mapsto> 2]\<rparr>"
  by (simp add: two_handles_def Open_def retainTestingDatabase_def sample_database refs_of_def pool_start_def sample_handle_def Let_def)

lemma two_handles_close_one:
  "fst (Close sample_libs None None 0 two_handles) =
     pool_start\<lparr>handles := (handles pool_start)(0 := sample_handle 0, 1 := sample_handle 1), next_handle := 2,
       testingDBRefs := [''mysql|tcp(127.0.0.1:3306)|testing_09_a'' \<mapsto> 1]\<rparr>"
  by (simp add: two_handles_eq Close_def closeHandle_def releaseTestingDatabase_def sample_database refs_of_def pool_start_def
      sample_handle_def Let_def fun_upd_twist)

end
