(* ===== verification/Pool_Theorems.thy ===== *)
theory Pool_Theorems
  imports Testing_Db
begin

section \<open>Pools and testing databases over time\<close>

text \<open>
  The theorems about any sequence of openings, closings and creations of testing databases: when a testing
  database is dropped and forgotten, how large a shared pool may grow.
\<close>

text \<open>
  (C12) On the server drivers (all but SQLite) a testing database is dropped by the \<open>Close\<close> that leaves no open handle
  on it, and by no earlier one: in any state the operations on the names in play reach, closing a handle on it
  sends the DROP exactly when no handle on it is left, if the server can be reached under a name without the
  database. Then, and only then, the data source name last remembered for the database leaves the cache; a name
  remembered earlier for the same database from another base name stays (\<open>second_base_leaves_stale_name\<close>).
\<close>

theorem testing_database_dropped_with_last_handle:
  assumes reach: "(test_step L K)\<^sup>*\<^sup>* pool_start s" and env: "no_collision L K" and h: "hd_open (handles s h)"
    and x: "handles s h = x" "hd_driver x \<noteq> ''sqlite''" "testingDatabaseNameOf L (hd_driver x) (hd_dsn x) = Some name"
    and key: "key = testingDatabaseKey L (hd_driver x) (hd_dsn x) name"
    and master: "setDatabaseInDataSourceName L (hd_driver x) (hd_dsn x) [] = Inr m"
      "normalizeDriverAndDSN L (hd_driver x) m = Inr (d', x')" "testingDatabaseNameOf L d' x' = None"
    and s': "s' = fst (Close L closeErr None h s)"
  shows "open_on L s' key = open_on L s key - (if hd_refs x = 1 then {h} else {}) \<and> dropped s' = (if open_on L s' key = {} then [key] else []) @ dropped s \<and>
    testingDSNs s' = (if open_on L s' key = {} then without_cached s key else testingDSNs s)"
  by (rule close_drops [OF test_reachable_inv [OF reach env] env h x key master s'])

theorem testing_database_dropped_with_last_handle_witness:
  "dropped (fst (Close sample_libs None None 0 two_handles)) = [] \<and>
   dropped (fst (Close sample_libs None None 1 (fst (Close sample_libs None None 0 two_handles)))) =
     [''mysql|tcp(127.0.0.1:3306)|testing_09_a'']"
proof -
  let ?k = "''mysql|tcp(127.0.0.1:3306)|testing_09_a''" let ?s1 = "fst (Close sample_libs None None 0 two_handles)"
  let ?s2 = "fst (Close sample_libs None None 1 ?s1)"
  have x: "handles two_handles 0 = sample_handle 1" "dropped two_handles = []" by (simp_all add: two_handles_eq pool_start_def)
  have y: "handles ?s1 1 = sample_handle 1" unfolding two_handles_close_one by simp
  have o1: "open_on sample_libs ?s1 ?k = {1}"
    by (auto simp: open_on_def two_handles_close_one tkey_def sample_handle_def sample_database less_Suc_eq numeral_2_eq_2)
  have r1: "(test_step sample_libs sample_names)\<^sup>*\<^sup>* pool_start ?s1"
    using test_reachable [OF two_handles_reachable] test_step.handle_step [OF pool_step.closed] by (rule rtranclp.rtrancl_into_rtrancl)
  have drop: "open_on sample_libs s' ?k = open_on sample_libs s ?k - (if hd_refs (sample_handle 1) = 1 then {h} else {}) \<and> dropped s' = (if open_on sample_libs s' ?k = {} then [?k] else []) @ dropped s \<and>
      testingDSNs s' = (if open_on sample_libs s' ?k = {} then without_cached s ?k else testingDSNs s)"
    if "(test_step sample_libs sample_names)\<^sup>*\<^sup>* pool_start s" "handles s h = sample_handle 1" "s' = fst (Close sample_libs None None h s)" for s s' h
    by (rule testing_database_dropped_with_last_handle [OF that(1) sample_no_collision _ that(2) _ _ _ _ _ _ that(3), where name = "''testing_09_a''"
        and m = "''app@tcp(db)/''" and d' = "''mysql''" and x' = "''app@tcp(db)/''"])
      (use that(2) in \<open>simp_all add: sample_handle_def sample_database\<close>)
  have 1: "dropped ?s1 = []" using drop [OF test_reachable [OF two_handles_reachable] x(1) refl] x(2) o1 by simp
  have "dropped ?s2 = [?k] @ dropped ?s1" using drop [OF r1 y refl] o1 by (simp add: sample_handle_def)
  with 1 show ?thesis by simp
qed

subsection \<open>SQLite\<close>

lemma closeHandle_anchors:
  "closeHandle L h s = (s1, out) \<Longrightarrow> hkey L (handles s h) = Some key \<Longrightarrow>
   testingAnchors s1 = (if out = None then testingAnchors s else testingAnchors s - {key})"
  by (auto simp: closeHandle_def releaseTestingDatabase_def tkey_def Let_def split: if_splits option.splits)

text \<open>
  (C30) A SQLite testing database lives in memory, and its anchor connection keeps it there: the anchor is open as long
  as a handle on the database is, whatever was opened, closed and created before, and the \<open>Close\<close> that leaves no
  handle on it, no earlier one, closes the anchor and forgets the data source name last remembered for it. No
  statement is sent.
\<close>

theorem sqlite_database_lives_with_its_handles:
  assumes reach: "(test_step L K)\<^sup>*\<^sup>* pool_start s" and env: "no_collision L K" and h: "hd_open (handles s h)"
    and x: "handles s h = x" "hd_driver x = ''sqlite''" "testingDatabaseNameOf L (hd_driver x) (hd_dsn x) = Some name"
    and key: "key = testingDatabaseKey L (hd_driver x) (hd_dsn x) name"
    and s': "s' = fst (Close L closeErr masterErr h s)"
  shows "key \<in> testingAnchors s \<and> open_on L s' key = open_on L s key - (if hd_refs x = 1 then {h} else {}) \<and>
    testingAnchors s' = (if open_on L s' key = {} then testingAnchors s - {key} else testingAnchors s) \<and>
    testingDSNs s' = (if open_on L s' key = {} then without_cached s key else testingDSNs s) \<and> dropped s' = dropped s"
proof -
  have inv: "pool_inv L K s" using reach env by (rule test_reachable_inv)
  have hk: "hkey L (handles s h) = Some key" using x key by (simp add: tkey_def)
  then have a: "key \<in> testingAnchors s" using inv h x by (auto simp: pool_inv_def handle_ok_def Let_def)
  have mem: "h \<in> open_on L s key" using inv h hk by (auto simp: open_on_def pool_inv_def handle_ok_def Let_def)
  obtain s1 out where c: "closeHandle L h s = (s1, out)" by fastforce
  have e: "s' = s1" using x(1,2) by (simp add: s' Close_def Let_def c split: option.split)
  note anchors = closeHandle_anchors [OF c hk] and dsns = closeHandle_dsns [OF c hk]
  from inv c show ?thesis
  proof (cases rule: closeHandle_cases)
    case shared
    with e anchors dsns a mem x(1) show ?thesis by auto
  next
    case last
    then have "out \<noteq> None \<longleftrightarrow> open_on L s1 key = {}" using hk by auto
    with e anchors dsns a last(4-6) x(1) show ?thesis by auto
  qed (use h in simp)
qed

definition two_sqlite :: pools where
  "two_sqlite =
     (let dsn = ''file:testing_09_a?mode=memory'' in
      fst (Open sample_libs None None ''sqlite'' dsn (fst (Open sample_libs None None ''sqlite'' dsn pool_start))))"

theorem sqlite_database_lives_with_its_handles_witness:
  "testingAnchors (fst (Close sample_libs None None 0 two_sqlite)) = {''sqlite||testing_09_a''} \<and>
   open_on sample_libs (fst (Close sample_libs None None 0 two_sqlite)) ''sqlite||testing_09_a'' = {1}"
proof -
  let ?L = sample_libs and ?dsn = "''file:testing_09_a?mode=memory''"
    and ?dsn' = "''file:testing_09_a?mode=memory&_pragma=busy_timeout(2000)''" and ?k = "''sqlite||testing_09_a''"
  have d: "normalizeDriverAndDSN ?L ''sqlite'' ?dsn = Inr (''sqlite'', ?dsn')"
    "testingDatabaseNameOf ?L ''sqlite'' ?dsn' = Some ''testing_09_a''"
    "testingDatabaseKey ?L ''sqlite'' ?dsn' ''testing_09_a'' = ?k" by code_simp+
  have "drop_in_play ?L {} ''sqlite'' ?dsn" by (simp add: drop_in_play_def master_in_play_def d(1))
  then have step: "pool_step ?L {} s (fst (Open ?L None None ''sqlite'' ?dsn s))" for s
    by (rule pool_step.opened [rotated]) simp
  have r: "(test_step ?L {})\<^sup>*\<^sup>* pool_start two_sqlite"
    unfolding two_sqlite_def Let_def
    by (rule test_reachable, rule rtranclp.rtrancl_into_rtrancl, rule r_into_rtranclp, rule step, rule step)
  let ?x = "\<lparr>hd_open = True, hd_driver = ''sqlite'', hd_dsn = ?dsn', hd_key = None, hd_refs = 1, hd_limits = None\<rparr>"
  have eq: "two_sqlite = pool_start\<lparr>handles := (handles pool_start)(0 := ?x, 1 := ?x), next_handle := 2,
      testingDBRefs := [?k \<mapsto> 2], testingAnchors := {?k}\<rparr>"
    by (simp add: two_sqlite_def Open_def retainTestingDatabase_def d refs_of_def pool_start_def Let_def)
  have "tkey ?L ''sqlite'' ?dsn' = Some ?k" by (simp add: tkey_def d)
  moreover have "n < 2 \<longleftrightarrow> n = 0 \<or> n = 1" for n :: nat by auto
  ultimately have "open_on ?L two_sqlite ?k = {0, 1}"
    by (auto simp: open_on_def eq)
  moreover have "no_collision ?L {}" by (simp add: no_collision_def)
  moreover have "handles two_sqlite 0 = ?x" "testingAnchors two_sqlite = {?k}" by (simp_all add: eq)
  ultimately show ?thesis
    using sqlite_database_lives_with_its_handles [OF r, of 0 ?x "''testing_09_a''" ?k _ None None] d by auto
qed

subsection \<open>Sizes\<close>

text \<open>
  The openers of each handle, counted from outside: an \<open>Open\<close> or \<open>OpenSingleton\<close> that answers a handle adds one to it, a
  \<open>Close\<close> of a handle takes one away while there is one. Creating a testing database opens nothing for its caller.
\<close>

inductive counted_step :: "libs \<Rightarrow> (string \<times> string) set \<Rightarrow> pools \<times> (nat \<Rightarrow> nat) \<Rightarrow> pools \<times> (nat \<Rightarrow> nat) \<Rightarrow> bool" for L K where
  opened: "CHR ''|'' \<notin> set d \<Longrightarrow> drop_in_play L K d x \<Longrightarrow> Open L sqlErr anchorErr d x s = (s', out) \<Longrightarrow>
    counted_step L K (s, n) (s', counted out n)"
| opened_singleton: "CHR ''|'' \<notin> set d \<Longrightarrow> in_play L K d x \<Longrightarrow> OpenSingleton L sqlErr anchorErr d x s = (s', out) \<Longrightarrow>
    counted_step L K (s, n) (s', counted out n)"
| closed: "Close L closeErr masterErr h s = (s', err) \<Longrightarrow> counted_step L K (s, n) (s', n(h := n h - 1))"
| created: "CHR ''|'' \<notin> set d0 \<Longrightarrow> server_in_play L K d0 b0 \<Longrightarrow>
    CreateTestingDatabase L exec dbs masterErr hour token d0 b0 testID s = (s', sent, out) \<Longrightarrow> counted_step L K (s, n) (s', n)"

lemma counted_inv:
  assumes "counted_step L K a b" "no_collision L K" "pool_inv L K (fst a)" "counts (fst a) = snd a"
  shows "pool_inv L K (fst b) \<and> counts (fst b) = snd b"
  using assms
proof cases
  case (opened d x sqlErr anchorErr s s' out n)
  with assms(3,4) Open_inv [of L K s d x sqlErr anchorErr] Open_counts [of L K s sqlErr anchorErr d x] show ?thesis by simp
next
  case (opened_singleton d x sqlErr anchorErr s s' out n)
  with assms(2-4) OpenSingleton_inv [of L K s d x sqlErr anchorErr] OpenSingleton_counts [of L K s d x sqlErr anchorErr]
  show ?thesis by simp
next
  case (closed closeErr masterErr h s s' err n)
  with assms(2-4) Close_inv [of L K s closeErr masterErr h] Close_counts [of L K s closeErr masterErr h]
  show ?thesis by (auto simp: fun_eq_iff)
next
  case (created d0 b0 exec dbs masterErr hour token testID s s' sent out n)
  with assms(2-4) CreateTestingDatabase_inv [of L K s d0 b0 exec dbs masterErr hour token testID]
    CreateTestingDatabase_effect(2) [of L K s d0 b0 exec dbs masterErr hour token testID s' sent out] show ?thesis by simp
qed

lemma counted_reachable:
  assumes "(counted_step L K)\<^sup>*\<^sup>* (pool_start, \<lambda>_. 0) t" "no_collision L K"
  shows "pool_inv L K (fst t) \<and> counts (fst t) = snd t"
  using assms(1)
proof (induction rule: rtranclp_induct)
  case base
  show ?case using pool_start_inv by (simp add: pool_start_def)
next
  case (step t u)
  with counted_inv assms(2) show ?case by blast
qed

text \<open>
  (C26) A shared pool follows the number of its openers. After any sequence of openings, closings and creations of
  testing databases, where \<open>n h\<close> is the number of openings that answered the handle \<open>h\<close> and have not been
  closed: the handle is open exactly if \<open>n h\<close> is not zero, and if it is shared, it keeps at most as many
  idle connections as the square root of \<open>n h\<close>, rounded up, and opens at most twice as many and two.
\<close>

theorem shared_pool_is_sized_by_openers:
  assumes "(counted_step L K)\<^sup>*\<^sup>* (pool_start, \<lambda>_. 0) (s, n)" "no_collision L K" "hd_key (handles s h) \<noteq> None"
  shows "(hd_open (handles s h) \<longleftrightarrow> 0 < n h) \<and>
    (0 < n h \<longrightarrow> (\<exists>maxIdle. hd_limits (handles s h) = Some (2 * maxIdle + 2, maxIdle) \<and>
       n h \<le> maxIdle * maxIdle \<and> (maxIdle - 1) * (maxIdle - 1) < n h))"
proof -
  have inv: "pool_inv L K s" and n: "hd_refs (handles s h) = n h"
    using counted_reachable [OF assms(1,2)] by (auto simp: fun_eq_iff)
  then have ok: "handle_ok L K s h" by (simp add: pool_inv_def)
  have "\<exists>maxIdle. hd_limits (handles s h) = Some (2 * maxIdle + 2, maxIdle) \<and>
      n h \<le> maxIdle * maxIdle \<and> (maxIdle - 1) * (maxIdle - 1) < n h" if p: "0 < n h"
  proof -
    have l: "hd_limits (handles s h) = Some (limits_for (n h))" using ok p assms(3) n by (auto simp: handle_ok_def Let_def)
    have "ceil_sqrt (n h) - 1 < ceil_sqrt (n h)" using ceil_sqrt_least(1) [of "n h"] p by (cases "ceil_sqrt (n h)") auto
    then have "(ceil_sqrt (n h) - 1) * (ceil_sqrt (n h) - 1) < n h" by (rule ceil_sqrt_least(2))
    then show ?thesis using l ceil_sqrt_least(1) [of "n h"] by (auto simp: limits_for_def)
  qed
  moreover have "hd_open (handles s h) \<longleftrightarrow> 0 < n h" using ok n by (simp add: handle_ok_def Let_def)
  ultimately show ?thesis by blast
qed

theorem shared_pool_is_sized_by_openers_witness:
  "\<exists>s n. (counted_step sample_libs sample_names)\<^sup>*\<^sup>* (pool_start, \<lambda>_. 0) (s, n) \<and> n 0 = 2 \<and>
     (\<exists>maxIdle. hd_limits (handles s 0) = Some (2 * maxIdle + 2, maxIdle) \<and> 2 \<le> maxIdle * maxIdle \<and> (maxIdle - 1) * (maxIdle - 1) < 2)"
proof -
  let ?x = "\<lparr>hd_open = False, hd_driver = ''mysql'', hd_dsn = ''app@tcp(db)/'', hd_key = Some (hashStr ''mysql|app@tcp(db)/''),
    hd_refs = 0, hd_limits = None\<rparr>"
  note d = sample_database(5,6)
  define s1 where "s1 = pool_start\<lparr>handles := (handles pool_start)(0 := adjustConnectionLimits (?x\<lparr>hd_open := True, hd_refs := 1\<rparr>)),
      next_handle := 1, singletonsMap := [hashStr ''mysql|app@tcp(db)/'' \<mapsto> 0]\<rparr>"
  define s2 where "s2 = s1\<lparr>handles := (handles s1)(0 := adjustConnectionLimits ((handles s1 0)\<lparr>hd_refs := hd_refs (handles s1 0) + 1\<rparr>))\<rparr>"
  have f: "singleton_for sample_libs ''mysql'' ''app@tcp(db)/'' pool_start =
     (pool_start\<lparr>handles := (handles pool_start)(0 := ?x), next_handle := 1, singletonsMap := [hashStr ''mysql|app@tcp(db)/'' \<mapsto> 0]\<rparr>, 0)"
    "singleton_for sample_libs ''mysql'' ''app@tcp(db)/'' s1 = (s1, 0)"
    by (simp_all add: singleton_for_def s1_def pool_start_def Let_def)
  have o1: "OpenSingleton sample_libs None None ''mysql'' ''app@tcp(db)/'' pool_start = (s1, Inr 0)"
    unfolding OpenSingleton_eq [OF d(1) f(1)] by (simp add: retainTestingDatabase_def d(2) s1_def)
  have x1: "handles s1 0 = adjustConnectionLimits (?x\<lparr>hd_open := True, hd_refs := 1\<rparr>)" by (simp add: s1_def)
  then have "hd_open (handles s1 0)" by (simp only: adjusted handle.simps)
  then have o2: "OpenSingleton sample_libs None None ''mysql'' ''app@tcp(db)/'' s1 = (s2, Inr 0)"
    by (simp add: OpenSingleton_eq [OF d(1) f(2)] s2_def)
  have step: "counted_step sample_libs sample_names (s, n) (s', counted out n)"
    if "OpenSingleton sample_libs None None ''mysql'' ''app@tcp(db)/'' s = (s', out)" for s s' out n
    by (rule counted_step.opened_singleton [OF _ sample_play(2) that]) simp
  let ?n = "counted (Inr 0) (counted (Inr 0) (\<lambda>_. 0))"
  have r: "(counted_step sample_libs sample_names)\<^sup>*\<^sup>* (pool_start, \<lambda>_. 0) (s2, ?n)"
    by (rule rtranclp.rtrancl_into_rtrancl, rule r_into_rtranclp, rule step [OF o1], rule step [OF o2])
  have n: "?n 0 = 2" by (simp add: counted_def)
  have "hd_key (handles s2 0) \<noteq> None" by (simp add: s2_def x1 adjusted)
  from shared_pool_is_sized_by_openers [OF r sample_no_collision this] n
  have "\<exists>maxIdle. hd_limits (handles s2 0) = Some (2 * maxIdle + 2, maxIdle) \<and> 2 \<le> maxIdle * maxIdle \<and> (maxIdle - 1) * (maxIdle - 1) < 2"
    by simp
  with r n show ?thesis by blast
qed

subsection \<open>Two base names for one testing database\<close>

text \<open>
  The cache is keyed by the whole base data source name, the testing database by its server and name. Two base
  names that differ in the user only share a testing database, but the database remembers only the last of
  their keys: when it is dropped, the first one stays in the cache and is handed out although its database is gone.
\<close>

lemma openSingleton_plain:
  assumes "normalizeDriverAndDSN L d0 x0 = Inr (d, x)" "testingDatabaseNameOf L d x = None"
  shows "testingDBRefs (fst (OpenSingleton L e a d0 x0 s)) = testingDBRefs s" "testingDBKeys (fst (OpenSingleton L e a d0 x0 s)) = testingDBKeys s"
proof -
  obtain s1 h where f: "singleton_for L d x s = (s1, h)" by fastforce
  have "testingDBRefs s1 = testingDBRefs s" "testingDBKeys s1 = testingDBKeys s"
    using f by (auto simp: singleton_for_def Let_def split: option.splits)
  moreover have "retainTestingDatabase L d x a s1 = (s1, None)" using assms(2) by (simp add: retainTestingDatabase_def)
  ultimately show "testingDBRefs (fst (OpenSingleton L e a d0 x0 s)) = testingDBRefs s" "testingDBKeys (fst (OpenSingleton L e a d0 x0 s)) = testingDBKeys s"
    by (simp_all add: OpenSingleton_eq [OF assms(1) f] split: option.split)
qed

lemma Close_plain:
  assumes "hkey L (handles s h) = None"
  shows "testingDBRefs (fst (Close L ce me h s)) = testingDBRefs s" "testingDBKeys (fst (Close L ce me h s)) = testingDBKeys s"
  using assms by (auto simp: Close_def closeHandle_def releaseTestingDatabase_def tkey_def Let_def)

lemma provision_plain:
  assumes inv: "pool_inv L K s" and env: "no_collision L K" "CHR ''|'' \<notin> set d" "master_in_play L K d base" and d: "d \<noteq> ''sqlite''"
    and m: "setDatabaseInDataSourceName L d base [] = Inr m" "normalizeDriverAndDSN L d m = Inr (d', x')" "testingDatabaseNameOf L d' x' = None"
    and dsn: "setDatabaseInDataSourceName L d base name = Inr dsn"
    and s': "s' = fst (provision L (\<lambda>_. None) dbs None hour d base name ck s)"
  shows "testingDSNs s' = (testingDSNs s)(ck \<mapsto> dsn)" "testingDBKeys s' = (testingDBKeys s)(testingDatabaseKey L d dsn name \<mapsto> ck)"
    "testingDBRefs s' = testingDBRefs s" "snd (snd (provision L (\<lambda>_. None) dbs None hour d base name ck s)) = Inr dsn"
proof -
  obtain s1 h where o1: "OpenSingleton L None None d m s = (s1, Inr h)" "hkey L (handles s1 h) = None"
    by (rule OpenSingleton_other [OF inv env(1,2) _ m(2,3)]) (use env(3) m(1) d in \<open>auto simp: master_in_play_def\<close>)
  let ?s2 = "rememberDSN L d dsn name ck s1"
  have h: "hkey L (handles ?s2 h) = None" using o1(2) by (simp add: rememberDSN_def)
  have p: "provision L (\<lambda>_. None) dbs None hour d base name ck s = (fst (Close L None None h ?s2), snd (provision L (\<lambda>_. None) dbs None hour d base name ck s))"
    "snd (snd (provision L (\<lambda>_. None) dbs None hour d base name ck s)) = Inr dsn"
    using d m(1) o1(1) dsn by (simp_all add: provision_def makeDatabase_def finishTesting_def Let_def)
  have e: "s' = fst (Close L None None h ?s2)" unfolding s' by (subst p(1)) simp
  show "testingDSNs s' = (testingDSNs s)(ck \<mapsto> dsn)"
    unfolding e Close_other [OF h] using OpenSingleton_dsns [of L None None d m s] o1(1) by (simp add: rememberDSN_def)
  show "testingDBKeys s' = (testingDBKeys s)(testingDatabaseKey L d dsn name \<mapsto> ck)" "testingDBRefs s' = testingDBRefs s"
    unfolding e Close_plain [OF h] using openSingleton_plain [OF m(2,3), of None None s] o1(1) by (simp_all add: rememberDSN_def)
  show "snd (snd (provision L (\<lambda>_. None) dbs None hour d base name ck s)) = Inr dsn" by (fact p(2))
qed

definition created_from :: "string \<Rightarrow> pools \<Rightarrow> pools \<times> string list \<times> (error + string)" where
  "created_from base s = CreateTestingDatabase sample_libs (\<lambda>_. None) (\<lambda>_. Inr []) None 9 ''k3x9q1'' ''mysql'' base ''T'' s"

definition shared_key :: string where
  "shared_key = ''mysql|tcp(127.0.0.1:3306)|testing_09_k3x9q1_t''"

abbreviation key_of :: "string \<Rightarrow> string" where
  "key_of base \<equiv> testingCacheKey sample_libs ''mysql'' base ''T''"

lemma two_bases:
  assumes "base \<in> {''app@tcp(db)/'', ''ops@tcp(db)/''}"
  shows "testingTarget sample_libs ''mysql'' base = Inr (''mysql'', base, False)"
    "databaseNameFromDataSourceName sample_libs ''mysql'' base = Inr []"
    "setDatabaseInDataSourceName sample_libs ''mysql'' base [] = Inr base"
    "normalizeDriverAndDSN sample_libs ''mysql'' base = Inr (''mysql'', base)"
    "testingDatabaseNameOf sample_libs ''mysql'' base = None"
    "setDatabaseInDataSourceName sample_libs ''mysql'' base ''testing_09_k3x9q1_t'' = Inr (base @ ''testing_09_k3x9q1_t'')"
    "testingDatabaseKey sample_libs ''mysql'' (base @ ''testing_09_k3x9q1_t'') ''testing_09_k3x9q1_t'' = shared_key"
  using assms unfolding insert_iff empty_iff by (elim disjE FalseE; hypsubst; code_simp)+

text \<open>The names that are hashed: those of the server, with either user.\<close>

definition two_names :: "(string \<times> string) set" where
  "two_names = {(''mysql'', ''app@tcp(db)/''), (''mysql'', ''ops@tcp(db)/'')}"

lemma two_play:
  "base \<in> {''app@tcp(db)/'', ''ops@tcp(db)/''} \<Longrightarrow> master_in_play sample_libs two_names ''mysql'' base"
  using two_bases(3-5) [of base] by (auto simp: master_in_play_def master_is_plain_def in_play_def two_names_def)

lemma created_from_spec:
  assumes b: "base \<in> {''app@tcp(db)/'', ''ops@tcp(db)/''}" and inv: "pool_inv sample_libs two_names s"
    and env: "no_collision sample_libs two_names"
    and s': "s' = fst (created_from base s)" and none: "testingDSNs s (key_of base) = None"
  shows "testingDSNs s' = (testingDSNs s)(key_of base \<mapsto> base @ ''testing_09_k3x9q1_t'')"
    "testingDBKeys s' = (testingDBKeys s)(shared_key \<mapsto> key_of base)" "testingDBRefs s' = testingDBRefs s" "pool_inv sample_libs two_names s'"
proof -
  note t = two_bases [OF b]
  have bar: "CHR ''|'' \<notin> set ''mysql''" and d: "''mysql'' \<noteq> ''sqlite''" by simp_all
  define pr where "pr = provision sample_libs (\<lambda>_. None) (\<lambda>_. Inr []) None 9 ''mysql'' base ''testing_09_k3x9q1_t'' (key_of base) s"
  have "created_from base s = (case pr of (s1, sent, Inl e) \<Rightarrow> (s1, sent, Inl e) | (s1, sent, Inr dsn) \<Rightarrow> (s1, sent, Inr (namedDSN ''mysql'' False dsn)))"
    unfolding created_from_def CreateTestingDatabase_def t(1) pr_def using none t(2) sample_target(3) by (simp add: Let_def)
  then have e: "s' = fst pr" unfolding s' by (simp split: prod.split sum.split)
  note p = provision_plain [OF inv env bar two_play [OF b] d t(3-6) e [unfolded pr_def]]
  show "testingDSNs s' = (testingDSNs s)(key_of base \<mapsto> base @ ''testing_09_k3x9q1_t'')" by (fact p(1))
  show "testingDBKeys s' = (testingDBKeys s)(shared_key \<mapsto> key_of base)" using p(2) t(7) by simp
  show "testingDBRefs s' = testingDBRefs s" by (fact p(3))
  show "pool_inv sample_libs two_names s'" unfolding s' created_from_def 
    by (rule CreateTestingDatabase_inv [OF inv env bar]) (use two_play [OF b] t(1) in \<open>simp add: server_in_play_def\<close>)
qed

definition sample_open :: "pools \<Rightarrow> pools" where
  "sample_open s = fst (Open sample_libs None None ''mysql'' ''ops@tcp(db)/testing_09_k3x9q1_t'' s)"

definition sample_ops :: handle where
  "sample_ops = \<lparr>hd_open = True, hd_driver = ''mysql'', hd_dsn = ''ops@tcp(db)/testing_09_k3x9q1_t'', hd_key = None, hd_refs = 1, hd_limits = None\<rparr>"

lemma sample_ops_database:
  "normalizeDriverAndDSN sample_libs ''mysql'' ''ops@tcp(db)/testing_09_k3x9q1_t'' = Inr (''mysql'', ''ops@tcp(db)/testing_09_k3x9q1_t'')"
  "testingDatabaseNameOf sample_libs ''mysql'' ''ops@tcp(db)/testing_09_k3x9q1_t'' = Some ''testing_09_k3x9q1_t''"
  "testingDatabaseKey sample_libs ''mysql'' ''ops@tcp(db)/testing_09_k3x9q1_t'' ''testing_09_k3x9q1_t'' = shared_key"
  "setDatabaseInDataSourceName sample_libs ''mysql'' ''ops@tcp(db)/testing_09_k3x9q1_t'' [] = Inr ''ops@tcp(db)/''"
  by code_simp+

lemma sample_open_spec:
  "testingDSNs (sample_open s) = testingDSNs s" "testingDBKeys (sample_open s) = testingDBKeys s"
  "testingDBRefs (sample_open s) = (testingDBRefs s)(shared_key \<mapsto> refs_of s shared_key + 1)"
  "handles (sample_open s) (next_handle s) = sample_ops"
  by (simp_all add: sample_open_def Open_def sample_ops_database retainTestingDatabase_def sample_ops_def Let_def)

text \<open>For two users whose keys have different hashes.\<close>

lemma second_base_leaves_stale_name:
  assumes env: "no_collision sample_libs two_names" and k: "key_of ''app@tcp(db)/'' \<noteq> key_of ''ops@tcp(db)/''"
  shows "\<exists>s. shared_key \<in> set (dropped s) \<and> open_on sample_libs s shared_key = {} \<and>
     created_from ''app@tcp(db)/'' s = (s, [], Inr ''app@tcp(db)/testing_09_k3x9q1_t'')"
proof -
  define s1 where "s1 = fst (created_from ''app@tcp(db)/'' pool_start)"
  define s2 where "s2 = fst (created_from ''ops@tcp(db)/'' s1)"
  define s3 where "s3 = sample_open s2"
  define s4 where "s4 = fst (Close sample_libs None None (next_handle s2) s3)"
  have bar: "CHR ''|'' \<notin> set ''mysql''" by simp
  have c1: "testingDSNs s1 = [key_of ''app@tcp(db)/'' \<mapsto> ''app@tcp(db)/testing_09_k3x9q1_t'']" "testingDBRefs s1 = Map.empty" "pool_inv sample_libs two_names s1"
    using created_from_spec [OF _ pool_start_inv env s1_def] by (simp_all add: pool_start_def)
  have c2: "testingDSNs s2 (key_of ''app@tcp(db)/'') = Some ''app@tcp(db)/testing_09_k3x9q1_t''"
    "testingDBKeys s2 shared_key = Some (key_of ''ops@tcp(db)/'')" "testingDBRefs s2 = Map.empty" "pool_inv sample_libs two_names s2"
    using created_from_spec [OF _ c1(3) env s2_def] c1(1,2) k by simp_all
  have i3: "pool_inv sample_libs two_names s3" unfolding s3_def sample_open_def by (rule Open_inv [OF c2(4) bar])
      (use two_play [of "''ops@tcp(db)/''"] in \<open>simp add: drop_in_play_def master_in_play_def master_is_plain_def sample_ops_database two_bases(3)\<close>)
  note c3 = sample_open_spec [of s2, folded s3_def]
  have "refs_of s3 shared_key = 1" using c3(3) c2(3) by (simp add: refs_of_def)
  then have "card (open_on sample_libs s3 shared_key) = 1" using i3 by (simp add: pool_inv_def)
  then obtain i where o3: "open_on sample_libs s3 shared_key = {i}" using card_1_singletonE by blast
  note b = two_bases [of "''ops@tcp(db)/''"]
  have "open_on sample_libs s4 shared_key = open_on sample_libs s3 shared_key - (if hd_refs sample_ops = 1 then {next_handle s2} else {}) \<and>
      dropped s4 = (if open_on sample_libs s4 shared_key = {} then [shared_key] else []) @ dropped s3 \<and>
      testingDSNs s4 = (if open_on sample_libs s4 shared_key = {} then without_cached s3 shared_key else testingDSNs s3)"
    by (rule close_drops [OF i3 env _ c3(4) _ _ _ _ _ _ s4_def, where name = "''testing_09_k3x9q1_t''" and m = "''ops@tcp(db)/''"
        and d' = "''mysql''" and x' = "''ops@tcp(db)/''"]) (use b c3(4) in \<open>simp_all add: sample_ops_def sample_ops_database\<close>)
  moreover have "next_handle s2 \<in> open_on sample_libs s3 shared_key"
  proof -
    have "hd_open (handles s3 (next_handle s2))" "hkey sample_libs (handles s3 (next_handle s2)) = Some shared_key"
      unfolding c3(4) by (simp_all add: sample_ops_def tkey_def sample_ops_database)
    then show ?thesis using i3 by (auto simp: open_on_def pool_inv_def handle_ok_def Let_def)
  qed
  ultimately have "open_on sample_libs s4 shared_key = {}" "shared_key \<in> set (dropped s4)" "testingDSNs s4 = without_cached s3 shared_key"
    using o3 by (auto simp: sample_ops_def)
  moreover from this(3) have "testingDSNs s4 (key_of ''app@tcp(db)/'') = Some ''app@tcp(db)/testing_09_k3x9q1_t''"
    using c3(1,2) c2(1,2) k by (simp add: without_cached_def)
  then have "created_from ''app@tcp(db)/'' s4 = (s4, [], Inr ''app@tcp(db)/testing_09_k3x9q1_t'')"
    using two_bases(1) [of "''app@tcp(db)/''"] by (simp add: created_from_def CreateTestingDatabase_def namedDSN_def Let_def)
  ultimately show ?thesis by blast
qed

end
