(* ===== verification/Nullify.thy ===== *)
theory Nullify
  imports Errors
begin

section \<open>NULL columns (nullify.go)\<close>

text \<open>
  Zero values are written as NULL by \<^verbatim>\<open>Nullify\<close> and read back through \<^verbatim>\<open>Nullable\<close>, which copies the scanned
  value to its target in \<^verbatim>\<open>ApplyBindings\<close>. A column is an optional value, the caller's variables are a store from
  pointers to values, and a binding function changes the store and may fail. The zero value of a Go type, which
  is \<^verbatim>\<open>*new(T)\<close>, is an argument.
\<close>

definition Nullify :: "'v \<Rightarrow> 'v \<Rightarrow> 'v option" where
  "Nullify zero value = (if value = zero then None else Some value)"

type_synonym ('p, 'v) store = "'p \<Rightarrow> 'v"

type_synonym ('p, 'v) binding = "'v \<Rightarrow> ('p, 'v) store \<Rightarrow> ('p, 'v) store \<times> error option"

record ('p, 'v) lateBinder =
  bd_V :: 'v
  bd_Valid :: bool
  bd_apply :: "('p, 'v) binding option"

text \<open>An argument of \<^verbatim>\<open>Scan\<close> and \<^verbatim>\<open>ApplyBindings\<close>: a plain pointer or a late binding.\<close>

datatype ('p, 'v) arg = Pointer 'p | Late "('p, 'v) lateBinder"

definition Bind :: "'v \<Rightarrow> ('p, 'v) binding \<Rightarrow> ('p, 'v) lateBinder" where
  "Bind zero f = \<lparr>bd_V = zero, bd_Valid = False, bd_apply = Some f\<rparr>"

definition Nullable :: "'v \<Rightarrow> 'p \<Rightarrow> ('p, 'v) lateBinder" where
  "Nullable zero p = Bind zero (\<lambda>value st. (st(p := value), None))"

definition Apply :: "('p, 'v) lateBinder \<Rightarrow> ('p, 'v) store \<Rightarrow> ('p, 'v) store \<times> error option" where
  "Apply n st =
     (case bd_apply n of
        None \<Rightarrow> (st, None)
      | Some f \<Rightarrow> (case f (bd_V n) st of (st', err) \<Rightarrow> (st', traceErr err)))"

fun ApplyBindings :: "('p, 'v) arg list \<Rightarrow> ('p, 'v) store \<Rightarrow> ('p, 'v) store \<times> error option" where
  "ApplyBindings [] st = (st, None)"
| "ApplyBindings (Pointer p # args) st = ApplyBindings args st"
| "ApplyBindings (Late n # args) st =
     (case Apply n st of
        (st', Some e) \<Rightarrow> (st', Some (Traced e))
      | (st', None) \<Rightarrow> ApplyBindings args st')"

text \<open>\<^verbatim>\<open>sql.Null.Scan\<close> of a column of the type bound, and \<^verbatim>\<open>Scan\<close> over the arguments.\<close>

definition scan_null :: "'v \<Rightarrow> 'v option \<Rightarrow> ('p, 'v) lateBinder \<Rightarrow> ('p, 'v) lateBinder" where
  "scan_null zero col n =
     (case col of
        None \<Rightarrow> n\<lparr>bd_V := zero, bd_Valid := False\<rparr>
      | Some v \<Rightarrow> n\<lparr>bd_V := v, bd_Valid := True\<rparr>)"

subsection \<open>What ApplyBindings does\<close>

text \<open>The position of the first binding that fails.\<close>

fun first_failure :: "('p, 'v) arg list \<Rightarrow> ('p, 'v) store \<Rightarrow> nat option" where
  "first_failure [] st = None"
| "first_failure (Pointer p # args) st = map_option Suc (first_failure args st)"
| "first_failure (Late n # args) st =
     (case Apply n st of
        (st', Some e) \<Rightarrow> Some 0
      | (st', None) \<Rightarrow> map_option Suc (first_failure args st'))"

text \<open>
  \<^verbatim>\<open>ApplyBindings\<close> stops at the first binding that fails: it does what it would do on the arguments up to
  that one, and the later ones do not run. It returns nil exactly when no binding fails.
\<close>

theorem ApplyBindings_stops_at_failure:
  "(case first_failure args st of
      None \<Rightarrow> snd (ApplyBindings args st) = None
    | Some i \<Rightarrow> i < length args \<and> ApplyBindings args st = ApplyBindings (take (Suc i) args) st \<and>
        snd (ApplyBindings args st) \<noteq> None \<and> snd (ApplyBindings (take i args) st) = None)"
proof (induction args st rule: ApplyBindings.induct)
  case (3 n args st)
  obtain st' err where a: "Apply n st = (st', err)" by fastforce
  show ?case
  proof (cases err)
    case None
    show ?thesis
    proof (cases "first_failure args st'")
      case (Some i)
      have "i < length args \<and> ApplyBindings args st' = ApplyBindings (take (Suc i) args) st' \<and>
        snd (ApplyBindings args st') \<noteq> None \<and> snd (ApplyBindings (take i args) st') = None"
        using 3 [OF a [symmetric] None] unfolding Some option.case .
      then obtain e where "i < length args" "ApplyBindings args st' = ApplyBindings (take (Suc i) args) st'"
        "snd (ApplyBindings (take (Suc i) args) st') = Some e" "snd (ApplyBindings (take i args) st') = None" by auto
      with a None Some show ?thesis by simp
    qed (use 3 a None in simp)
  qed (simp add: a)
qed (auto split: option.splits)

definition bind_all :: "('p \<Rightarrow> 'v) \<Rightarrow> 'p list \<Rightarrow> 'v option list \<Rightarrow> ('p, 'v) arg list" where
  "bind_all zero ps cols = map2 (\<lambda>p col. Late (scan_null (zero p) col (Nullable (zero p) p))) ps cols"

definition column_value :: "'v \<Rightarrow> 'v option \<Rightarrow> 'v" where
  "column_value zero col = (case col of None \<Rightarrow> zero | Some v \<Rightarrow> v)"

lemma ApplyBindings_all:
  assumes "length ps = length cols" "distinct ps"
  shows "snd (ApplyBindings (bind_all zero ps cols) st) = None"
    "i < length ps \<Longrightarrow> fst (ApplyBindings (bind_all zero ps cols) st) (ps ! i) = column_value (zero (ps ! i)) (cols ! i)"
    "p \<notin> set ps \<Longrightarrow> fst (ApplyBindings (bind_all zero ps cols) st) p = st p"
proof -
  have step: "ApplyBindings (bind_all zero (q # ps) (c # cols)) st =
      ApplyBindings (bind_all zero ps cols) (st(q := column_value (zero q) c))" for q ps c cols st
    by (cases c) (simp_all add: bind_all_def Apply_def Nullable_def Bind_def scan_null_def column_value_def)
  have "snd (ApplyBindings (bind_all zero ps cols) st) = None \<and>
      (\<forall>i < length ps. fst (ApplyBindings (bind_all zero ps cols) st) (ps ! i) = column_value (zero (ps ! i)) (cols ! i)) \<and>
      (\<forall>p. p \<notin> set ps \<longrightarrow> fst (ApplyBindings (bind_all zero ps cols) st) p = st p)"
    using assms
  proof (induction ps cols arbitrary: st rule: list_induct2)
    case (Cons q ps c cols)
    then show ?case unfolding step by (auto simp: nth_Cons split: nat.split)
  qed (simp add: bind_all_def)
  then show "snd (ApplyBindings (bind_all zero ps cols) st) = None"
    "i < length ps \<Longrightarrow> fst (ApplyBindings (bind_all zero ps cols) st) (ps ! i) = column_value (zero (ps ! i)) (cols ! i)"
    "p \<notin> set ps \<Longrightarrow> fst (ApplyBindings (bind_all zero ps cols) st) p = st p" by blast+
qed

text \<open>
  (C36) Values written through \<^verbatim>\<open>Nullify\<close> and read through \<^verbatim>\<open>Nullable\<close> come back as they were, the zero values
  included, each in its own variable; no other variable changes.
\<close>

theorem nullify_roundtrip:
  assumes "distinct ps" "length vs = length ps"
    and "res = ApplyBindings (bind_all zero ps (map2 (\<lambda>p v. Nullify (zero p) v) ps vs)) st"
  shows "snd res = None \<and> (\<forall>i < length ps. fst res (ps ! i) = vs ! i) \<and> (\<forall>p. p \<notin> set ps \<longrightarrow> fst res p = st p)"
proof -
  let ?cols = "map2 (\<lambda>p v. Nullify (zero p) v) ps vs"
  have l: "length ps = length ?cols" using assms(2) by simp
  have "column_value (zero (ps ! i)) (?cols ! i) = vs ! i" if "i < length ps" for i
    using that assms(2) by (simp add: Nullify_def column_value_def)
  with ApplyBindings_all [OF l assms(1)] show ?thesis by (simp add: assms(3))
qed

theorem nullify_roundtrip_witness:
  "let res = ApplyBindings (bind_all (\<lambda>_. 0) [''a'', ''b''] (map2 (\<lambda>p v. Nullify 0 v) [''a'', ''b''] [0, 7 :: int])) (\<lambda>_. 5)
   in snd res = None \<and> fst res ''a'' = 0 \<and> fst res ''b'' = 7 \<and> fst res ''c'' = 5"
proof -
  have "\<forall>i < length [''a'', ''b'']. P i \<Longrightarrow> P 0 \<and> P 1" for P :: "nat \<Rightarrow> bool" by simp
  with nullify_roundtrip [of "[''a'', ''b'']" "[0, 7 :: int]" _ "\<lambda>_. 0" "\<lambda>_. 5", OF _ _ refl] show ?thesis
    by (force simp: Let_def)
qed

end
