(* ===== verification/Db_Ops.thy ===== *)
theory Db_Ops
  imports Inserts
begin

section \<open>Statements outside transactions (the DB methods of db.go)\<close>

text \<open>
  A \<^verbatim>\<open>DB\<close> runs each statement on its own. The state is the history of what reached the database; as for
  transactions, the answers of the pool and of the context are arguments, and a method and its \<^verbatim>\<open>Context\<close>
  variant are one definition.
\<close>

definition db_ExecContext ::
  "preparedQuery \<Rightarrow> error option \<Rightarrow> error + 'v \<Rightarrow> event list \<Rightarrow> event list \<times> (error + 'v)" where
  "db_ExecContext pq rtt ans h = (case instrumentExec pq rtt ans of (es, res) \<Rightarrow> (h @ es, res))"

definition db_QueryContext ::
  "preparedQuery \<Rightarrow> error option \<Rightarrow> error + 'v \<Rightarrow> event list \<Rightarrow> event list \<times> (error + rows)" where
  "db_QueryContext pq rtt ans h =
     (case instrumentExec pq rtt ans of
        (es, Inl e) \<Rightarrow> (h @ es, Inl e)
      | (es, Inr _) \<Rightarrow> (h @ es, Inr \<lparr>rows_in_tx = False\<rparr>))"

text \<open>\<open>instrumentQueryRow\<close> without a transaction.\<close>

definition db_QueryRowContext :: "preparedQuery \<Rightarrow> error option \<Rightarrow> event list \<Rightarrow> event list \<times> row" where
  "db_QueryRowContext pq queryErr h =
     (case pq_err pq of
        Some e \<Rightarrow> (h, short_row (Traced e))
      | None \<Rightarrow> (h @ [RanRow (pq_text pq) queryErr],
                 \<lparr>row_id = length h, shortErr = None, sqlErr = queryErr, row_in_tx = False, row_done = False\<rparr>))"

definition db_PrepareContext ::
  "preparedQuery \<Rightarrow> error option \<Rightarrow> error + 'v \<Rightarrow> event list \<Rightarrow> event list \<times> (error + stmt)" where
  "db_PrepareContext pq rtt ans h =
     (case instrumentExec pq rtt ans of
        (es, Inl e) \<Rightarrow> (h @ es, Inl e)
      | (es, Inr _) \<Rightarrow> (h @ es, Inr \<lparr>stmt_pq = pq, stmt_in_tx = False, stmt_err = None\<rparr>))"

definition db_PingContext :: "error option \<Rightarrow> error option \<Rightarrow> error option" where
  "db_PingContext rtt ans = (case rtt of Some e \<Rightarrow> Some (Traced e) | None \<Rightarrow> traceErr ans)"

definition db_UnpackQuery :: "(string \<Rightarrow> preparedQuery) \<Rightarrow> string \<Rightarrow> error + string" where
  "db_UnpackQuery lk query = (case pq_err (lk query) of Some e \<Rightarrow> Inl (Traced e) | None \<Rightarrow> Inr (pq_text (lk query)))"

text \<open>Scanning a row outside a transaction.\<close>

definition db_row_Scan :: "row \<Rightarrow> error + 'v \<Rightarrow> event list \<Rightarrow> event list \<times> (error + 'v)" where
  "db_row_Scan rw scan h =
     (case shortErr rw of
        Some e \<Rightarrow> (h, Inl e)
      | None \<Rightarrow>
        let err = (case sqlErr rw of Some e \<Rightarrow> Some e | None \<Rightarrow> err_of scan) in
        (h @ [ReadRow (row_id rw) err], case traceErr err of Some e \<Rightarrow> Inl e | None \<Rightarrow> scan))"

definition db_execC ::
  "(string \<Rightarrow> preparedQuery) \<Rightarrow> error option \<Rightarrow> error + (error + int) \<Rightarrow> string \<Rightarrow> event list \<Rightarrow>
   event list \<times> (error + (error + int))" where
  "db_execC lk rtt ans q h = db_ExecContext (lk q) rtt ans h"

definition db_rowScan ::
  "(string \<Rightarrow> preparedQuery) \<Rightarrow> error option \<Rightarrow> error + int \<Rightarrow> string \<Rightarrow> event list \<Rightarrow> event list \<times> (error + int)" where
  "db_rowScan lk queryErr scan q h = (case db_QueryRowContext (lk q) queryErr h of (h1, rw) \<Rightarrow> db_row_Scan rw scan h1)"

definition db_InsertReturnID ::
  "(string \<Rightarrow> preparedQuery) \<Rightarrow> error option \<Rightarrow> error + (error + int) \<Rightarrow> error option \<Rightarrow> error + int \<Rightarrow>
   string \<Rightarrow> string \<Rightarrow> string \<Rightarrow> event list \<Rightarrow> event list \<times> (error + int)" where
  "db_InsertReturnID lk rtt ans queryErr scan driverName idColumn stm h =
     insertReturnID (db_execC lk rtt ans) (db_rowScan lk queryErr scan) driverName idColumn stm h"

text \<open>A transaction begun without \<^verbatim>\<open>Transact\<close>; \<open>beginErr\<close> is the answer to BEGIN.\<close>

definition plain_tx :: tx where
  "plain_tx = \<lparr>autoErr = False, tx_err = None, tx_done = False, held_conn = False, unsentBatches = 0,
     batchMisuse = None, openBatch = None, batchExecuting = False, sent = []\<rparr>"

definition db_BeginTx :: "error option \<Rightarrow> error + tx" where
  "db_BeginTx beginErr = (case beginErr of Some e \<Rightarrow> Inl (Traced e) | None \<Rightarrow> Inr plain_tx)"

subsection \<open>Deprecated helpers\<close>

definition db_ConformArgPlaceholders :: "string \<Rightarrow> string \<Rightarrow> string" where
  "db_ConformArgPlaceholders driverName stm = conformPlaceholders driverName stm"

text \<open>The error is dropped, and then the text is empty.\<close>

definition db_NowUTC :: "string \<Rightarrow> string" where
  "db_NowUTC driverName = (case vfNowUTC driverName [] of Ok s \<Rightarrow> s | _ \<Rightarrow> [])"

definition db_RegexpTextSearch :: "string \<Rightarrow> string list \<Rightarrow> string" where
  "db_RegexpTextSearch driverName cols =
     (let concatenated = (case cols of
            [] \<Rightarrow> [quote1, quote1]
          | [c] \<Rightarrow> c
          | _ \<Rightarrow> ''CONCAT_WS('' @ [quote1, CHR '' '', quote1] @ '','' @ Join cols '','' @ '')'') in
      if driverName \<in> {''mysql'', ''mariadb''} then concatenated @ '' REGEXP ?''
      else if driverName \<in> {''pgx'', ''cockroachdb''} then ''REGEXP_LIKE('' @ concatenated @ '', ?, '' @ [quote1] @ ''i'' @ [quote1] @ '')''
      else if driverName = ''mssql'' then ''REGEXP_LIKE('' @ concatenated @ '', ?, '' @ [quote1] @ ''i'' @ [quote1] @ '')''
      else if driverName = ''sqlite'' then
        concatenated @ '' LIKE ('' @ [quote1] @ ''%'' @ [quote1] @ '' || ? || '' @ [quote1] @ ''%'' @ [quote1] @ '')''
      else [])"

subsection \<open>One statement per insert\<close>

definition one_more :: "event list \<Rightarrow> event list \<Rightarrow> bool" where
  "one_more h h' \<longleftrightarrow> (\<exists>es. h' = h @ es \<and> length (stmts es) \<le> 1)"

lemma one_more_refl [simp]: "one_more h h"
  by (simp add: one_more_def)

lemma one_more_exec: "one_more h (fst (db_ExecContext pq rtt ans h))"
  by (auto simp: one_more_def db_ExecContext_def instrumentExec_def is_stmt_def split: prod.split option.splits)

lemma one_more_scan: "one_more h (fst (db_rowScan lk queryErr scan q h))"
  by (auto simp: one_more_def db_rowScan_def db_QueryRowContext_def db_row_Scan_def short_row_def Let_def is_stmt_def
      split: option.split)

interpretation db_executor: executor "db_execC lk rtt ans" "db_rowScan lk queryErr scan" one_more
  for lk rtt ans queryErr scan
  by unfold_locales (simp_all add: db_execC_def one_more_exec one_more_scan)

subsection \<open>A transaction that does not record errors\<close>

text \<open>Such a transaction, outside a batch, is answered like the pool.\<close>

lemma plain_gate: "\<not> autoErr t \<Longrightarrow> openBatch t = None \<Longrightarrow> shortCircuit t = (t, None)"
  by (simp add: shortCircuit_def batchRefuses_def)

lemma plain_record: "\<not> autoErr t \<Longrightarrow> recordErr e t = t"
  by (simp add: recordErr_def split: option.split)

lemma plain_exec:
  assumes "\<not> autoErr t" "openBatch t = None"
  shows "tx_ExecContext pq rtt ans t = (t\<lparr>sent := fst (db_ExecContext pq rtt ans (sent t))\<rparr>, snd (db_ExecContext pq rtt ans (sent t)))"
  using assms by (simp add: tx_ExecContext_def plain_gate plain_record log_events_def db_ExecContext_def split: prod.split)

lemma plain_rowScan:
  assumes "\<not> autoErr t" "openBatch t = None"
  shows "tx_rowScan lk queryErr scan q t =
    (t\<lparr>sent := fst (db_rowScan lk queryErr scan q (sent t))\<rparr>, snd (db_rowScan lk queryErr scan q (sent t)))"
  using assms
  by (simp add: tx_rowScan_def db_rowScan_def tx_QueryRowContext_def plain_gate instrumentQueryRow_def db_QueryRowContext_def
      row_Scan_def db_row_Scan_def short_row_def plain_record row_latch_def log_events_def Let_def
      split: option.split prod.split)

lemma plain_insert:
  assumes "\<not> autoErr t" "openBatch t = None"
  shows "tx_InsertReturnID lk rtt ans queryErr scan driverName idColumn stm t =
    (t\<lparr>sent := fst (db_InsertReturnID lk rtt ans queryErr scan driverName idColumn stm (sent t))\<rparr>,
     snd (db_InsertReturnID lk rtt ans queryErr scan driverName idColumn stm (sent t)))"
  using assms
  by (simp add: tx_InsertReturnID_def db_InsertReturnID_def plain_gate plain_record insertReturnID_def tx_execC_def
      db_execC_def plain_exec plain_rowScan split: prod.split sum.split)

text \<open>
  A transaction's answer to a query, without what says whether it belongs to a transaction: the rows it hands
  out, the row, the prepared statement.
\<close>

definition detached_row :: "row \<Rightarrow> row" where
  "detached_row rw = rw\<lparr>row_in_tx := False\<rparr>"

definition detached_rows :: "error + rows \<Rightarrow> error + rows" where
  "detached_rows r = map_sum id (\<lambda>rs. rs\<lparr>rows_in_tx := False\<rparr>) r"

definition detached_stmt :: "error + stmt \<Rightarrow> error + stmt" where
  "detached_stmt r = map_sum id (\<lambda>st. st\<lparr>stmt_in_tx := False\<rparr>) r"

lemma plain_row_Scan:
  assumes "\<not> autoErr t"
  shows "(case row_Scan rw (err_of scan) t of (t', _, err) \<Rightarrow> (t', case err of Some e \<Rightarrow> Inl e | None \<Rightarrow> scan)) =
    (t\<lparr>sent := fst (db_row_Scan (detached_row rw) scan (sent t))\<rparr>, snd (db_row_Scan (detached_row rw) scan (sent t)))"
  using assms
  by (simp add: row_Scan_def db_row_Scan_def detached_row_def plain_record row_latch_def log_events_def Let_def
      split: option.split)

text \<open>
  (C21) A transaction that does not record errors (one begun with \<^verbatim>\<open>BeginTx\<close>), outside a batch, answers every
  statement as the database handle answers it and keeps nothing of an error: for \<^verbatim>\<open>Exec\<close>, \<^verbatim>\<open>Query\<close>, \<^verbatim>\<open>QueryRow\<close> and
  the scan of its row, \<^verbatim>\<open>Prepare\<close> and \<^verbatim>\<open>InsertReturnID\<close>, what it sends and what it returns are those of the methods of
  \<^verbatim>\<open>DB\<close>, but for the transaction that its rows, row and prepared statement belong to.
\<close>

theorem plain_tx_behaves_like_db:
  assumes "\<not> autoErr t" "openBatch t = None"
  shows "tx_ExecContext pq rtt ans t = (t\<lparr>sent := fst (db_ExecContext pq rtt ans (sent t))\<rparr>, snd (db_ExecContext pq rtt ans (sent t))) \<and>
    fst (tx_QueryContext pq rtt ans t) = t\<lparr>sent := fst (db_QueryContext pq rtt ans (sent t))\<rparr> \<and>
    detached_rows (snd (tx_QueryContext pq rtt ans t)) = snd (db_QueryContext pq rtt ans (sent t)) \<and>
    fst (tx_QueryRowContext pq queryErr t) = t\<lparr>sent := fst (db_QueryRowContext pq queryErr (sent t))\<rparr> \<and>
    detached_row (snd (tx_QueryRowContext pq queryErr t)) = snd (db_QueryRowContext pq queryErr (sent t)) \<and>
    (case row_Scan rw (err_of scan) t of (t', _, err) \<Rightarrow> (t', case err of Some e \<Rightarrow> Inl e | None \<Rightarrow> scan)) =
      (t\<lparr>sent := fst (db_row_Scan (detached_row rw) scan (sent t))\<rparr>, snd (db_row_Scan (detached_row rw) scan (sent t))) \<and>
    fst (tx_PrepareContext pq rtt ans t) = t\<lparr>sent := fst (db_PrepareContext pq rtt ans (sent t))\<rparr> \<and>
    detached_stmt (snd (tx_PrepareContext pq rtt ans t)) = snd (db_PrepareContext pq rtt ans (sent t)) \<and>
    tx_InsertReturnID lk rtt ians queryErr idScan driverName idColumn stm t =
      (t\<lparr>sent := fst (db_InsertReturnID lk rtt ians queryErr idScan driverName idColumn stm (sent t))\<rparr>,
       snd (db_InsertReturnID lk rtt ians queryErr idScan driverName idColumn stm (sent t)))"
proof (intro conjI)
  note gate = plain_gate [OF assms] and rc = plain_record [OF assms(1)]
  show "fst (tx_QueryContext pq rtt ans t) = t\<lparr>sent := fst (db_QueryContext pq rtt ans (sent t))\<rparr>"
    "detached_rows (snd (tx_QueryContext pq rtt ans t)) = snd (db_QueryContext pq rtt ans (sent t))"
    using assms by (auto simp: tx_QueryContext_def db_QueryContext_def gate plain_record log_events_def detached_rows_def
        split: prod.split sum.split)
  show "fst (tx_PrepareContext pq rtt ans t) = t\<lparr>sent := fst (db_PrepareContext pq rtt ans (sent t))\<rparr>"
    "detached_stmt (snd (tx_PrepareContext pq rtt ans t)) = snd (db_PrepareContext pq rtt ans (sent t))"
    using assms by (auto simp: tx_PrepareContext_def db_PrepareContext_def gate plain_record log_events_def detached_stmt_def
        split: prod.split sum.split)
  show "fst (tx_QueryRowContext pq queryErr t) = t\<lparr>sent := fst (db_QueryRowContext pq queryErr (sent t))\<rparr>"
    "detached_row (snd (tx_QueryRowContext pq queryErr t)) = snd (db_QueryRowContext pq queryErr (sent t))"
    by (auto simp: tx_QueryRowContext_def db_QueryRowContext_def gate rc instrumentQueryRow_def log_events_def
        detached_row_def short_row_def split: option.split)
qed (use assms plain_exec plain_insert plain_row_Scan in blast)+

text \<open>
  (C35) \<^verbatim>\<open>InsertReturnID\<close> sends at most one statement, on every driver, and extends the history: it never inserts
  twice. A column name that is not a plain identifier sends nothing.
\<close>

theorem insert_sends_one_statement:
  "(\<exists>es. fst (db_InsertReturnID lk rtt ans queryErr scan driverName idColumn stm h) = h @ es \<and> length (stmts es) \<le> 1) \<and>
   (isIdentifier idColumn \<or> fst (db_InsertReturnID lk rtt ans queryErr scan driverName idColumn stm h) = h)"
proof
  show "\<exists>es. fst (db_InsertReturnID lk rtt ans queryErr scan driverName idColumn stm h) = h @ es \<and> length (stmts es) \<le> 1"
    using db_executor.insert_keeps [of h lk rtt ans queryErr scan driverName idColumn stm]
    by (simp add: one_more_def db_InsertReturnID_def)
qed (simp add: db_InsertReturnID_def insertReturnID_def)

text \<open>
  For SQL Server, the OUTPUT clause goes in front of the first \<^verbatim>\<open>VALUES\<close> or \<^verbatim>\<open>SELECT\<close> that stands as a word
  after white space, and nothing else of the statement changes; a statement without one is refused.
\<close>

theorem output_clause_before_source:
  "case injectOutputInserted stm idColumn of
     Inr out \<Rightarrow> (\<exists>pre clause. stm = pre @ clause \<and> source_clause_at clause \<and>
        (\<forall>i < length pre. \<not> source_clause_at (drop i stm)) \<and> out = pre @ '' OUTPUT INSERTED.'' @ idColumn @ clause)
   | Inl e \<Rightarrow> e = errNoSource \<and> (\<forall>i < length stm. \<not> source_clause_at (drop i stm))"
proof (cases "insertSourceClause stm")
  case None
  moreover from None have "\<forall>i < length stm. \<not> source_clause_at (drop i stm)" by (simp only: insertSourceClause_None)
  ultimately show ?thesis by (simp add: injectOutputInserted_def)
next
  case (Some i)
  then have s: "i < length stm" "source_clause_at (drop i stm)" "\<forall>j < i. \<not> source_clause_at (drop j stm)"
    unfolding insertSourceClause_Some by blast+
  have "\<exists>pre clause. stm = pre @ clause \<and> source_clause_at clause \<and> (\<forall>j < length pre. \<not> source_clause_at (drop j stm)) \<and>
      take i stm @ '' OUTPUT INSERTED.'' @ idColumn @ drop i stm = pre @ '' OUTPUT INSERTED.'' @ idColumn @ clause"
    by (rule exI [of _ "take i stm"], rule exI [of _ "drop i stm"]) (use s in simp)
  with Some show ?thesis by (simp add: injectOutputInserted_def)
qed

theorem output_clause_before_source_witness:
  "injectOutputInserted ''INSERT INTO t (a) VALUES (1)'' ''id'' =
     Inr ''INSERT INTO t (a) OUTPUT INSERTED.id VALUES (1)'' \<and>
   (\<exists>pre clause. ''INSERT INTO t (a) VALUES (1)'' = pre @ clause \<and> source_clause_at clause)"
proof -
  have "injectOutputInserted ''INSERT INTO t (a) VALUES (1)'' ''id'' =
     Inr ''INSERT INTO t (a) OUTPUT INSERTED.id VALUES (1)''" by code_simp
  then show ?thesis using output_clause_before_source [of "''INSERT INTO t (a) VALUES (1)''" "''id''"] by auto
qed

theorem plain_tx_behaves_like_db_witness:
  "tx_ExecContext (labelled ''pgx'' ''UPDATE a'' ''UPDATE a'' None ''UPDATE'' []) None (Inl Canceled :: error + unit) plain_tx =
   (plain_tx\<lparr>sent := [Ran ''UPDATE a'' (Some Canceled)]\<rparr>, Inl (Traced Canceled))"
proof -
  let ?pq = "labelled ''pgx'' ''UPDATE a'' ''UPDATE a'' None ''UPDATE'' []" and ?ans = "Inl Canceled :: error + unit"
  have p: "\<not> autoErr plain_tx" "openBatch plain_tx = None" by (simp_all add: plain_tx_def)
  have "tx_ExecContext ?pq None ?ans plain_tx =
    (plain_tx\<lparr>sent := fst (db_ExecContext ?pq None ?ans (sent plain_tx))\<rparr>, snd (db_ExecContext ?pq None ?ans (sent plain_tx)))"
    using plain_tx_behaves_like_db [OF p] by blast
  moreover have "db_ExecContext ?pq None ?ans (sent plain_tx) = ([Ran ''UPDATE a'' (Some Canceled)], Inl (Traced Canceled))"
    by code_simp
  ultimately show ?thesis by simp
qed

end
