(* ===== verification/Telemetry.thy ===== *)
theory Telemetry
  imports Db_Ops Dsn_Database
begin

section \<open>Spans, metrics and logs (telemetry.go)\<close>

text \<open>
  What sequel reports about the operations it runs. The OpenTelemetry and slog backends are outside; what they are
  told is a list of signals, in order. A span is known by its number. Times are the clock's, in any unit.
\<close>

subsection \<open>The wiring\<close>

record logger =
  lg_id :: nat
  lg_debug :: bool

text \<open>A tracer, a meter and an instrument are known by the provider that made them; \<open>None\<close> is nil.\<close>

record telemetry =
  tl_tracer :: "nat option"
  tl_meter :: nat
  tl_logger :: "logger option"
  tl_queryDuration :: "nat option"
  tl_transactionDuration :: "nat option"
  tl_lockContention :: "nat option"
  tl_migrationRuns :: "nat option"
  tl_poolRegistration :: "nat option"

text \<open>The meters' pool callbacks: those registered, and the number of the next.\<close>

record callbacks =
  cb_active :: "nat set"
  cb_next :: nat

definition discard :: logger where
  "discard = \<lparr>lg_id = 0, lg_debug = False\<rparr>"

text \<open>\<open>regOK\<close> tells whether the registration of the callback succeeded.\<close>

definition initInstruments :: "bool \<Rightarrow> telemetry \<Rightarrow> callbacks \<Rightarrow> telemetry \<times> callbacks" where
  "initInstruments regOK t cb =
     (let m = Some (tl_meter t);
          t1 = t\<lparr>tl_queryDuration := m, tl_transactionDuration := m, tl_lockContention := m, tl_migrationRuns := m\<rparr> in
      if regOK then (t1\<lparr>tl_poolRegistration := Some (cb_next cb)\<rparr>,
                     \<lparr>cb_active = insert (cb_next cb) (cb_active cb), cb_next = cb_next cb + 1\<rparr>)
      else (t1, cb))"

definition clearInstruments :: "telemetry \<Rightarrow> callbacks \<Rightarrow> telemetry \<times> callbacks" where
  "clearInstruments t cb =
     (t\<lparr>tl_queryDuration := None, tl_transactionDuration := None, tl_lockContention := None, tl_migrationRuns := None,
        tl_poolRegistration := None\<rparr>,
      (case tl_poolRegistration t of None \<Rightarrow> cb | Some r \<Rightarrow> cb\<lparr>cb_active := cb_active cb - {r}\<rparr>))"

text \<open>\<open>tp\<close> and \<open>mp\<close> are the process-wide providers.\<close>

definition newDefaultTelemetry :: "nat \<Rightarrow> nat \<Rightarrow> bool \<Rightarrow> callbacks \<Rightarrow> telemetry \<times> callbacks" where
  "newDefaultTelemetry tp mp regOK cb =
     initInstruments regOK \<lparr>tl_tracer = Some tp, tl_meter = mp, tl_logger = Some discard, tl_queryDuration = None,
       tl_transactionDuration = None, tl_lockContention = None, tl_migrationRuns = None, tl_poolRegistration = None\<rparr> cb"

definition SetTracerProvider :: "nat \<Rightarrow> nat option \<Rightarrow> telemetry \<Rightarrow> telemetry" where
  "SetTracerProvider global tp t = t\<lparr>tl_tracer := Some (case tp of None \<Rightarrow> global | Some p \<Rightarrow> p)\<rparr>"

definition SetLogger :: "logger option \<Rightarrow> telemetry \<Rightarrow> telemetry" where
  "SetLogger logger t = t\<lparr>tl_logger := Some (case logger of None \<Rightarrow> discard | Some l \<Rightarrow> l)\<rparr>"

definition SetMeterProvider :: "nat \<Rightarrow> nat option \<Rightarrow> bool \<Rightarrow> telemetry \<Rightarrow> callbacks \<Rightarrow> telemetry \<times> callbacks" where
  "SetMeterProvider global mp regOK t cb =
     (case clearInstruments t cb of
        (t1, cb1) \<Rightarrow> initInstruments regOK (t1\<lparr>tl_meter := (case mp of None \<Rightarrow> global | Some m \<Rightarrow> m)\<rparr>) cb1)"

text \<open>What \<^verbatim>\<open>Close\<close> does with the callback of the pool it closes.\<close>

definition unregisterPool :: "telemetry \<Rightarrow> callbacks \<Rightarrow> callbacks" where
  "unregisterPool t cb =
     (case tl_poolRegistration t of None \<Rightarrow> cb | Some r \<Rightarrow> cb\<lparr>cb_active := cb_active cb - {r}\<rparr>)"

subsection \<open>Signals\<close>

datatype signal =
    SpanStarted nat string attributes "int option"
  | SpanError nat error
  | SpanAttr nat string int
  | SpanEnded nat
  | Recorded nat string int attributes
  | Added nat string attributes
  | Logged nat string "(string \<times> string) list"

record tele_state =
  ts_signals :: "signal list"
  ts_span :: nat
  ts_capLogged :: bool

definition emit :: "signal list \<Rightarrow> tele_state \<Rightarrow> tele_state" where
  "emit sg ts = ts\<lparr>ts_signals := ts_signals ts @ sg\<rparr>"

record queryOp =
  qo_t :: "telemetry option"
  qo_pq :: preparedQuery
  qo_span :: "nat option"
  qo_start :: int

text \<open>\<open>cap\<close> is the flag \<^verbatim>\<open>capExceeded\<close> of the operation labels.\<close>

definition logOperationCapOnce :: "bool \<Rightarrow> telemetry \<Rightarrow> tele_state \<Rightarrow> tele_state" where
  "logOperationCapOnce cap t ts =
     (case tl_logger t of
        None \<Rightarrow> ts
      | Some lg \<Rightarrow>
        if \<not> cap \<or> ts_capLogged ts then ts
        else (emit [Logged (lg_id lg) ''sequel reached its limit of distinct statement verbs; further unrecognized verbs report as OTHER''
                [(''cap'', Itoa (int operationLabelCap))]] ts)\<lparr>ts_capLogged := True\<rparr>)"

definition startSpan :: "telemetry \<Rightarrow> string \<Rightarrow> attributes \<Rightarrow> int option \<Rightarrow> tele_state \<Rightarrow> nat option \<times> tele_state" where
  "startSpan t name attrs at ts =
     (case tl_tracer t of
        None \<Rightarrow> (None, ts)
      | Some _ \<Rightarrow> (Some (ts_span ts), (emit [SpanStarted (ts_span ts) name attrs at] ts)\<lparr>ts_span := ts_span ts + 1\<rparr>))"

definition begin_op :: "bool \<Rightarrow> telemetry option \<Rightarrow> preparedQuery \<Rightarrow> int \<Rightarrow> int option \<Rightarrow> tele_state \<Rightarrow> queryOp \<times> tele_state" where
  "begin_op cap t pq start at ts =
     (case t of
        None \<Rightarrow> (\<lparr>qo_t = None, qo_pq = pq, qo_span = None, qo_start = start\<rparr>, ts)
      | Some t' \<Rightarrow>
        (case startSpan t' (spanName pq) (spanOptions pq) at (logOperationCapOnce cap t' ts) of
           (sp, ts1) \<Rightarrow> (\<lparr>qo_t = t, qo_pq = pq, qo_span = sp, qo_start = start\<rparr>, ts1)))"

definition op_begin :: "bool \<Rightarrow> telemetry option \<Rightarrow> preparedQuery \<Rightarrow> int \<Rightarrow> tele_state \<Rightarrow> queryOp \<times> tele_state" where
  "op_begin cap t pq now ts = begin_op cap t pq now None ts"

definition beginAt :: "bool \<Rightarrow> telemetry option \<Rightarrow> preparedQuery \<Rightarrow> int \<Rightarrow> tele_state \<Rightarrow> queryOp \<times> tele_state" where
  "beginAt cap t pq start ts = begin_op cap t pq start (Some start) ts"

definition end_span :: "nat option \<Rightarrow> error option \<Rightarrow> signal list" where
  "end_span sp err =
     (case sp of
        None \<Rightarrow> []
      | Some n \<Rightarrow> (case err of None \<Rightarrow> [] | Some e \<Rightarrow> [SpanError n e]) @ [SpanEnded n])"

text \<open>\<open>msg\<close> is \<^verbatim>\<open>err.Error()\<close>.\<close>

definition query_log :: "(error \<Rightarrow> string) \<Rightarrow> telemetry \<Rightarrow> preparedQuery \<Rightarrow> int \<Rightarrow> error option \<Rightarrow> signal list" where
  "query_log msg t pq dur err =
     (case tl_logger t of
        None \<Rightarrow> []
      | Some lg \<Rightarrow>
        if \<not> lg_debug lg then []
        else
          let args = [(''driver'', key_driver (pq_key pq)), (''operation'', pq_op pq), (''query'', pq_text pq), (''duration_s'', Itoa dur)] in
          case err of
            None \<Rightarrow> [Logged (lg_id lg) ''sequel query'' args]
          | Some e \<Rightarrow> [Logged (lg_id lg) ''sequel query failed'' (args @ [(''error'', msg e)])])"

definition finish :: "(error \<Rightarrow> string) \<Rightarrow> queryOp \<Rightarrow> error option \<Rightarrow> int \<Rightarrow> tele_state \<Rightarrow> tele_state" where
  "finish msg op err now ts =
     (case qo_t op of
        None \<Rightarrow> ts
      | Some t \<Rightarrow>
        let pq = qo_pq op; dur = now - qo_start op;
            contention = (case (err, tl_lockContention t) of
              (Some _, Some m) \<Rightarrow> if IsLockContentionError msg err then [Added m ''sequel_lock_contention'' (addContention pq)] else []
            | _ \<Rightarrow> []);
            duration = (case tl_queryDuration t of
              None \<Rightarrow> []
            | Some m \<Rightarrow> [Recorded m ''sequel_query_duration'' dur (if err = None then recordOK pq else recordFailed pq)]) in
        emit (contention @ duration @ end_span (qo_span op) err @ query_log msg t pq dur err) ts)"

subsection \<open>Whole operations\<close>

text \<open>
  The instrumented operations; \<open>start\<close> and \<open>stop\<close> are the clock when they begin and end. What an operation
  sends and answers is \<open>instrumentExec\<close> and \<open>db_QueryRowContext\<close>; here it is told beside, with the error as
  the driver gave it.
\<close>

definition tele_instrumentExec ::
  "(error \<Rightarrow> string) \<Rightarrow> bool \<Rightarrow> telemetry option \<Rightarrow> int \<Rightarrow> int \<Rightarrow> preparedQuery \<Rightarrow> error option \<Rightarrow> error + 'v \<Rightarrow> tele_state \<Rightarrow>
   tele_state \<times> event list \<times> (error + 'v)" where
  "tele_instrumentExec msg cap t start stop pq rtt ans ts =
     (case op_begin cap t pq start ts of
        (op, ts1) \<Rightarrow>
          (finish msg op (case pq_err pq of Some e \<Rightarrow> Some e | None \<Rightarrow> (case rtt of Some e \<Rightarrow> Some e | None \<Rightarrow> err_of ans)) stop ts1,
           instrumentExec pq rtt ans))"

text \<open>BEGIN, COMMIT and ROLLBACK: what \<^verbatim>\<open>database/sql\<close> answers by itself is not reported.\<close>

definition instrumentTxOp ::
  "(error \<Rightarrow> string) \<Rightarrow> bool \<Rightarrow> telemetry option \<Rightarrow> (string \<Rightarrow> preparedQuery) \<Rightarrow> string \<Rightarrow> int \<Rightarrow> int \<Rightarrow> error + 'v \<Rightarrow> tele_state \<Rightarrow>
   tele_state \<times> (error + 'v)" where
  "instrumentTxOp msg cap t lk opName start stop ans ts =
     (if (case ans of Inl e \<Rightarrow> errors_Is e ErrTxDone | Inr _ \<Rightarrow> False) then (ts, ans)
      else case beginAt cap t (lk opName) start ts of (op, ts1) \<Rightarrow> (finish msg op (err_of ans) stop ts1, ans))"

record tele_row =
  tr_row :: row
  tr_op :: queryOp

definition tele_instrumentQueryRow ::
  "(error \<Rightarrow> string) \<Rightarrow> bool \<Rightarrow> telemetry option \<Rightarrow> int \<Rightarrow> int \<Rightarrow> preparedQuery \<Rightarrow> error option \<Rightarrow> tele_state \<Rightarrow> event list \<Rightarrow>
   tele_state \<times> event list \<times> tele_row" where
  "tele_instrumentQueryRow msg cap t start stop pq queryErr ts h =
     (case op_begin cap t pq start ts of
        (op, ts1) \<Rightarrow>
          (case db_QueryRowContext pq queryErr h of
             (h', rw) \<Rightarrow>
               (case pq_err pq of
                  Some e \<Rightarrow> (finish msg op (Some e) stop ts1, h',
                             \<lparr>tr_row = rw, tr_op = \<lparr>qo_t = None, qo_pq = pq, qo_span = None, qo_start = 0\<rparr>\<rparr>)
                | None \<Rightarrow> (ts1, h', \<lparr>tr_row = rw, tr_op = op\<rparr>))))"

definition row_complete :: "(error \<Rightarrow> string) \<Rightarrow> int \<Rightarrow> error option \<Rightarrow> tele_row \<Rightarrow> tele_state \<Rightarrow> tele_row \<times> tele_state" where
  "row_complete msg now err r ts =
     (if row_done (tr_row r) then (r, ts)
      else (r\<lparr>tr_row := complete (tr_row r)\<rparr>, finish msg (tr_op r) err now ts))"

subsection \<open>Transactions and migrations\<close>

definition transact_attrs :: "string \<Rightarrow> string \<Rightarrow> attributes" where
  "transact_attrs driver outcome = [(''db.system.name'', driver), (''outcome'', outcome)]"

record transactOp =
  to_t :: "telemetry option"
  to_driver :: string
  to_span :: "nat option"
  to_start :: int

definition beginTransact :: "telemetry option \<Rightarrow> string \<Rightarrow> int \<Rightarrow> tele_state \<Rightarrow> transactOp \<times> tele_state" where
  "beginTransact t driver now ts =
     (case t of
        None \<Rightarrow> (\<lparr>to_t = None, to_driver = driver, to_span = None, to_start = now\<rparr>, ts)
      | Some t' \<Rightarrow>
        (case startSpan t' ''transact'' [(''db.system.name'', driver)] None ts of
           (sp, ts1) \<Rightarrow> (\<lparr>to_t = t, to_driver = driver, to_span = sp, to_start = now\<rparr>, ts1)))"

text \<open>\<open>recording\<close> is the answer of the span to \<^verbatim>\<open>IsRecording\<close>.\<close>

definition finishTransact :: "bool \<Rightarrow> transactOp \<Rightarrow> nat \<Rightarrow> error option \<Rightarrow> int \<Rightarrow> tele_state \<Rightarrow> tele_state" where
  "finishTransact recording op attempts err now ts =
     (case to_t op of
        None \<Rightarrow> ts
      | Some t \<Rightarrow>
        emit ((case tl_transactionDuration t of
                 None \<Rightarrow> []
               | Some m \<Rightarrow> [Recorded m ''sequel_transaction_duration'' (now - to_start op)
                              (transact_attrs (to_driver op) (if err = None then ''committed'' else ''rolledback''))]) @
              (case to_span op of
                 None \<Rightarrow> []
               | Some n \<Rightarrow> if recording then [SpanAttr n ''db.transaction.attempts'' (int attempts)] else []) @
              end_span (to_span op) err) ts)"

definition beginMigrate :: "telemetry option \<Rightarrow> string \<Rightarrow> string \<Rightarrow> tele_state \<Rightarrow> nat option \<times> tele_state" where
  "beginMigrate t driver sequence ts =
     (case t of
        None \<Rightarrow> (None, ts)
      | Some t' \<Rightarrow> startSpan t' (''migrate '' @ sequence) [(''db.system.name'', driver), (''db.migration.sequence'', sequence)] None ts)"

definition finishMigrate :: "nat option \<Rightarrow> error option \<Rightarrow> tele_state \<Rightarrow> tele_state" where
  "finishMigrate sp err ts = emit (end_span sp err) ts"

definition logMigrationAttempt :: "telemetry option \<Rightarrow> string \<Rightarrow> string \<Rightarrow> string \<Rightarrow> tele_state \<Rightarrow> tele_state" where
  "logMigrationAttempt t driver sequence file ts =
     (case t of
        None \<Rightarrow> ts
      | Some t' \<Rightarrow>
        (case tl_logger t' of
           None \<Rightarrow> ts
         | Some lg \<Rightarrow> emit [Logged (lg_id lg) ''running database migration''
                        [(''driver'', driver), (''sequence'', sequence), (''file'', file)]] ts))"

definition recordMigration :: "telemetry option \<Rightarrow> string \<Rightarrow> string \<Rightarrow> error option \<Rightarrow> tele_state \<Rightarrow> tele_state" where
  "recordMigration t driver sequence err ts =
     (case t of
        None \<Rightarrow> ts
      | Some t' \<Rightarrow>
        (case tl_migrationRuns t' of
           None \<Rightarrow> ts
         | Some m \<Rightarrow> emit [Added m ''sequel_migration_runs'' [(''db.system.name'', driver), (''db.migration.sequence'', sequence),
                       (''status'', if err = None then ''ok'' else ''error'')]] ts))"

end
