(* ===== verification/Spans.thy ===== *)
theory Spans
  imports Telemetry
begin

section \<open>What is reported\<close>

text \<open>
  Operations begin and end in any order, several at a time. Each span that is started is ended once, when its
  operation is; the statement's text reaches the log only; and a handle leaves no pool callback behind.
\<close>

subsection \<open>Operations in progress\<close>

datatype pending = PQuery queryOp | PRow tele_row | PTransact transactOp | PMigrate "nat option"

fun open_span :: "pending \<Rightarrow> nat option" where
  "open_span (PQuery op) = qo_span op"
| "open_span (PRow r) = (if row_done (tr_row r) then None else qo_span (tr_op r))"
| "open_span (PTransact op) = to_span op"
| "open_span (PMigrate sp) = sp"

inductive tele_step :: "(error \<Rightarrow> string) \<Rightarrow> tele_state \<times> pending list \<Rightarrow> tele_state \<times> pending list \<Rightarrow> bool" for msg where
  query_begun: "op_begin cap t pq now ts = (op, ts') \<Longrightarrow> tele_step msg (ts, ps) (ts', PQuery op # ps)"
| query_begun_at: "beginAt cap t pq start ts = (op, ts') \<Longrightarrow> tele_step msg (ts, ps) (ts', PQuery op # ps)"
| query_finished: "tele_step msg (ts, qs @ PQuery op # rs) (finish msg op err now ts, qs @ rs)"
| row_begun: "tele_instrumentQueryRow msg cap t start stop pq queryErr ts h = (ts', h', r) \<Longrightarrow>
    tele_step msg (ts, ps) (ts', PRow r # ps)"
| row_read: "row_complete msg now err r ts = (r', ts') \<Longrightarrow> tele_step msg (ts, qs @ PRow r # rs) (ts', qs @ PRow r' # rs)"
| transact_begun: "beginTransact t driver now ts = (op, ts') \<Longrightarrow> tele_step msg (ts, ps) (ts', PTransact op # ps)"
| transact_finished: "tele_step msg (ts, qs @ PTransact op # rs) (finishTransact recording op attempts err now ts, qs @ rs)"
| migrate_begun: "beginMigrate t driver sequence ts = (sp, ts') \<Longrightarrow> tele_step msg (ts, ps) (ts', PMigrate sp # ps)"
| migrate_finished: "tele_step msg (ts, qs @ PMigrate sp # rs) (finishMigrate sp err ts, qs @ rs)"
| migration_ran: "tele_step msg (ts, ps) (recordMigration t driver sequence err (logMigrationAttempt t driver sequence file ts), ps)"

definition starts :: "nat \<Rightarrow> signal list \<Rightarrow> nat" where
  "starts n sg = length (filter (\<lambda>s. case s of SpanStarted m _ _ _ \<Rightarrow> m = n | _ \<Rightarrow> False) sg)"

definition ends :: "nat \<Rightarrow> signal list \<Rightarrow> nat" where
  "ends n sg = length (filter (\<lambda>s. s = SpanEnded n) sg)"

definition open_count :: "nat \<Rightarrow> pending list \<Rightarrow> nat" where
  "open_count n ps = length (filter (\<lambda>p. open_span p = Some n) ps)"

text \<open>Without telemetry an operation has no span.\<close>

fun quiet :: "pending \<Rightarrow> bool" where
  "quiet (PQuery op) \<longleftrightarrow> (qo_t op = None \<longrightarrow> qo_span op = None)"
| "quiet (PRow r) \<longleftrightarrow> (qo_t (tr_op r) = None \<longrightarrow> qo_span (tr_op r) = None)"
| "quiet (PTransact op) \<longleftrightarrow> (to_t op = None \<longrightarrow> to_span op = None)"
| "quiet (PMigrate sp) \<longleftrightarrow> True"

definition span_inv :: "tele_state \<times> pending list \<Rightarrow> bool" where
  "span_inv s \<longleftrightarrow> (case s of (ts, ps) \<Rightarrow>
     (\<forall>n. starts n (ts_signals ts) = (if n < ts_span ts then 1 else 0) \<and>
          ends n (ts_signals ts) + open_count n ps = starts n (ts_signals ts)) \<and>
     list_all quiet ps)"

lemma starts_simps [simp]: "starts n [] = 0" "starts n (s @ s') = starts n s + starts n s'"
  "starts n (SpanStarted m a b c # s) = (if m = n then 1 else 0) + starts n s" "starts n (SpanError m e # s) = starts n s"
  "starts n (SpanAttr m k v # s) = starts n s" "starts n (SpanEnded m # s) = starts n s" "starts n (Recorded m k v at # s) = starts n s"
  "starts n (Added m k at # s) = starts n s" "starts n (Logged m k l # s) = starts n s"
  by (simp_all add: starts_def)

lemma ends_simps [simp]: "ends n [] = 0" "ends n (s @ s') = ends n s + ends n s'"
  "ends n (SpanStarted m a b c # s) = ends n s" "ends n (SpanError m e # s) = ends n s"
  "ends n (SpanAttr m k v # s) = ends n s" "ends n (SpanEnded m # s) = (if m = n then 1 else 0) + ends n s"
  "ends n (Recorded m k v at # s) = ends n s" "ends n (Added m k at # s) = ends n s" "ends n (Logged m k l # s) = ends n s"
  by (simp_all add: ends_def)

lemma open_count_simps [simp]: "open_count n [] = 0" "open_count n (ps @ qs) = open_count n ps + open_count n qs"
  "open_count n (p # ps) = (if open_span p = Some n then 1 else 0) + open_count n ps"
  by (simp_all add: open_count_def)

lemma emit_simps [simp]: "ts_signals (emit sg ts) = ts_signals ts @ sg" "ts_span (emit sg ts) = ts_span ts"
  "ts_capLogged (emit sg ts) = ts_capLogged ts"
  by (simp_all add: emit_def)

text \<open>What the pieces do to the spans.\<close>

definition adds_spans :: "tele_state \<Rightarrow> nat option \<Rightarrow> nat option \<Rightarrow> tele_state \<Rightarrow> bool" where
  "adds_spans ts started ended ts' \<longleftrightarrow>
     (\<forall>n. starts n (ts_signals ts') = starts n (ts_signals ts) + (if started = Some n then 1 else 0) \<and>
          ends n (ts_signals ts') = ends n (ts_signals ts) + (if ended = Some n then 1 else 0)) \<and>
     (case started of None \<Rightarrow> ts_span ts' = ts_span ts | Some n \<Rightarrow> n = ts_span ts \<and> ts_span ts' = ts_span ts + 1)"

lemma adds_emit: "(\<And>n. starts n sg = 0) \<Longrightarrow> (\<And>n. ends n sg = (if ended = Some n then 1 else 0)) \<Longrightarrow> adds_spans ts None ended (emit sg ts)"
  by (simp add: adds_spans_def)

lemma adds_refl [simp]: "adds_spans ts None None ts"
  by (simp add: adds_spans_def)

lemma adds_quiet: "adds_spans ts None None ts1 \<Longrightarrow> adds_spans ts1 a b ts2 \<Longrightarrow> adds_spans ts a b ts2"
  by (cases a) (simp_all add: adds_spans_def)

lemma end_span_counts [simp]: "starts n (end_span sp err) = 0" "ends n (end_span sp err) = (if sp = Some n then 1 else 0)"
  by (simp_all add: end_span_def split: option.split)

lemma query_log_counts [simp]: "starts n (query_log msg t pq dur err) = 0" "ends n (query_log msg t pq dur err) = 0"
  by (simp_all add: query_log_def Let_def split: option.split)

lemma adds_cap: "adds_spans ts None None (logOperationCapOnce cap t ts)"
  by (auto simp: logOperationCapOnce_def adds_spans_def split: option.split)

lemma adds_startSpan: "startSpan t name attrs at ts = (sp, ts') \<Longrightarrow> adds_spans ts sp None ts'"
  by (auto simp: startSpan_def adds_spans_def split: option.splits)

lemma adds_begin: "begin_op cap t pq start at ts = (op, ts') \<Longrightarrow> adds_spans ts (qo_span op) None ts' \<and> quiet (PQuery op)"
  using adds_quiet [OF adds_cap adds_startSpan]
  by (fastforce simp: begin_op_def split: option.splits prod.splits)

lemma adds_finish: "quiet (PQuery op) \<Longrightarrow> adds_spans ts None (qo_span op) (finish msg op err now ts)"
proof (cases "qo_t op")
  case (Some t)
  then show ?thesis unfolding finish_def Some option.case Let_def
    by (intro adds_emit) (auto split: option.split)
qed (simp add: finish_def)

lemma adds_transact_end: "quiet (PTransact op) \<Longrightarrow> adds_spans ts None (to_span op) (finishTransact recording op attempts err now ts)"
proof (cases "to_t op")
  case (Some t)
  then show ?thesis unfolding finishTransact_def Some option.case
    by (intro adds_emit) (auto split: option.split)
qed (simp add: finishTransact_def)

lemma adds_migration: "adds_spans ts None None (recordMigration t driver sequence err (logMigrationAttempt t driver sequence file ts))"
  by (auto simp: recordMigration_def logMigrationAttempt_def adds_spans_def split: option.split)

text \<open>A step that starts the span of what it adds and ends the span of what it removes keeps the invariant.\<close>

lemma span_inv_step:
  assumes inv: "span_inv (ts, ps)" and a: "adds_spans ts started ended ts'" and q: "list_all quiet ps'"
    and c: "\<And>n. open_count n ps' + (if ended = Some n then 1 else 0) = open_count n ps + (if started = Some n then 1 else 0)"
  shows "span_inv (ts', ps')"
proof -
  have i: "starts n (ts_signals ts) = (if n < ts_span ts then 1 else 0)" "ends n (ts_signals ts) + open_count n ps = starts n (ts_signals ts)" for n
    using inv by (simp_all add: span_inv_def)
  have e: "starts n (ts_signals ts') = starts n (ts_signals ts) + (if started = Some n then 1 else 0)"
    "ends n (ts_signals ts') = ends n (ts_signals ts) + (if ended = Some n then 1 else 0)" for n
    using a by (simp_all add: adds_spans_def)
  have "starts n (ts_signals ts') = (if n < ts_span ts' then 1 else 0)" for n
    using a unfolding e(1) i(1) by (cases started) (auto simp: adds_spans_def)
  moreover have "ends n (ts_signals ts') + open_count n ps' = starts n (ts_signals ts')" for n
    using i(2) [of n] e [of n] c [of n] by linarith
  ultimately show ?thesis using q by (simp add: span_inv_def)
qed

lemma span_inv_quiet: "span_inv (ts, ps) \<Longrightarrow> list_all quiet ps"
  by (simp add: span_inv_def)

lemma tele_step_inv: "tele_step msg s s' \<Longrightarrow> span_inv s \<Longrightarrow> span_inv s'"
proof (induction rule: tele_step.induct)
  case (query_begun cap t pq now ts op ts' ps)
  note b = adds_begin [OF query_begun(1) [unfolded op_begin_def]]
  show ?case
    by (rule span_inv_step [OF query_begun(2) conjunct1 [OF b]]) (use conjunct2 [OF b] span_inv_quiet [OF query_begun(2)] in simp_all)
next
  case (query_begun_at cap t pq start ts op ts' ps)
  note b = adds_begin [OF query_begun_at(1) [unfolded beginAt_def]]
  show ?case
    by (rule span_inv_step [OF query_begun_at(2) conjunct1 [OF b]]) (use conjunct2 [OF b] span_inv_quiet [OF query_begun_at(2)] in simp_all)
next
  case (query_finished ts qs op rs err now)
  note q = span_inv_quiet [OF query_finished]
  then have "quiet (PQuery op)" by simp
  from span_inv_step [OF query_finished adds_finish [OF this]] q show ?case by simp
next
  case (row_begun cap t start stop pq queryErr ts h ts' h' r ps)
  obtain op ts1 where b: "op_begin cap t pq start ts = (op, ts1)" by fastforce
  note a = adds_begin [OF b [unfolded op_begin_def]]
  note q = span_inv_quiet [OF row_begun(2)]
  show ?case
  proof (cases "pq_err pq")
    case None
    then have r: "ts' = ts1" "tr_op r = op" "\<not> row_done (tr_row r)"
      using row_begun(1) b by (auto simp: tele_instrumentQueryRow_def db_QueryRowContext_def)
    show ?thesis unfolding r(1) by (rule span_inv_step [OF row_begun(2) conjunct1 [OF a]]) (use a q r in simp_all)
  next
    case (Some e)
    then have r: "ts' = finish msg op (Some e) stop ts1" "qo_span (tr_op r) = None"
      using row_begun(1) b by (auto simp: tele_instrumentQueryRow_def split: prod.splits)
    have i: "span_inv (ts1, PQuery op # ps)"
      by (rule span_inv_step [OF row_begun(2) conjunct1 [OF a]]) (use a q in simp_all)
    show ?thesis unfolding r(1) by (rule span_inv_step [OF i adds_finish [OF conjunct2 [OF a]]]) (use q r in simp_all)
  qed
next
  case (row_read now err r ts r' ts' qs rs)
  note q = span_inv_quiet [OF row_read(2)]
  then have q': "quiet (PQuery (tr_op r))" by simp
  show ?case
  proof (cases "row_done (tr_row r)")
    case True
    with row_read show ?thesis by (simp add: row_complete_def)
  next
    case False
    with row_read(1) have r: "r' = r\<lparr>tr_row := complete (tr_row r)\<rparr>" "ts' = finish msg (tr_op r) err now ts"
      by (simp_all add: row_complete_def)
    show ?thesis unfolding r
      by (rule span_inv_step [OF row_read(2) adds_finish [OF q']]) (use q False in \<open>simp_all add: complete_def\<close>)
  qed
next
  case (transact_begun t driver now ts op ts' ps)
  have "adds_spans ts (to_span op) None ts' \<and> quiet (PTransact op)"
    using transact_begun(1) adds_startSpan by (fastforce simp: beginTransact_def split: option.splits prod.splits)
  then show ?case
    by (intro span_inv_step [OF transact_begun(2), of "to_span op" None]) (use span_inv_quiet [OF transact_begun(2)] in simp_all)
next
  case (transact_finished ts qs op rs attempts err now)
  note q = span_inv_quiet [OF transact_finished]
  then have "quiet (PTransact op)" by simp
  from span_inv_step [OF transact_finished adds_transact_end [OF this]] q show ?case by simp
next
  case (migrate_begun t driver sequence ts sp ts' ps)
  have "adds_spans ts sp None ts'" using migrate_begun(1) adds_startSpan by (auto simp: beginMigrate_def split: option.splits)
  from span_inv_step [OF migrate_begun(2) this] span_inv_quiet [OF migrate_begun(2)] show ?case by simp
next
  case (migrate_finished ts qs sp rs err)
  have "adds_spans ts None sp (finishMigrate sp err ts)" unfolding finishMigrate_def by (rule adds_emit) simp_all
  from span_inv_step [OF migrate_finished this] span_inv_quiet [OF migrate_finished] show ?case by simp
next
  case (migration_ran ts ps t driver sequence err name)
  show ?case by (rule span_inv_step [OF migration_ran adds_migration]) (use span_inv_quiet [OF migration_ran] in simp_all)
qed

definition tele_start :: tele_state where
  "tele_start = \<lparr>ts_signals = [], ts_span = 0, ts_capLogged = False\<rparr>"

text \<open>
  (C22) However operations begin, end and overlap, and however often a row is read: no span is started twice or ended
  twice, and the spans not ended are those of the operations still in progress.
\<close>

theorem spans_end_once:
  assumes "(tele_step msg)\<^sup>*\<^sup>* (tele_start, []) (ts, ps)"
  shows "starts n (ts_signals ts) \<le> 1 \<and> ends n (ts_signals ts) + open_count n ps = starts n (ts_signals ts)"
proof -
  have "span_inv (ts, ps)" using assms
  proof (induction rule: rtranclp_induct2)
    case (step ts ps ts' ps')
    then show ?case by (blast intro: tele_step_inv)
  qed (simp add: span_inv_def tele_start_def)
  then show ?thesis by (simp add: span_inv_def)
qed

definition sample_tele :: telemetry where
  "sample_tele = fst (newDefaultTelemetry 1 1 True \<lparr>cb_active = {}, cb_next = 0\<rparr>)"

definition span_pq :: preparedQuery where
  "span_pq = labelled ''pgx'' ''SELECT 1'' ''SELECT 1'' None ''SELECT'' []"

theorem spans_end_once_witness:
  "\<exists>ts ps. (tele_step (\<lambda>_. []))\<^sup>*\<^sup>* (tele_start, []) (ts, ps) \<and> ps = [] \<and> starts 0 (ts_signals ts) = 1 \<and> ends 0 (ts_signals ts) = 1"
proof -
  obtain op ts1 where b: "op_begin False (Some sample_tele) span_pq 0 tele_start = (op, ts1)" by fastforce
  let ?ts = "finish (\<lambda>_. []) op None 5 ts1"
  have "(tele_step (\<lambda>_. []))\<^sup>*\<^sup>* (tele_start, []) (ts1, [PQuery op])" using tele_step.query_begun [OF b] by blast
  moreover have "tele_step (\<lambda>_. []) (ts1, [] @ PQuery op # []) (?ts, [] @ [])" by (rule tele_step.query_finished)
  ultimately have r: "(tele_step (\<lambda>_. []))\<^sup>*\<^sup>* (tele_start, []) (?ts, [])" by simp
  have "starts 0 (ts_signals ?ts) = 1"
    using b by (auto simp: op_begin_def begin_op_def startSpan_def logOperationCapOnce_def sample_tele_def newDefaultTelemetry_def
        initInstruments_def finish_def tele_start_def end_span_def query_log_def discard_def Let_def)
  with spans_end_once [OF r, of 0] r show ?thesis by auto
qed

subsection \<open>The statement's text\<close>

fun is_log :: "signal \<Rightarrow> bool" where
  "is_log (Logged _ _ _) = True"
| "is_log _ = False"

definition told :: "tele_state \<Rightarrow> signal list" where
  "told ts = filter (\<lambda>s. \<not> is_log s) (ts_signals ts)"

text \<open>What an operation tells tracers and meters when it begins and when it ends.\<close>

definition begin_told :: "telemetry option \<Rightarrow> string \<Rightarrow> attributes \<Rightarrow> nat \<Rightarrow> signal list" where
  "begin_told t name attrs n =
     (case t of None \<Rightarrow> [] | Some t' \<Rightarrow> if tl_tracer t' = None then [] else [SpanStarted n name attrs None])"

definition finish_told :: "(error \<Rightarrow> string) \<Rightarrow> telemetry option \<Rightarrow> nat option \<Rightarrow> attributes \<Rightarrow> attributes \<Rightarrow> attributes \<Rightarrow> int \<Rightarrow> error option \<Rightarrow> signal list" where
  "finish_told msg t sp ok failed contended dur err =
     (case t of
        None \<Rightarrow> []
      | Some t' \<Rightarrow>
        (case tl_lockContention t' of
           None \<Rightarrow> [] | Some m \<Rightarrow> if IsLockContentionError msg err then [Added m ''sequel_lock_contention'' contended] else []) @
        (case tl_queryDuration t' of
           None \<Rightarrow> [] | Some m \<Rightarrow> [Recorded m ''sequel_query_duration'' dur (if err = None then ok else failed)]) @
        end_span sp err)"

lemma told_emit: "told (emit sg ts) = told ts @ filter (\<lambda>s. \<not> is_log s) sg"
  by (simp add: told_def)

lemma log_not_told [simp]: "filter (\<lambda>s. \<not> is_log s) (query_log msg t pq dur e) = []"
  by (simp add: query_log_def Let_def split: option.split)

lemma end_span_told [simp]: "filter (\<lambda>s. \<not> is_log s) (end_span sp err) = end_span sp err"
  by (simp add: end_span_def split: option.split)

lemma cap_told: "told (logOperationCapOnce cap t ts) = told ts" "ts_span (logOperationCapOnce cap t ts) = ts_span ts"
  by (simp_all add: logOperationCapOnce_def told_def split: option.split)

lemma begin_tells:
  assumes "op_begin cap t pq start ts = (op, ts')"
  shows "told ts' = told ts @ begin_told t (spanName pq) (spanOptions pq) (ts_span ts)"
    "qo_span op = (if begin_told t [] [] 0 = [] then None else Some (ts_span ts))" "qo_t op = t" "qo_pq op = pq" "qo_start op = start"
proof -
  have "told ts' = told ts @ begin_told t (spanName pq) (spanOptions pq) (ts_span ts) \<and>
      qo_span op = (if begin_told t [] [] 0 = [] then None else Some (ts_span ts)) \<and> qo_t op = t \<and> qo_pq op = pq \<and> qo_start op = start"
  proof (cases t)
    case (Some t')
    obtain sp ts1 where st: "startSpan t' (spanName pq) (spanOptions pq) None (logOperationCapOnce cap t' ts) = (sp, ts1)" by fastforce
    then have "op = \<lparr>qo_t = t, qo_pq = pq, qo_span = sp, qo_start = start\<rparr>" "ts' = ts1"
      using assms Some by (simp_all add: op_begin_def begin_op_def)
    moreover have "told ts1 = told ts @ begin_told t (spanName pq) (spanOptions pq) (ts_span ts) \<and>
        sp = (if begin_told t [] [] 0 = [] then None else Some (ts_span ts))"
      using st cap_told [of cap t' ts] unfolding Some
      by (cases "tl_tracer t'") (auto simp: startSpan_def begin_told_def told_def)
    ultimately show ?thesis by simp
  qed (use assms in \<open>auto simp: op_begin_def begin_op_def begin_told_def\<close>)
  then show "told ts' = told ts @ begin_told t (spanName pq) (spanOptions pq) (ts_span ts)"
    "qo_span op = (if begin_told t [] [] 0 = [] then None else Some (ts_span ts))" "qo_t op = t" "qo_pq op = pq" "qo_start op = start" by blast+
qed

lemma finish_tells:
  "told (finish msg op err now ts) =
     told ts @ finish_told msg (qo_t op) (qo_span op) (recordOK (qo_pq op)) (recordFailed (qo_pq op)) (addContention (qo_pq op)) (now - qo_start op) err"
proof (cases "qo_t op")
  case (Some t)
  show ?thesis unfolding finish_def Some option.case Let_def told_emit finish_told_def
    by (cases "tl_lockContention t"; cases "tl_queryDuration t"; cases err) (simp_all add: IsLockContentionError_def)
qed (simp add: finish_def finish_told_def)

lemma exec_tells:
  "told (fst (tele_instrumentExec msg cap t start stop pq rtt ans ts)) =
     told ts @ begin_told t (spanName pq) (spanOptions pq) (ts_span ts) @
     finish_told msg t (if begin_told t [] [] 0 = [] then None else Some (ts_span ts)) (recordOK pq) (recordFailed pq) (addContention pq) (stop - start)
       (case pq_err pq of Some e \<Rightarrow> Some e | None \<Rightarrow> (case rtt of Some e \<Rightarrow> Some e | None \<Rightarrow> err_of ans))"
proof -
  obtain op ts1 where b: "op_begin cap t pq start ts = (op, ts1)" by fastforce
  note facts = begin_tells [OF b]
  show ?thesis
    by (simp add: tele_instrumentExec_def b finish_tells facts)
qed

text \<open>A single-row query, read once.\<close>

definition row_read_once ::
  "(error \<Rightarrow> string) \<Rightarrow> bool \<Rightarrow> telemetry option \<Rightarrow> int \<Rightarrow> int \<Rightarrow> int \<Rightarrow> preparedQuery \<Rightarrow> error option \<Rightarrow> error option \<Rightarrow> event list \<Rightarrow> tele_state \<Rightarrow> tele_state" where
  "row_read_once msg cap t start stop now pq queryErr err h ts =
     (case tele_instrumentQueryRow msg cap t start stop pq queryErr ts h of (ts1, _, r) \<Rightarrow> snd (row_complete msg now err r ts1))"

lemma row_tells:
  "told (row_read_once msg cap t start stop now pq queryErr err h ts) =
     told ts @ begin_told t (spanName pq) (spanOptions pq) (ts_span ts) @
     finish_told msg t (if begin_told t [] [] 0 = [] then None else Some (ts_span ts)) (recordOK pq) (recordFailed pq) (addContention pq)
       ((case pq_err pq of None \<Rightarrow> now | Some _ \<Rightarrow> stop) - start) (case pq_err pq of Some e \<Rightarrow> Some e | None \<Rightarrow> err)"
proof -
  obtain op ts1 where b: "op_begin cap t pq start ts = (op, ts1)" by fastforce
  note facts = begin_tells [OF b]
  show ?thesis
    by (cases "pq_err pq")
      (simp_all add: row_read_once_def tele_instrumentQueryRow_def row_complete_def db_QueryRowContext_def short_row_def b finish_tells facts finish_def [of _ "\<lparr>qo_t = None, qo_pq = pq, qo_span = None, qo_start = 0\<rparr>"])
qed

text \<open>
  (C39) The spans and metrics of an Exec, a Query or a Prepare, and of a single-row query read once, do not depend on the
  text of the statement, only on the driver, the verb, the table and the outcome with its times: two statements with
  the same of these are reported alike. Only the log has the text.
\<close>

theorem spans_and_metrics_omit_the_text:
  assumes "pq1 = labelled driver query1 text1 err op table" "pq2 = labelled driver query2 text2 err op table"
    and "told ts1 = told ts2" "ts_span ts1 = ts_span ts2"
  shows "told (fst (tele_instrumentExec msg cap t start stop pq1 rtt ans ts1)) = told (fst (tele_instrumentExec msg cap t start stop pq2 rtt ans ts2)) \<and>
    told (row_read_once msg cap t start stop now pq1 queryErr scanned h ts1) = told (row_read_once msg cap t start stop now pq2 queryErr scanned h ts2)"
  using assms unfolding exec_tells row_tells by (simp add: labelled_def Let_def)

theorem spans_and_metrics_omit_the_text_witness:
  "told (fst (tele_instrumentExec (\<lambda>_. []) False (Some sample_tele) 0 5 (labelled ''pgx'' ''a'' ''SELECT 1'' None ''SELECT'' []) None (Inr ()) tele_start)) =
   told (fst (tele_instrumentExec (\<lambda>_. []) False (Some sample_tele) 0 5 (labelled ''pgx'' ''b'' ''SELECT secret()'' None ''SELECT'' []) None (Inr ()) tele_start))"
  by (rule conjunct1 [OF spans_and_metrics_omit_the_text [OF refl refl refl refl]])

subsection \<open>Pool callbacks\<close>

text \<open>The setters in any order, with any success of the registrations.\<close>

datatype setting = TracerProvider "nat option" | MeterProvider "nat option" bool | Logger "logger option"

fun apply_setting :: "nat \<Rightarrow> nat \<Rightarrow> setting \<Rightarrow> telemetry \<times> callbacks \<Rightarrow> telemetry \<times> callbacks" where
  "apply_setting tp mp (TracerProvider p) (t, cb) = (SetTracerProvider tp p t, cb)"
| "apply_setting tp mp (MeterProvider p ok) (t, cb) = SetMeterProvider mp p ok t cb"
| "apply_setting tp mp (Logger l) (t, cb) = (SetLogger l t, cb)"

definition callbacks_ok :: "nat set \<Rightarrow> telemetry \<times> callbacks \<Rightarrow> bool" where
  "callbacks_ok others s \<longleftrightarrow> (case s of (t, cb) \<Rightarrow>
     others \<subseteq> {..<cb_next cb} \<and> cb_active cb = others \<union> set_option (tl_poolRegistration t) \<and>
     (\<forall>r. tl_poolRegistration t = Some r \<longrightarrow> r < cb_next cb \<and> r \<notin> others))"

lemma callbacks_init:
  assumes "others \<subseteq> {..<cb_next cb}" "cb_active cb = others" "tl_poolRegistration t = None"
  shows "callbacks_ok others (initInstruments ok t cb)"
proof -
  have "cb_next cb \<notin> others" using assms(1) by auto
  with assms show ?thesis by (auto simp: callbacks_ok_def initInstruments_def Let_def)
qed

lemma callbacks_set: "callbacks_ok others s \<Longrightarrow> callbacks_ok others (apply_setting tp mp st s)"
proof (induction tp mp st s rule: apply_setting.induct)
  case (2 tp mp p ok t cb)
  have "others \<subseteq> {..<cb_next (snd (clearInstruments t cb))}" "cb_active (snd (clearInstruments t cb)) = others"
    using 2 by (auto simp: callbacks_ok_def clearInstruments_def split: option.splits)
  with callbacks_init [of others "snd (clearInstruments t cb)"] show ?case
    by (simp add: SetMeterProvider_def clearInstruments_def)
qed (simp_all add: callbacks_ok_def SetTracerProvider_def SetLogger_def)

text \<open>
  A handle has at most one pool callback registered, whatever providers are set on it and in whatever order,
  and closing it leaves the callbacks as they were before it was opened.
\<close>

theorem closing_leaves_no_callback:
  assumes "cb_active cb \<subseteq> {..<cb_next cb}"
    and "s = fold (apply_setting tp mp) settings (newDefaultTelemetry tp mp ok cb)"
  shows "cb_active (unregisterPool (fst s) (snd s)) = cb_active cb \<and> card (cb_active (snd s) - cb_active cb) \<le> 1"
proof -
  have "callbacks_ok (cb_active cb) (newDefaultTelemetry tp mp ok cb)"
    unfolding newDefaultTelemetry_def by (rule callbacks_init) (use assms(1) in simp_all)
  then have "callbacks_ok (cb_active cb) s" unfolding assms(2)
    by (induction settings rule: rev_induct) (simp_all add: callbacks_set)
  then show ?thesis by (cases "tl_poolRegistration (fst s)") (auto simp: callbacks_ok_def unregisterPool_def insert_Diff_if split: prod.splits)
qed

theorem closing_leaves_no_callback_witness:
  "let s = fold (apply_setting 1 1) [MeterProvider (Some 2) True, Logger None, MeterProvider None True]
             (newDefaultTelemetry 1 1 True \<lparr>cb_active = {0}, cb_next = 1\<rparr>)
   in cb_active (unregisterPool (fst s) (snd s)) = {0}"
  using closing_leaves_no_callback [OF _ refl, of "\<lparr>cb_active = {0}, cb_next = 1\<rparr>" 1 1
      "[MeterProvider (Some 2) True, Logger None, MeterProvider None True]" True] by (simp add: Let_def)

end
