(* ===== verification/Spec2Isabelle.thy ===== *)
theory Spec2Isabelle
  imports Placeholders Errors Vf_Expansion Operation_Labels Cache_Races Failed_Tx Transact Buffered_Rows Redaction
    Migration_Files Migration_Lock Pool_Theorems Nullify Spans
begin

text \<open>
  Verification of sequel, a Go library over \<^verbatim>\<open>database/sql\<close> for MySQL, MariaDB, PostgreSQL, CockroachDB, SQL Server
  and SQLite. The development is a shallow embedding of the library's Go files (\<^verbatim>\<open>*.go\<close> without the tests).

  \<^bold>\<open>The program.\<close> A statement handed to a \<^verbatim>\<open>DB\<close>, a \<^verbatim>\<open>Tx\<close> or a \<^verbatim>\<open>Stmt\<close> is first looked up in the statement cache
  (\<^verbatim>\<open>querycache.go\<close>), which on a miss expands its virtual functions (\<^verbatim>\<open>vf.go\<close>), numbers its placeholders
  (\<^verbatim>\<open>conformPlaceholders\<close> of \<^verbatim>\<open>db.go\<close>) and derives its telemetry labels (\<^verbatim>\<open>parseOperation\<close> of \<^verbatim>\<open>telemetry.go\<close>); all
  three ask the lexer (\<^verbatim>\<open>sqllex.go\<close>) what is code and what is quoted. The prepared text is then sent through the
  instrumentation (\<^verbatim>\<open>telemetry.go\<close>), after a simulated round trip (\<^verbatim>\<open>rtt.go\<close>). A transaction (\<^verbatim>\<open>tx.go\<close>, \<^verbatim>\<open>stmt.go\<close>,
  \<^verbatim>\<open>rows.go\<close>) run by \<^verbatim>\<open>Transact\<close> latches its first error, so that a closure cannot commit partial work; batches
  (\<^verbatim>\<open>batch.go\<close>, \<^verbatim>\<open>batchresults.go\<close>, \<^verbatim>\<open>batchrows.go\<close>, \<^verbatim>\<open>batchrow.go\<close>) queue statements of a transaction and hand their
  results back in order. \<^verbatim>\<open>db.go\<close> opens handles from data source names, runs migrations under a lock in the
  database, and makes and drops testing databases. \<^verbatim>\<open>nullify.go\<close> reads and writes NULL columns.

  \<^bold>\<open>The theories\<close>, from the library up:

  \<^item> \<open>Go_Prelude\<close>, \<open>Go_Regexp\<close>, \<open>Sha256\<close>: what the code uses of Go's standard library, on byte strings: searching,
    trimming, splitting and case mapping, decimal numbers, pieces of regular expressions, the hash of \<^verbatim>\<open>hashStr\<close>.
  \<^item> \<open>Sql_Lex\<close>, \<open>Placeholders\<close>: \<^verbatim>\<open>skipNonCode\<close> with its bounds; both paths of \<^verbatim>\<open>conformPlaceholders\<close> number exactly the
    question marks outside what the lexer skips.
  \<^item> \<open>Errors\<close>: Go errors as a datatype of chains; \<^verbatim>\<open>IsLockContentionError\<close>, \<^verbatim>\<open>IsUndefinedTableError\<close>, \<^verbatim>\<open>traceErr\<close>.
  \<^item> \<open>Virtual_Funcs\<close>, \<open>Vf_Handlers\<close>, \<open>Vf_Expansion\<close>: the registry, one pass (\<open>expandOnce\<close>) and the repeated pass
    (\<open>expandVirtualFuncs\<close>, a partial function), and the built-in handlers. One pass is specified by the pieces of the
    statement; the repeated pass ends because each built-in handler makes a weight of the text smaller (locale
    \<open>shrinking_registry\<close>, interpreted on the built-in functions); a JSON path cannot leave its literal.
  \<^item> \<open>Operation_Labels\<close>: \<^verbatim>\<open>parseOperation\<close> and the bounded label set, as interleaved steps of many calls.
  \<^item> \<open>Query_Cache\<close>, \<open>Cache_Clock\<close>, \<open>Cache_Races\<close>: the cache with its heap of shared entries, the CLOCK sweep, and
    lookups interleaved with registrations (locale \<open>generation_cache\<close>, interpreted on the code's cache).
  \<^item> \<open>Transactions\<close>, \<open>Batches\<close>, \<open>Inserts\<close>: the state \<open>tx\<close> and \<open>txw\<close> (a transaction with stores of its batches, results and
    readers, which refer to each other by pointer in the code and by number here) and one function per method. What the
    database, the driver and the context answer is an argument; \<open>sent\<close> is the history of what reached the database.
    \<open>Batch_Core\<close>, \<open>Batch_Inv\<close>, \<open>Batch_Steps\<close>, \<open>Batch_Close\<close>, \<open>Batch_Run\<close>, \<open>Closures\<close>: everything a closure may do
    (\<open>tx_step\<close>) keeps the invariant that every sent batch has run in full, in order, and that every failure somebody
    was told of is recorded; the one nobody is told of is that of a single-row query that is never read.
    \<open>Failed_Tx\<close>: after an error nothing more is sent. \<open>Transact\<close>: attempts, commits and rollbacks.
  \<^item> \<open>Buffered_Rows\<close>: the rows of a pipelined batch implement a cursor over a list (locale \<open>row_source\<close>).
  \<^item> \<open>Db_Ops\<close>: the statement methods of \<^verbatim>\<open>DB\<close>, and that a plain transaction behaves like them (locale \<open>executor\<close> of
    \<open>Inserts\<close>, interpreted on \<^verbatim>\<open>DB\<close> and on \<^verbatim>\<open>Tx\<close>).
  \<^item> \<open>Dsn\<close>, \<open>Dsn_Database\<close>, \<open>Redaction\<close>: inferring the driver, normalizing a data source name, reading and replacing
    its database, masking its credentials.
  \<^item> \<open>Migrations\<close>, \<open>Migration_Files\<close>, \<open>Migration_Lock\<close>: the plan, the table, the statements of a file, which are free of
    \<^verbatim>\<open>--\<close> comments and run in order up to the first that fails; and the loop of \<^verbatim>\<open>Migrate\<close> as a step
    relation \<open>mig_step\<close> of any number of runners on one table, each statement on the table one step.
  \<^item> \<open>Testing_Names\<close>, \<open>Pools\<close>, \<open>Pool_Inv\<close>, \<open>Pool_Steps\<close>, \<open>Testing_Db\<close>, \<open>Pool_Theorems\<close>: names of testing databases;
    \<^verbatim>\<open>Open\<close>, \<^verbatim>\<open>OpenSingleton\<close>, \<^verbatim>\<open>Close\<close> and \<^verbatim>\<open>CreateTestingDatabase\<close> on the package's maps (record \<open>pools\<close>); the count kept
    for a testing database is the number of open handles on it in every reachable state, and the count of a
    shared handle is the number of its openings not yet closed, counted beside the code (\<open>counted_step\<close>).
  \<^item> \<open>Telemetry\<close>, \<open>Spans\<close>: what is told to the OpenTelemetry and slog backends is a list of signals; spans end once,
    the text of a statement goes to the log only, and a handle leaves no pool callback behind.
  \<^item> \<open>Nullify\<close>: \<^verbatim>\<open>Nullify\<close>, \<^verbatim>\<open>Bind\<close>, \<^verbatim>\<open>Nullable\<close> and \<^verbatim>\<open>ApplyBindings\<close> on a store of the caller's variables.

  \<^bold>\<open>Conventions.\<close> A Go string is a list of bytes (\<open>string\<close>). An error is a value of \<open>error\<close>, a result with an error is
  \<open>error + 'a\<close>, a panic is a third outcome where the code can panic. A method and its \<^verbatim>\<open>Context\<close> variant are one
  definition. A mutex makes the section it guards one step; sections outside a mutex are steps of their own. Go's
  \<^verbatim>\<open>int\<close> is \<open>nat\<close> or \<open>int\<close> where the values are positions, counts or file numbers; the generation counter of the cache and
  the words of SHA-256 have their width.

  \<^bold>\<open>Fuel and bounds.\<close> \<open>expandVirtualFuncs\<close> has no fuel: \<open>expandVirtualFuncs_returns\<close> proves that it returns with the built-in
  functions. Loops over positions have termination proofs with the distance to the end as measure. The sweep of
  the CLOCK hand runs at most twice around the ring, the bound the code has. \<^verbatim>\<open>Transact\<close> has the code's eight attempts.
  \<open>ceil_sqrt\<close> searches upwards from 0 with \<open>n\<close> steps, which is enough since \<open>n \<le> n * n\<close>.

  \<^bold>\<open>Arguments of the model.\<close> The parsers of \<^verbatim>\<open>net/url\<close> and of the MySQL, PostgreSQL and SQL Server drivers, the
  environment and Unicode's case tables are the record \<open>libs\<close>; what the theorems rely on of them is a hypothesis
  (that the data source name of a server without a database is no testing database's, in \<open>master_in_play\<close>) that the
  small instance \<open>sample_libs\<close> meets. The theorems on handles rely on SHA-256 telling the data source names in play
  apart (\<open>no_collision\<close>).

  \<^bold>\<open>Not modelled.\<close> The random pause between attempts and other waiting, which affect no result; the drawing
  of random numbers, whose values are arguments; the body of the pool gauge callback and \<^verbatim>\<open>snapshotStats\<close>, which copy
  numbers of \<^verbatim>\<open>database/sql\<close>; the interface \<^verbatim>\<open>Executor\<close>, a declaration without behaviour; type aliases; what a backend
  does with a signal. Cancellation is an outcome of the operations, not a process. A statement that fails although
  it took effect on the server is not distinguished from one that did not.

  \<^bold>\<open>What the model showed.\<close> Positions found in an upper-cased text are used in the original one (\<^verbatim>\<open>vfRegexpTextSearch\<close>,
  \<^verbatim>\<open>tableAfter\<close>); a MySQL password with \<^verbatim>\<open>://\<close>, a password with a line break and the password of an empty user are not
  masked (\<open>redact_misses_mysql_password\<close>, \<open>redact_misses_line_break\<close>, \<open>redact_misses_user\<close>); a single-row query that fails
  and is never read does not keep a transaction from committing (\<open>unread_row_commits\<close>); a join after a line break is
  reported with a table (\<open>join_after_newline\<close>); of two migration files
  with one number only one runs (\<open>same_number_drops_a_file\<close>); a runner that lost its lease frees another's lock
  (\<open>stale_release_frees_lock\<close>); two base names of one testing database leave a stale name in the cache
  (\<open>second_base_leaves_stale_name\<close>); a bare SQLite base gives a name without a driver (\<open>bare_sqlite_base_names_no_driver\<close>).
\<close>

end
